(* ===== verification/Prelude.thy ===== *)
theory Prelude
  imports Main "HOL-Library.Word" "HOL-Library.Char_ord" "HOL-Library.List_Lexorder"
    "HOL-Library.Sublist"
begin

text \<open>
  Shared vocabulary of the isobox development.  Go strings and byte slices are
  both byte sequences, written as \<^typ>\<open>string\<close>; \<^typ>\<open>char\<close> is one byte and the
  library's lexicographic order on \<^typ>\<open>string\<close> is the order of
  \<^verbatim>\<open>bytes.Compare\<close>.  A fallible Go function returns a sum whose left summand is
  the error.  The theory also holds the models of the few functions of the
  packages \<^verbatim>\<open>strings\<close>, \<^verbatim>\<open>encoding/binary\<close>, \<^verbatim>\<open>encoding/hex\<close> and
  \<^verbatim>\<open>crypto/subtle\<close> the program calls, and the generic lemmas on lists and
  finite maps that the component theories share.
\<close>

section \<open>Types\<close>

type_synonym bytes = string
type_synonym ('e, 'a) result = "'e + 'a"
type_synonym int64 = "64 word"

named_theorems kv_defs \<open>definitions of the key/value store operations\<close>
named_theorems bolt_laws \<open>the contract of the embedded database\<close>
named_theorems sem_laws \<open>the contract of the weighted semaphore\<close>

abbreviation between :: "char \<Rightarrow> char \<Rightarrow> char \<Rightarrow> bool" where
  "between lo hi c \<equiv> lo \<le> c \<and> c \<le> hi"

definition is_ok :: "('e, 'a) result \<Rightarrow> bool" where
  "is_ok r = (case r of Inl _ \<Rightarrow> False | Inr _ \<Rightarrow> True)"

lemma is_ok_simps [simp]: "\<not> is_ok (Inl e)" "is_ok (Inr a)"
  by (simp_all add: is_ok_def)

definition andThen :: "('e, 'a) result \<Rightarrow> ('a \<Rightarrow> ('e, 'b) result) \<Rightarrow> ('e, 'b) result" where
  "andThen r f = (case r of Inl e \<Rightarrow> Inl e | Inr a \<Rightarrow> f a)"

lemma andThen_simps [simp]: "andThen (Inl e) f = Inl e" "andThen (Inr a) f = f a"
  by (simp_all add: andThen_def)

lemma andThen_Inr_iff: "andThen r f = Inr b \<longleftrightarrow> (\<exists>a. r = Inr a \<and> f a = Inr b)"
  by (cases r) simp_all

section \<open>Total of a measure over a finite map\<close>

definition map_total :: "('k \<Rightarrow> 'v \<Rightarrow> int) \<Rightarrow> ('k \<rightharpoonup> 'v) \<Rightarrow> int" where
  "map_total g m = (\<Sum>k \<in> dom m. g k (the (m k)))"

lemma map_total_empty [simp]: "map_total g Map.empty = 0"
  by (simp add: map_total_def)

lemma map_total_remove:
  assumes "finite (dom m)" and "m k = Some v"
  shows "map_total g m = g k v + map_total g (m(k := None))"
proof -
  have dom: "dom m = insert k (dom m - {k})" using assms(2) by auto
  have "map_total g m = g k v + (\<Sum>j \<in> dom m - {k}. g j (the (m j)))"
    unfolding map_total_def using assms by (subst dom) (simp add: sum.insert_remove)
  also have "(\<Sum>j \<in> dom m - {k}. g j (the (m j))) = map_total g (m(k := None))"
    unfolding map_total_def by (rule sum.cong) auto
  finally show ?thesis .
qed

lemma map_total_upd_new:
  assumes "finite (dom m)" and "m k = None"
  shows "map_total g (m(k \<mapsto> v)) = map_total g m + g k v"
proof -
  have "map_total g (m(k \<mapsto> v)) = g k v + map_total g ((m(k \<mapsto> v))(k := None))"
    by (rule map_total_remove) (use assms in auto)
  moreover have "(m(k \<mapsto> v))(k := None) = m" using assms(2) by auto
  ultimately show ?thesis by simp
qed

lemma map_total_upd_old:
  assumes "finite (dom m)" and "m k = Some v0"
  shows "map_total g (m(k \<mapsto> v)) = map_total g m - g k v0 + g k v"
proof -
  have "map_total g (m(k \<mapsto> v)) = g k v + map_total g ((m(k \<mapsto> v))(k := None))"
    by (rule map_total_remove) (use assms in auto)
  moreover have "(m(k \<mapsto> v))(k := None) = m(k := None)" by auto
  ultimately show ?thesis using map_total_remove [OF assms, of g] by simp
qed

lemma map_total_nonneg:
  "(\<And>k v. m k = Some v \<Longrightarrow> 0 \<le> g k v) \<Longrightarrow> 0 \<le> map_total g m"
  unfolding map_total_def by (rule sum_nonneg) auto

lemma card_dom_upd_new:
  "finite (dom m) \<Longrightarrow> m k = None \<Longrightarrow> card (dom (m(k \<mapsto> v))) = Suc (card (dom m))"
  by (simp add: domIff)

lemma card_dom_upd_old:
  "m k = Some v0 \<Longrightarrow> card (dom (m(k \<mapsto> v))) = card (dom m)"
  by (simp add: insert_absorb domI)

lemma card_dom_del:
  "finite (dom m) \<Longrightarrow> m k = Some v \<Longrightarrow> int (card (dom (m(k := None)))) = int (card (dom m)) - 1"
proof -
  assume fin: "finite (dom m)" and mk: "m k = Some v"
  then have "0 < card (dom m)" using card_gt_0_iff by blast
  with fin mk show ?thesis by (simp add: domI)
qed

section \<open>Signed 64-bit integers\<close>

lemma sint_word_of_int64: "- (2 ^ 63) \<le> n \<Longrightarrow> n < 2 ^ 63 \<Longrightarrow> sint (word_of_int n :: int64) = n"
  by (simp add: signed_of_int signed_take_bit_int_eq_self)

lemma word_of_int64_less:
  "0 \<le> m \<Longrightarrow> m < 2 ^ 63 \<Longrightarrow> 0 \<le> n \<Longrightarrow> n < 2 ^ 63 \<Longrightarrow>
    (word_of_int m :: int64) < word_of_int n \<longleftrightarrow> m < n"
  by (simp add: word_less_def uint_word_of_int_eq take_bit_int_eq_self)

section \<open>Package encoding/binary: big-endian integers\<close>

fun be_bytes :: "nat \<Rightarrow> nat \<Rightarrow> bytes" where
  "be_bytes 0 x = []"
| "be_bytes (Suc n) x = be_bytes n (x div 256) @ [char_of (x mod 256)]"

definition be_value :: "bytes \<Rightarrow> nat" where
  "be_value bs = foldl (\<lambda>a c. a * 256 + of_char c) 0 bs"

definition PutUint64 :: "64 word \<Rightarrow> bytes" where
  "PutUint64 w = be_bytes 8 (unat w)"

definition PutUint16 :: "16 word \<Rightarrow> bytes" where
  "PutUint16 w = be_bytes 2 (unat w)"

definition Uint64 :: "bytes \<Rightarrow> 64 word" where
  "Uint64 bs = of_nat (be_value bs)"

definition Uint16 :: "bytes \<Rightarrow> 16 word" where
  "Uint16 bs = of_nat (be_value bs)"

lemma length_be_bytes [simp]: "length (be_bytes n x) = n"
  by (induction n arbitrary: x) auto

lemma be_value_be_bytes: "be_value (be_bytes n x) = x mod 256 ^ n"
proof (induction n arbitrary: x)
  case 0
  show ?case by (simp add: be_value_def)
next
  case (Suc n)
  have "be_value (be_bytes (Suc n) x) = (x div 256) mod 256 ^ n * 256 + x mod 256"
    using Suc by (simp add: be_value_def)
  also have "\<dots> = x mod 256 ^ Suc n"
    using mod_mult2_eq [of x 256 "256 ^ n"] by (simp add: mult.commute)
  finally show ?case .
qed

lemma length_PutUint64 [simp]: "length (PutUint64 w) = 8"
  by (simp add: PutUint64_def)

lemma length_PutUint16 [simp]: "length (PutUint16 w) = 2"
  by (simp add: PutUint16_def)

lemma unat_lt_256_8: "unat (w :: 64 word) < 256 ^ 8"
  using unsigned_less [of w] by simp

lemma Uint64_PutUint64 [simp]: "Uint64 (PutUint64 w) = w"
  using unat_lt_256_8 [of w] by (simp add: Uint64_def PutUint64_def be_value_be_bytes)

lemma Uint16_PutUint16 [simp]: "Uint16 (PutUint16 w) = w"
proof -
  have "unat w < 256 ^ 2" using unsigned_less [of w] by simp
  then show ?thesis by (simp add: Uint16_def PutUint16_def be_value_be_bytes)
qed

lemma PutUint64_inject [simp]: "PutUint64 v = PutUint64 w \<longleftrightarrow> v = w"
  by (metis Uint64_PutUint64)

text \<open>Comparing the encodings byte by byte compares the numbers.\<close>

lemma append_less_same_length:
  fixes xs ys :: "'a :: order list"
  assumes "length xs = length ys"
  shows "xs @ us < ys @ vs \<longleftrightarrow> xs < ys \<or> xs = ys \<and> us < vs"
  using assms by (induction xs ys rule: list_induct2) auto

lemma nat_less_div_mod:
  fixes x y b :: nat
  shows "x < y \<longleftrightarrow> x div b < y div b \<or> x div b = y div b \<and> x mod b < y mod b"
proof (cases "x div b" "y div b" rule: linorder_cases)
  case less
  then have "\<not> y \<le> x" using div_le_mono [of y x b] by linarith
  with less show ?thesis by simp
next
  case equal
  then have "x < y \<longleftrightarrow> x mod b < y mod b"
    by (metis div_mult_mod_eq nat_add_left_cancel_less)
  with equal show ?thesis by simp
next
  case greater
  then have "\<not> x \<le> y" using div_le_mono [of x y b] by linarith
  with greater show ?thesis by simp
qed

lemma be_bytes_less:
  "x < 256 ^ n \<Longrightarrow> y < 256 ^ n \<Longrightarrow> be_bytes n x < be_bytes n y \<longleftrightarrow> x < y"
proof (induction n arbitrary: x y)
  case 0
  then show ?case by simp
next
  case (Suc n)
  have bound: "x div 256 < 256 ^ n" "y div 256 < 256 ^ n"
    using Suc.prems by (simp_all add: less_mult_imp_div_less mult.commute)
  have inj: "be_bytes n (x div 256) = be_bytes n (y div 256) \<longleftrightarrow> x div 256 = y div 256"
    using bound by (metis be_value_be_bytes mod_less)
  have chars: "[char_of (x mod 256)] < [char_of (y mod 256) :: char] \<longleftrightarrow> x mod 256 < y mod 256"
    by (simp add: less_char_def)
  have "be_bytes (Suc n) x < be_bytes (Suc n) y \<longleftrightarrow>
      x div 256 < y div 256 \<or> x div 256 = y div 256 \<and> x mod 256 < y mod 256"
    using Suc.IH [OF bound] inj chars by (simp add: append_less_same_length)
  also have "\<dots> \<longleftrightarrow> x < y"
    by (rule nat_less_div_mod [symmetric])
  finally show ?case .
qed

lemma PutUint64_less: "PutUint64 v < PutUint64 w \<longleftrightarrow> v < w"
  using unat_lt_256_8 [of v] unat_lt_256_8 [of w]
  by (simp add: PutUint64_def be_bytes_less word_less_nat_alt)

section \<open>Go maps as association lists\<close>

text \<open>A Go map, in the order some iteration visits it; keys are distinct.\<close>

definition map_put :: "'k \<Rightarrow> 'v \<Rightarrow> ('k \<times> 'v) list \<Rightarrow> ('k \<times> 'v) list" where
  "map_put k v xs = (k, v) # filter (\<lambda>p. fst p \<noteq> k) xs"

definition map_del :: "'k \<Rightarrow> ('k \<times> 'v) list \<Rightarrow> ('k \<times> 'v) list" where
  "map_del k xs = filter (\<lambda>p. fst p \<noteq> k) xs"

lemma map_of_filter_fst: "map_of (filter (\<lambda>p. fst p \<noteq> k) xs) j = (if j = k then None else map_of xs j)"
  by (induction xs) auto

lemma map_of_map_del: "map_of (map_del k xs) j = (if j = k then None else map_of xs j)"
  by (simp add: map_del_def map_of_filter_fst)

lemma map_of_map_put: "map_of (map_put k v xs) j = (if j = k then Some v else map_of xs j)"
  by (simp add: map_put_def map_of_filter_fst)

lemma map_put_fresh: "k \<notin> fst ` set xs \<Longrightarrow> map_put k v xs = (k, v) # xs"
  by (force simp: map_put_def intro!: filter_True)

lemma distinct_filter_fst: "distinct (map fst xs) \<Longrightarrow> distinct (map fst (filter P xs))"
  by (simp add: distinct_map_filter)

lemma distinct_map_put: "distinct (map fst xs) \<Longrightarrow> distinct (map fst (map_put k v xs))"
  by (auto simp: map_put_def distinct_filter_fst)

lemma distinct_map_del: "distinct (map fst xs) \<Longrightarrow> distinct (map fst (map_del k xs))"
  by (simp add: map_del_def distinct_filter_fst)

lemma in_map_del: "p \<in> set (map_del k xs) \<longleftrightarrow> p \<in> set xs \<and> fst p \<noteq> k"
  by (auto simp: map_del_def)

lemma in_map_put: "p \<in> set (map_put k v xs) \<longleftrightarrow> p = (k, v) \<or> p \<in> set xs \<and> fst p \<noteq> k"
  by (auto simp: map_put_def)

end
