(* ===== verification/Bolt.thy ===== *)
theory Bolt
  imports Prelude
begin

text \<open>
  The embedded database \<^verbatim>\<open>go.etcd.io/bbolt\<close> is third-party code: its operations
  are a parameter of the key/value store, a record of functions on an abstract
  transaction state.  The locale \<open>bolt_db\<close> states what its documentation
  promises: buckets are finite maps from byte strings to byte strings, a cursor
  walks a bucket in byte order, and a write transaction's updates fail only for
  a blank or oversized key, an oversized value or a blank bucket name.  Opening a
  file and committing may fail at any time (\<open>b_Open\<close> and \<open>tx_Commit\<close> return the
  error, if any); nothing is assumed about when they do.
  \<open>mem_bolt\<close> is a reference implementation on association lists.
\<close>

record 'tx bolt =
  b_Open :: "string \<Rightarrow> string option"
  tx_Commit :: "'tx \<Rightarrow> string option"
  tx_empty :: 'tx
  tx_Bucket :: "'tx \<Rightarrow> bytes \<Rightarrow> bool"
  tx_CreateBucketIfNotExists :: "'tx \<Rightarrow> bytes \<Rightarrow> (string, 'tx) result"
  b_Get :: "'tx \<Rightarrow> bytes \<Rightarrow> bytes \<Rightarrow> bytes option"
  b_Put :: "'tx \<Rightarrow> bytes \<Rightarrow> bytes \<Rightarrow> bytes \<Rightarrow> (string, 'tx) result"
  b_Delete :: "'tx \<Rightarrow> bytes \<Rightarrow> bytes \<Rightarrow> (string, 'tx) result"
  b_Cursor :: "'tx \<Rightarrow> bytes \<Rightarrow> (bytes \<times> bytes) list"

definition MaxKeySize :: nat where "MaxKeySize = 32768"
definition MaxValueSize :: nat where "MaxValueSize = 2147483646"

definition c_Seek :: "bytes \<Rightarrow> (bytes \<times> bytes) list \<Rightarrow> (bytes \<times> bytes) list" where
  "c_Seek k kvs = dropWhile (\<lambda>kv. fst kv < k) kvs"

locale bolt_db =
  fixes B :: "'tx bolt"
    and view :: "'tx \<Rightarrow> bytes \<Rightarrow> (bytes \<rightharpoonup> bytes) option"
  assumes view_empty [bolt_laws]: "view (tx_empty B) n = None"
    and finite_buckets [bolt_laws]: "finite (dom (view t))"
    and Bucket_iff [bolt_laws]: "tx_Bucket B t n \<longleftrightarrow> view t n \<noteq> None"
    and Create_ok [bolt_laws]: "n \<noteq> [] \<Longrightarrow> length n \<le> MaxKeySize \<Longrightarrow>
      \<exists>t'. tx_CreateBucketIfNotExists B t n = Inr t' \<and>
        view t' = (if view t n = None then (view t)(n \<mapsto> Map.empty) else view t)"
    and Get_eq [bolt_laws]: "view t n = Some m \<Longrightarrow> b_Get B t n k = m k"
    and Put_ok [bolt_laws]: "view t n = Some m \<Longrightarrow> k \<noteq> [] \<Longrightarrow> length k \<le> MaxKeySize \<Longrightarrow>
      length v \<le> MaxValueSize \<Longrightarrow>
      \<exists>t'. b_Put B t n k v = Inr t' \<and> view t' = (view t)(n \<mapsto> m(k \<mapsto> v))"
    and Delete_ok [bolt_laws]: "view t n = Some m \<Longrightarrow>
      \<exists>t'. b_Delete B t n k = Inr t' \<and> view t' = (view t)(n \<mapsto> m(k := None))"
    and Cursor_map [bolt_laws]: "view t n = Some m \<Longrightarrow> map_of (b_Cursor B t n) = m"
    and Cursor_sorted [bolt_laws]: "view t n = Some m \<Longrightarrow> sorted_wrt (<) (map fst (b_Cursor B t n))"
begin

lemma finite_bucket: "view t n = Some m \<Longrightarrow> finite (dom m)"
  using Cursor_map [of t n m] finite_dom_map_of [of "b_Cursor B t n"] by simp

lemma Cursor_distinct: "view t n = Some m \<Longrightarrow> distinct (map fst (b_Cursor B t n))"
  using Cursor_sorted strict_sorted_iff by blast

lemma Cursor_mem: "view t n = Some m \<Longrightarrow> (k, v) \<in> set (b_Cursor B t n) \<longleftrightarrow> m k = Some v"
  using Cursor_map [of t n m] map_of_eq_Some_iff [OF Cursor_distinct, of t n m k v] by auto

end

section \<open>A reference implementation\<close>

type_synonym mem_tx = "(bytes \<times> (bytes \<times> bytes) list) list"

fun al_put :: "'k \<Rightarrow> 'v \<Rightarrow> ('k \<times> 'v) list \<Rightarrow> ('k \<times> 'v) list" where
  "al_put k v [] = [(k, v)]"
| "al_put k v ((k', v') # r) = (if k = k' then (k, v) # r else (k', v') # al_put k v r)"

definition al_del :: "'k \<Rightarrow> ('k \<times> 'v) list \<Rightarrow> ('k \<times> 'v) list" where
  "al_del k r = filter (\<lambda>kv. fst kv \<noteq> k) r"

definition al_cursor :: "(bytes \<times> bytes) list \<Rightarrow> (bytes \<times> bytes) list" where
  "al_cursor r = map (\<lambda>k. (k, the (map_of r k))) (sort (remdups (map fst r)))"

definition mem_bolt :: "mem_tx bolt" where
  "mem_bolt = \<lparr>
     b_Open = (\<lambda>_. None),
     tx_Commit = (\<lambda>_. None),
     tx_empty = [],
     tx_Bucket = (\<lambda>t n. map_of t n \<noteq> None),
     tx_CreateBucketIfNotExists = (\<lambda>t n.
       if n = [] \<or> length n > MaxKeySize then Inl ''bucket name''
       else Inr (if map_of t n = None then al_put n [] t else t)),
     b_Get = (\<lambda>t n k. case map_of t n of None \<Rightarrow> None | Some r \<Rightarrow> map_of r k),
     b_Put = (\<lambda>t n k v. case map_of t n of None \<Rightarrow> Inl ''no bucket''
       | Some r \<Rightarrow> if k = [] \<or> length k > MaxKeySize \<or> length v > MaxValueSize then Inl ''key or value size''
           else Inr (al_put n (al_put k v r) t)),
     b_Delete = (\<lambda>t n k. case map_of t n of None \<Rightarrow> Inl ''no bucket''
       | Some r \<Rightarrow> Inr (al_put n (al_del k r) t)),
     b_Cursor = (\<lambda>t n. case map_of t n of None \<Rightarrow> [] | Some r \<Rightarrow> al_cursor r) \<rparr>"

definition mem_view :: "mem_tx \<Rightarrow> bytes \<Rightarrow> (bytes \<rightharpoonup> bytes) option" where
  "mem_view t n = map_option map_of (map_of t n)"

lemma map_of_al_put: "map_of (al_put k v r) = (map_of r)(k \<mapsto> v)"
  by (induction k v r rule: al_put.induct) auto

lemma map_of_al_del: "map_of (al_del k r) = (map_of r)(k := None)"
  by (induction r) (auto simp: al_del_def)

lemma fst_al_cursor: "map fst (al_cursor r) = sort (remdups (map fst r))"
  by (simp add: al_cursor_def comp_def)

lemma map_of_al_cursor: "map_of (al_cursor r) = map_of r"
proof
  fix k
  show "map_of (al_cursor r) k = map_of r k"
  proof (cases "map_of r k")
    case None
    then have "k \<notin> fst ` set (al_cursor r)"
      by (simp add: map_of_eq_None_iff image_image al_cursor_def)
    then have "map_of (al_cursor r) k = None" by (simp only: map_of_eq_None_iff not_False_eq_True)
    with None show ?thesis by simp
  next
    case (Some v)
    then have "k \<in> fst ` set r" by (metis domI dom_map_of_conv_image_fst)
    then have "(k, v) \<in> set (al_cursor r)"
      using Some by (auto simp: al_cursor_def image_iff)
    moreover have "distinct (map fst (al_cursor r))" by (simp add: fst_al_cursor)
    ultimately show ?thesis using Some by (simp add: map_of_eq_Some_iff)
  qed
qed

lemma mem_view_put: "mem_view (al_put n r t) = (mem_view t)(n \<mapsto> map_of r)"
  by (auto simp: mem_view_def map_of_al_put)

interpretation mem: bolt_db mem_bolt mem_view
proof (unfold_locales, goal_cases)
  case (2 t)
  have "dom (mem_view t) = dom (map_of t)" by (auto simp: mem_view_def)
  then show ?case by (simp add: finite_dom_map_of)
next
  case (4 n t)
  then show ?case by (auto simp: mem_bolt_def mem_view_put, auto simp: mem_view_def)
next
  case (6 t n m k v)
  then obtain z where "map_of t n = Some z" "m = map_of z" by (auto simp: mem_view_def)
  with 6 show ?case by (simp add: mem_bolt_def mem_view_put map_of_al_put)
next
  case (7 t n m k)
  then obtain z where "map_of t n = Some z" "m = map_of z" by (auto simp: mem_view_def)
  then show ?case by (simp add: mem_bolt_def mem_view_put map_of_al_del)
next
  case (9 t n m)
  then show ?case
    by (auto simp: mem_bolt_def mem_view_def fst_al_cursor strict_sorted_iff)
qed (auto simp: mem_bolt_def mem_view_def map_of_al_cursor)

end
