(* ===== verification/Codec.thy ===== *)
theory Codec
  imports Prelude
begin

text \<open>
  The text encodings of the standard library the program uses: lower-case
  hexadecimal (\<^verbatim>\<open>encoding/hex\<close>) and unpadded URL-safe base64
  (\<^verbatim>\<open>base64.RawURLEncoding\<close>, whose decoder skips line breaks and ignores the
  unused bits of the last digit), with their round trips.
\<close>

definition hex_digit :: "nat \<Rightarrow> char" where
  "hex_digit n = (if n < 10 then char_of (48 + n) else char_of (87 + n))"

definition hex_encode :: "bytes \<Rightarrow> string" where
  "hex_encode bs = concat (map (\<lambda>c. [hex_digit (of_char c div 16), hex_digit (of_char c mod 16)]) bs)"

definition is_hex_char :: "char \<Rightarrow> bool" where
  "is_hex_char c \<longleftrightarrow> between CHR ''0'' CHR ''9'' c \<or> between CHR ''a'' CHR ''f'' c"

definition b64url_digit :: "nat \<Rightarrow> char" where
  "b64url_digit n =
     (if n < 26 then char_of (65 + n) else if n < 52 then char_of (71 + n)
      else if n < 62 then char_of (n - 4) else if n = 62 then CHR ''-'' else CHR ''_'')"

definition b64url_value :: "char \<Rightarrow> nat option" where
  "b64url_value c =
     (let n = of_char c :: nat in
      if 65 \<le> n \<and> n \<le> 90 then Some (n - 65) else if 97 \<le> n \<and> n \<le> 122 then Some (n - 71)
      else if 48 \<le> n \<and> n \<le> 57 then Some (n + 4)
      else if n = 45 then Some 62 else if n = 95 then Some 63 else None)"

fun b64_sextets :: "nat list \<Rightarrow> nat list" where
  "b64_sextets [] = []"
| "b64_sextets [a] = [a div 4, (a mod 4) * 16]"
| "b64_sextets [a, b] = [a div 4, (a mod 4) * 16 + b div 16, (b mod 16) * 4]"
| "b64_sextets (a # b # c # r) =
     [a div 4, (a mod 4) * 16 + b div 16, (b mod 16) * 4 + c div 64, c mod 64] @ b64_sextets r"

fun b64_octets :: "nat list \<Rightarrow> nat list option" where
  "b64_octets [] = Some []"
| "b64_octets [x] = None"
| "b64_octets [x, y] = Some [x * 4 + y div 16]"
| "b64_octets [x, y, z] = Some [x * 4 + y div 16, (y mod 16) * 16 + z div 4]"
| "b64_octets (x # y # z # w # r) =
     map_option (\<lambda>bs. [x * 4 + y div 16, (y mod 16) * 16 + z div 4, (z mod 4) * 64 + w] @ bs) (b64_octets r)"

definition RawURL_EncodeToString :: "bytes \<Rightarrow> string" where
  "RawURL_EncodeToString bs = map b64url_digit (b64_sextets (map of_char bs))"

definition RawURL_DecodeString :: "string \<Rightarrow> bytes option" where
  "RawURL_DecodeString s =
     (case those (map b64url_value (filter (\<lambda>c. c \<noteq> char_of (10 :: nat) \<and> c \<noteq> char_of (13 :: nat)) s)) of
        None \<Rightarrow> None
      | Some ds \<Rightarrow> map_option (map char_of) (b64_octets ds))"

section \<open>Hexadecimal\<close>

lemma length_hex_encode [simp]: "length (hex_encode bs) = 2 * length bs"
  by (induction bs) (auto simp: hex_encode_def)

lemma hex_digit_ok: "n < 16 \<Longrightarrow> is_hex_char (hex_digit n)"
  by (auto simp: hex_digit_def is_hex_char_def less_eq_char_def)

lemma hex_encode_chars: "c \<in> set (hex_encode bs) \<Longrightarrow> is_hex_char c"
  by (auto simp: hex_encode_def intro!: hex_digit_ok less_mult_imp_div_less)

lemma hex_digit_inj: "m < 16 \<Longrightarrow> n < 16 \<Longrightarrow> hex_digit m = hex_digit n \<Longrightarrow> m = n"
  by (auto simp: hex_digit_def char_of_eq_iff take_bit_eq_mod split: if_splits)

lemma hex_encode_inject: "hex_encode xs = hex_encode ys \<longleftrightarrow> xs = ys"
proof
  show "hex_encode xs = hex_encode ys \<Longrightarrow> xs = ys"
  proof (induction xs arbitrary: ys)
    case Nil
    then show ?case by (cases ys) (auto simp: hex_encode_def)
  next
    case (Cons x xs)
    then obtain y ys' where ys: "ys = y # ys'" by (cases ys) (auto simp: hex_encode_def)
    have "of_char x div 16 = (of_char y div 16 :: nat)" "of_char x mod 16 = (of_char y mod 16 :: nat)"
      using Cons.prems ys by (auto simp: hex_encode_def intro!: hex_digit_inj less_mult_imp_div_less)
    then have "of_char x = (of_char y :: nat)" by (metis div_mult_mod_eq)
    moreover have "hex_encode xs = hex_encode ys'" using Cons.prems ys by (simp add: hex_encode_def)
    ultimately show ?case using Cons.IH ys by simp
  qed
qed simp

section \<open>Unpadded base64\<close>

lemma b64url_value_digit: "n < 64 \<Longrightarrow> b64url_value (b64url_digit n) = Some n"
  by (auto simp: b64url_value_def b64url_digit_def Let_def)

lemma b64url_digit_no_break:
  "n < 64 \<Longrightarrow> b64url_digit n \<noteq> char_of (10 :: nat) \<and> b64url_digit n \<noteq> char_of (13 :: nat)"
  using b64url_value_digit [of n] by (auto simp: b64url_value_def Let_def)

lemma b64_octets_sextets:
  "\<forall>b \<in> set bs. b < 256 \<Longrightarrow> b64_octets (b64_sextets bs) = Some bs"
proof (induction bs rule: b64_sextets.induct)
  case (4 a b c r)
  then have "a < 256" "b < 256" "c < 256" "b64_octets (b64_sextets r) = Some r" by auto
  moreover have "b div 16 < 16" "c div 64 < 4" using \<open>b < 256\<close> \<open>c < 256\<close> by auto
  ultimately show ?case using div_mult_mod_eq [of b 16] div_mult_mod_eq [of c 64] by simp
qed auto

lemma b64_sextets_lt: "\<forall>b \<in> set bs. b < 256 \<Longrightarrow> x \<in> set (b64_sextets bs) \<Longrightarrow> x < 64"
  by (induction bs arbitrary: x rule: b64_sextets.induct) (auto simp: less_mult_imp_div_less)

lemma those_map_Some: "(\<And>x. x \<in> set xs \<Longrightarrow> f (g x) = Some x) \<Longrightarrow> those (map f (map g xs)) = Some xs"
  by (induction xs) auto

lemma RawURL_roundtrip [simp]: "RawURL_DecodeString (RawURL_EncodeToString bs) = Some bs"
proof -
  let ?os = "map of_char bs :: nat list"
  have lt: "\<forall>b \<in> set ?os. b < 256" by auto
  let ?ss = "b64_sextets ?os"
  have f: "filter (\<lambda>c. c \<noteq> char_of (10 :: nat) \<and> c \<noteq> char_of (13 :: nat)) (map b64url_digit ?ss) = map b64url_digit ?ss"
    using b64_sextets_lt [OF lt] b64url_digit_no_break by (intro filter_True) auto
  have "those (map b64url_value (map b64url_digit ?ss)) = Some ?ss"
    using b64_sextets_lt [OF lt] b64url_value_digit by (intro those_map_Some) auto
  then show ?thesis
    using b64_octets_sextets [OF lt] f
    by (simp add: RawURL_DecodeString_def RawURL_EncodeToString_def comp_def)
qed

lemma RawURL_Encode_Nil_iff: "RawURL_EncodeToString bs = [] \<longleftrightarrow> bs = []"
  by (cases "map of_char bs :: nat list" rule: b64_sextets.cases) (auto simp: RawURL_EncodeToString_def)

end
