(* ===== verification/GoPath.thy ===== *)
theory GoPath
  imports Prelude
begin

text \<open>
  The lexical part of package \<^verbatim>\<open>path/filepath\<close> on Unix, as the program uses it
  (\<^verbatim>\<open>Clean\<close>, \<^verbatim>\<open>Join\<close>, \<^verbatim>\<open>Dir\<close>, \<^verbatim>\<open>Base\<close>), on byte strings.  A path is
  split at its slashes; \<^verbatim>\<open>Clean\<close> processes the components with a stack, as the
  documented rewriting rules of the package do.  The lemmas characterise joining
  a well-formed component, the fact every containment argument of the program
  rests on.
\<close>

abbreviation slash :: char where "slash \<equiv> CHR ''/''"

fun split_slash :: "string \<Rightarrow> string list" where
  "split_slash [] = [[]]"
| "split_slash (c # cs) =
     (if c = slash then [] # split_slash cs
      else (case split_slash cs of [] \<Rightarrow> [[c]] | w # ws \<Rightarrow> (c # w) # ws))"

fun join_slash :: "string list \<Rightarrow> string" where
  "join_slash [] = []"
| "join_slash [w] = w"
| "join_slash (w # v # ws) = w @ slash # join_slash (v # ws)"

definition push_comp :: "bool \<Rightarrow> string \<Rightarrow> string list \<Rightarrow> string list" where
  "push_comp rooted c st =
     (if c = [] \<or> c = ''.'' then st
      else if c = ''..'' then
        (case st of [] \<Rightarrow> if rooted then [] else [''..'']
         | x # xs \<Rightarrow> if x = ''..'' then ''..'' # st else xs)
      else c # st)"

definition rooted :: "string \<Rightarrow> bool" where
  "rooted s = (case s of [] \<Rightarrow> False | c # _ \<Rightarrow> c = slash)"

definition comps :: "string \<Rightarrow> string list" where
  "comps s = rev (fold (push_comp (rooted s)) (split_slash s) [])"

definition print_path :: "bool \<Rightarrow> string list \<Rightarrow> string" where
  "print_path r cs = (if r then slash # join_slash cs else if cs = [] then ''.'' else join_slash cs)"

definition Clean :: "string \<Rightarrow> string" where
  "Clean s = (if s = [] then ''.'' else print_path (rooted s) (comps s))"

definition Join :: "string list \<Rightarrow> string" where
  "Join es = (let rest = dropWhile (\<lambda>e. e = []) es in if rest = [] then [] else Clean (join_slash rest))"

definition Dir :: "string \<Rightarrow> string" where
  "Dir s = Clean (rev (dropWhile (\<lambda>c. c \<noteq> slash) (rev s)))"

definition Base :: "string \<Rightarrow> string" where
  "Base s = (if s = [] then ''.''
     else let t = rev (dropWhile (\<lambda>c. c = slash) (rev s));
              b = rev (takeWhile (\<lambda>c. c \<noteq> slash) (rev t))
          in if b = [] then ''/'' else b)"

definition name_ok :: "string \<Rightarrow> bool" where
  "name_ok c \<longleftrightarrow> c \<noteq> [] \<and> c \<noteq> ''.'' \<and> c \<noteq> ''..'' \<and> slash \<notin> set c"

section \<open>Splitting and joining\<close>

lemma split_slash_neq_Nil [simp]: "split_slash s \<noteq> []"
  by (induction s) (auto split: list.splits)

lemma split_slash_no_slash: "w \<in> set (split_slash s) \<Longrightarrow> slash \<notin> set w"
  by (induction s arbitrary: w) (auto split: list.splits if_splits)

lemma split_slash_single: "slash \<notin> set w \<Longrightarrow> split_slash w = [w]"
  by (induction w) auto

lemma split_slash_append:
  "split_slash (s @ slash # t) = split_slash s @ split_slash t"
  by (induction s) (auto split: list.splits)

lemma split_join:
  "ws \<noteq> [] \<Longrightarrow> \<forall>w \<in> set ws. slash \<notin> set w \<Longrightarrow> split_slash (join_slash ws) = ws"
  by (induction ws rule: join_slash.induct) (auto simp: split_slash_single split_slash_append)

lemma join_slash_append:
  "xs \<noteq> [] \<Longrightarrow> ys \<noteq> [] \<Longrightarrow> join_slash (xs @ ys) = join_slash xs @ slash # join_slash ys"
proof (induction xs rule: join_slash.induct)
  case (2 w)
  then show ?case by (cases ys) auto
qed auto

lemma join_slash_Nil_iff: "\<forall>w \<in> set ws. w \<noteq> [] \<Longrightarrow> join_slash ws = [] \<longleftrightarrow> ws = []"
  by (induction ws rule: join_slash.induct) auto

section \<open>Normal component stacks\<close>

text \<open>
  The stack of a cleaned path (innermost component first): ordinary names on
  top of a block of \<open>''..''\<close> that only an unrooted path can have.
\<close>

fun stack_ok :: "bool \<Rightarrow> string list \<Rightarrow> bool" where
  "stack_ok r [] = True"
| "stack_ok r (c # st) = (if c = ''..'' then \<not> r \<and> set st \<subseteq> {''..''} else name_ok c \<and> stack_ok r st)"

lemma name_ok_simps:
  "name_ok c \<Longrightarrow> c \<noteq> []" "name_ok c \<Longrightarrow> slash \<notin> set c" "name_ok c \<Longrightarrow> c \<noteq> ''..''" "\<not> name_ok ''..''"
  by (simp_all add: name_ok_def)

lemma stack_ok_dots: "\<not> r \<Longrightarrow> set st \<subseteq> {''..''} \<Longrightarrow> stack_ok r st"
  by (induction st) auto

lemma stack_ok_tl: "stack_ok r (c # st) \<Longrightarrow> stack_ok r st"
  by (cases r) (auto simp: stack_ok_dots split: if_splits)

lemma push_comp_ok: "stack_ok r st \<Longrightarrow> slash \<notin> set c \<Longrightarrow> stack_ok r (push_comp r c st)"
  by (cases st) (auto simp: push_comp_def name_ok_def stack_ok_dots split: if_splits)

lemma fold_push_ok:
  "stack_ok r st \<Longrightarrow> \<forall>w \<in> set ws. slash \<notin> set w \<Longrightarrow> stack_ok r (fold (push_comp r) ws st)"
  by (induction ws arbitrary: st) (auto simp: push_comp_ok)

lemma stack_of_path_ok: "stack_ok (rooted s) (rev (comps s))"
  unfolding comps_def by (simp add: fold_push_ok split_slash_no_slash)

lemma stack_ok_no_slash: "stack_ok r st \<Longrightarrow> w \<in> set st \<Longrightarrow> slash \<notin> set w \<and> w \<noteq> []"
  by (induction r st rule: stack_ok.induct) (auto simp: name_ok_def split: if_splits)

lemma push_name: "name_ok c \<Longrightarrow> push_comp r c st = c # st"
  by (auto simp: push_comp_def name_ok_def)

lemma fold_push_names: "\<forall>c \<in> set cs. name_ok c \<Longrightarrow> fold (push_comp r) cs st = rev cs @ st"
  by (induction cs arbitrary: st) (auto simp: push_name)

text \<open>Pushing the components of a normal stack again rebuilds it.\<close>

lemma fold_push_dots:
  "\<not> r \<Longrightarrow> set ds \<subseteq> {''..''} \<Longrightarrow> set st \<subseteq> {''..''} \<Longrightarrow> fold (push_comp r) ds st = ds @ st"
proof (induction ds arbitrary: st)
  case (Cons d ds)
  then have d: "d = ''..''" by simp
  have "push_comp r d st = ''..'' # st"
    using Cons.prems d by (cases st) (auto simp: push_comp_def)
  moreover have "ds @ ''..'' # st = ''..'' # ds @ st"
    using Cons.prems(2) by (induction ds) auto
  ultimately show ?case using Cons d by simp
qed simp

lemma fold_push_stack: "stack_ok r st \<Longrightarrow> fold (push_comp r) (rev st) [] = st"
proof (induction st)
  case (Cons c st)
  show ?case
  proof (cases "c = ''..''")
    case True
    with Cons.prems have "\<not> r" and dots: "set (rev (c # st)) \<subseteq> {''..''}" by auto
    moreover have "rev (c # st) = c # st"
      using dots True by (metis rev_replicate replicate_eqI set_rev singletonD subsetD)
    ultimately show ?thesis using fold_push_dots [of r "rev (c # st)" "[]"] by simp
  next
    case False
    then show ?thesis using Cons by (simp add: push_name)
  qed
qed simp

section \<open>Clean\<close>

lemma rooted_simps [simp]: "\<not> rooted []" "rooted (c # s) \<longleftrightarrow> c = slash"
  by (simp_all add: rooted_def)

lemma rooted_append: "s \<noteq> [] \<Longrightarrow> rooted (s @ t) = rooted s"
  by (cases s) auto

lemma not_rooted_no_slash: "slash \<notin> set s \<Longrightarrow> \<not> rooted s"
  by (cases s) auto

lemma comps_Nil [simp]: "comps [] = []"
  by (simp add: comps_def push_comp_def)

lemma join_slash_not_rooted:
  "\<forall>w \<in> set ws. w \<noteq> [] \<and> slash \<notin> set w \<Longrightarrow> \<not> rooted (join_slash ws)"
  by (induction ws rule: join_slash.induct) (auto simp: rooted_append not_rooted_no_slash)

lemma rooted_print_path:
  "stack_ok r (rev cs) \<Longrightarrow> rooted (print_path r cs) = r"
  using join_slash_not_rooted [of cs] stack_ok_no_slash [of r "rev cs"]
  by (auto simp: print_path_def)

lemma comps_print_path:
  assumes "stack_ok r (rev cs)"
  shows "comps (print_path r cs) = cs"
proof -
  have ns: "\<forall>w \<in> set cs. slash \<notin> set w \<and> w \<noteq> []"
    using stack_ok_no_slash [OF assms] by auto
  have "fold (push_comp r) (split_slash (print_path r cs)) [] = rev cs"
  proof (cases "cs = []")
    case True
    then show ?thesis by (cases r) (auto simp: print_path_def push_comp_def)
  next
    case False
    then have "split_slash (join_slash cs) = cs" using ns by (intro split_join) auto
    moreover have "push_comp r [] [] = []" by (simp add: push_comp_def)
    ultimately show ?thesis
      using False fold_push_stack [OF assms] by (auto simp: print_path_def)
  qed
  then show ?thesis using rooted_print_path [OF assms] by (simp add: comps_def)
qed

lemma Clean_print: "s \<noteq> [] \<Longrightarrow> Clean s = print_path (rooted s) (comps s)"
  by (simp add: Clean_def)

lemma comps_Clean [simp]: "comps (Clean s) = comps s"
proof (cases "s = []")
  case True
  then show ?thesis by (simp add: Clean_def comps_def push_comp_def)
next
  case False
  then show ?thesis by (simp add: Clean_print comps_print_path stack_of_path_ok)
qed

lemma rooted_Clean [simp]: "rooted (Clean s) = rooted s"
  by (cases "s = []") (simp_all add: Clean_def rooted_print_path stack_of_path_ok)

lemma Clean_neq_Nil [simp]: "Clean s \<noteq> []"
  using join_slash_Nil_iff [of "comps s"] stack_ok_no_slash [OF stack_of_path_ok, of _ s]
  by (auto simp: Clean_def print_path_def)

lemma Clean_idem [simp]: "Clean (Clean s) = Clean s"
proof (cases "s = []")
  case True
  then show ?thesis by (simp add: Clean_def comps_def push_comp_def print_path_def)
next
  case False
  have "Clean (Clean s) = print_path (rooted (Clean s)) (comps (Clean s))"
    by (rule Clean_print) simp
  also have "\<dots> = print_path (rooted s) (comps s)" by (simp only: comps_Clean rooted_Clean)
  also have "\<dots> = Clean s" by (rule Clean_print [OF False, symmetric])
  finally show ?thesis .
qed

section \<open>Joining\<close>

lemma comps_append:
  "s \<noteq> [] \<Longrightarrow> comps (s @ slash # t) = rev (fold (push_comp (rooted s)) (split_slash t) (rev (comps s)))"
  by (simp add: comps_def rooted_append split_slash_append)

lemma comps_append_names:
  assumes "s \<noteq> []" and "\<forall>c \<in> set cs. name_ok c" and "cs \<noteq> []"
  shows "comps (s @ slash # join_slash cs) = comps s @ cs"
proof -
  have "split_slash (join_slash cs) = cs"
    using assms by (intro split_join) (auto simp: name_ok_def)
  then show ?thesis using assms by (simp add: comps_append fold_push_names)
qed

lemma Join_two: "d \<noteq> [] \<Longrightarrow> Join [d, c] = Clean (d @ slash # c)"
  by (simp add: Join_def)

lemma Join_names:
  assumes "d \<noteq> []" and "\<forall>c \<in> set cs. name_ok c" and "cs \<noteq> []"
  shows "Join (d # cs) = print_path (rooted d) (comps d @ cs)"
proof -
  have "join_slash (d # cs) = d @ slash # join_slash cs"
    using assms(3) by (cases cs) auto
  then show ?thesis
    using assms comps_append_names [OF assms]
    by (simp add: Join_def Clean_print rooted_append)
qed

lemma comps_Join_names:
  assumes "d \<noteq> []" and "\<forall>c \<in> set cs. name_ok c" and "cs \<noteq> []"
  shows "comps (Join (d # cs)) = comps d @ cs" and "rooted (Join (d # cs)) = rooted d"
proof -
  have j: "join_slash (d # cs) = d @ slash # join_slash cs"
    using assms(3) by (cases cs) auto
  then have *: "Join (d # cs) = Clean (d @ slash # join_slash cs)"
    using assms by (simp add: Join_def)
  show "comps (Join (d # cs)) = comps d @ cs"
    using * comps_append_names [OF assms] by simp
  show "rooted (Join (d # cs)) = rooted d"
    using * assms(1) by (simp add: rooted_append)
qed

section \<open>Containment\<close>

lemma print_path_append:
  assumes "cs \<noteq> []" and "ds \<noteq> []"
  shows "print_path r (cs @ ds) = print_path r cs @ slash # join_slash ds"
  using assms by (simp add: print_path_def join_slash_append)

text \<open>
  \<open>below root p\<close>: the test the program makes with \<^verbatim>\<open>strings.HasPrefix\<close>: \<open>p\<close> is
  the directory itself or its name extended by a slash.
\<close>

definition below :: "string \<Rightarrow> string \<Rightarrow> bool" where
  "below root p \<longleftrightarrow> p = root \<or> prefix (root @ ''/'') p"

lemma below_print_path: "cs \<noteq> [] \<Longrightarrow> below (print_path r cs) (print_path r (cs @ ds))"
  by (cases "ds = []") (auto simp: below_def print_path_append)

lemma Dir_append_name: "slash \<notin> set c \<Longrightarrow> Dir (s @ slash # c) = Clean (s @ ''/'')"
proof -
  assume "slash \<notin> set c"
  then have "dropWhile (\<lambda>x. x \<noteq> slash) (rev c @ slash # rev s) = slash # rev s"
    by (subst dropWhile_append2) auto
  then show ?thesis by (simp add: Dir_def)
qed

lemma Dir_no_slash: "slash \<notin> set c \<Longrightarrow> Dir c = ''.''"
proof -
  assume "slash \<notin> set c"
  then have "dropWhile (\<lambda>x. x \<noteq> slash) (rev c) = []"
    by (subst dropWhile_eq_Nil_conv) auto
  then show ?thesis by (simp add: Dir_def Clean_def)
qed

lemma Clean_append_slash: "s \<noteq> [] \<Longrightarrow> Clean (s @ ''/'') = Clean s"
  using comps_append [of s "[]"] by (simp add: Clean_print rooted_append push_comp_def)

text \<open>The parent of a directory entry is the directory.\<close>

lemma Dir_Join_name:
  assumes "d \<noteq> []" and "name_ok c"
  shows "Dir (Join [d, c]) = Clean d"
proof -
  have c: "slash \<notin> set c" using assms(2) by (simp add: name_ok_def)
  have J: "Join [d, c] = print_path (rooted d) (comps d @ [c])"
    using Join_names [of d "[c]"] assms by simp
  show ?thesis
  proof (cases "comps d = []")
    case True
    have "Dir (slash # c) = ''/''"
      using Dir_append_name [of c "[]"] c by (simp add: Clean_def comps_def push_comp_def print_path_def)
    then show ?thesis
      using True J c assms(1) by (simp add: print_path_def Dir_no_slash Clean_print)
  next
    case False
    then have "Join [d, c] = Clean d @ slash # c"
      using J assms(1) by (simp add: print_path_append Clean_print)
    then show ?thesis using c by (simp add: Dir_append_name Clean_append_slash)
  qed
qed

end
