(* ===== verification/KVStore.thy ===== *)
theory KVStore
  imports Bolt Codec GoPath
begin

text \<open>
  The key/value store of \<^verbatim>\<open>internal/memory/kv.go\<close>: one database file per tenant,
  user records in buckets \<open>ns:<namespace>\<close>, the usage counters in \<open>_meta\<close> and
  the expiry index in \<open>_ttl\<close>.  Every operation is a function on the store record;
  a transaction is a function on the database state, committed or rolled back as
  a whole.  The database (\<open>B\<close>), the gob codec and the hash (\<open>E\<close>) are parameters.
  The clock reading of an operation is its argument \<open>now\<close>, in nanoseconds since
  the Unix epoch.  Contents: definitions here; the accounting invariant and the
  refinement of a plain map are in \<^verbatim>\<open>KVSpec\<close>.
\<close>

section \<open>Data\<close>

type_synonym time = int

definition zero_time :: time where "zero_time = -62135596800000000000"

definition IsZero :: "time \<Rightarrow> bool" where "IsZero t \<longleftrightarrow> t = zero_time"

definition UnixNano :: "time \<Rightarrow> int64" where "UnixNano t = word_of_int t"

definition MaxBytesPerTenant :: int where "MaxBytesPerTenant = 10485760"
definition MaxKeysPerTenant :: int where "MaxKeysPerTenant = 10000"
definition MaxNamespaceLen :: nat where "MaxNamespaceLen = 128"
definition MaxKeyLen :: nat where "MaxKeyLen = 512"
definition MaxValueLen :: nat where "MaxValueLen = 8388608"

datatype kv_error =
    ErrKVNotFound | ErrKVQuota | ErrKVTenant | ErrKVNamespace | ErrKVKey | ErrKVValueSize | ErrKVClosed
  | ErrEncode | ErrBadCursor | ErrBolt string | NilDeref

definition metaBucket :: bytes where "metaBucket = ''_meta''"
definition ttlBucket :: bytes where "ttlBucket = ''_ttl''"
definition nsPrefix :: bytes where "nsPrefix = ''ns:''"
definition keyUsedBytes :: bytes where "keyUsedBytes = ''usedBytes''"
definition keyKeyCount :: bytes where "keyKeyCount = ''keyCount''"

record krecord =
  Value :: bytes
  ContentType :: string
  ExpiresAt :: time
  UpdatedAt :: time

record codec =
  gobEncode :: "krecord \<Rightarrow> bytes option"
  gobDecode :: "bytes \<Rightarrow> krecord option"
  sha256 :: "bytes \<Rightarrow> bytes"

record 'tx store =
  dir :: string
  minFreeBytes :: int
  dbs :: "string \<rightharpoonup> string"
  closed :: bool
  disk :: "string \<rightharpoonup> 'tx"

section \<open>Opening, closing, validation\<close>

definition Open :: "string \<Rightarrow> int \<Rightarrow> bool \<Rightarrow> (string \<rightharpoonup> 'tx) \<Rightarrow> (string, 'tx store) result" where
  "Open d minFree mkdirOk files =
     (if d = [] then Inl ''memory: dir required''
      else if \<not> mkdirOk then Inl ''memory: create dir''
      else Inr \<lparr>dir = d, minFreeBytes = minFree, dbs = Map.empty, closed = False, disk = files\<rparr>)"

definition DiskFull :: "(int \<times> int) option \<Rightarrow> 'tx store \<Rightarrow> bool" where
  "DiskFull statfs s =
     (if minFreeBytes s \<le> 0 then False
      else case statfs of None \<Rightarrow> False
        | Some (bavail, bsize) \<Rightarrow> sint (word_of_int (bavail * bsize) :: int64) < minFreeBytes s)"

definition validTenant :: "string \<Rightarrow> bool" where
  "validTenant tenant =
     (if tenant = ''public'' then True
      else if length tenant \<noteq> 64 then False
      else list_all (\<lambda>c. between CHR ''0'' CHR ''9'' c \<or> between CHR ''a'' CHR ''f'' c) tenant)"

definition validNamespace :: "string \<Rightarrow> bool" where
  "validNamespace ns =
     (if ns = [] \<or> length ns > MaxNamespaceLen then False
      else list_all (\<lambda>c. between CHR ''a'' CHR ''z'' c \<or> between CHR ''A'' CHR ''Z'' c \<or>
             between CHR ''0'' CHR ''9'' c \<or> c = CHR ''_'' \<or> c = CHR ''-'' \<or> c = CHR ''.'' \<or> c = CHR '':'') ns)"

definition path :: "'tx store \<Rightarrow> string \<Rightarrow> (kv_error, string) result" where
  "path s tenant =
     (if \<not> validTenant tenant then Inl ErrKVTenant
      else let p = Join [dir s, tenant @ ''.bolt''] in
        if Dir p \<noteq> Clean (dir s) then Inl ErrKVTenant else Inr p)"

definition liftBolt :: "(string, 'a) result \<Rightarrow> (kv_error, 'a) result" where
  "liftBolt r = (case r of Inl e \<Rightarrow> Inl (ErrBolt e) | Inr a \<Rightarrow> Inr a)"

definition dbUpdate :: "'tx bolt \<Rightarrow> ('tx \<Rightarrow> (kv_error, 'a \<times> 'tx) result) \<Rightarrow> 'tx \<Rightarrow> (kv_error, 'a) result \<times> 'tx" where
  "dbUpdate B f t =
     (case f t of Inl e \<Rightarrow> (Inl e, t)
      | Inr (a, t') \<Rightarrow> (case tx_Commit B t' of Some e \<Rightarrow> (Inl (ErrBolt e), t) | None \<Rightarrow> (Inr a, t')))"

definition init_tx :: "'tx bolt \<Rightarrow> 'tx \<Rightarrow> (kv_error, unit \<times> 'tx) result" where
  "init_tx B t =
     andThen (liftBolt (tx_CreateBucketIfNotExists B t metaBucket)) (\<lambda>t1.
     andThen (liftBolt (tx_CreateBucketIfNotExists B t1 ttlBucket)) (\<lambda>t2. Inr ((), t2)))"

definition getDB :: "'tx bolt \<Rightarrow> 'tx store \<Rightarrow> string \<Rightarrow> (kv_error, string) result \<times> 'tx store" where
  "getDB B s tenant =
     (case path s tenant of Inl e \<Rightarrow> (Inl e, s)
      | Inr p \<Rightarrow>
        (case dbs s tenant of Some q \<Rightarrow> (Inr q, s)
         | None \<Rightarrow>
           if closed s then (Inl ErrKVClosed, s)
           else (case b_Open B p of Some e \<Rightarrow> (Inl (ErrBolt e), s)
             | None \<Rightarrow>
               (let t = (case disk s p of None \<Rightarrow> tx_empty B | Some t \<Rightarrow> t) in
                case dbUpdate B (init_tx B) t of
                  (Inl e, t') \<Rightarrow> (Inl e, s\<lparr>disk := (disk s)(p \<mapsto> t')\<rparr>)
                | (Inr _, t') \<Rightarrow> (Inr p, s\<lparr>disk := (disk s)(p \<mapsto> t'), dbs := (dbs s)(tenant \<mapsto> p)\<rparr>)))))"

text \<open>\<open>errs\<close> are the results of closing the handles, in the order they are visited.\<close>

definition Close :: "string option list \<Rightarrow> 'tx store \<Rightarrow> string option \<times> 'tx store" where
  "Close errs s =
     (case dropWhile (\<lambda>e. e = None) errs of [] \<Rightarrow> None | e # _ \<Rightarrow> e,
      s\<lparr>closed := True, dbs := Map.empty\<rparr>)"

section \<open>Accounting helpers and the expiry index\<close>

definition sizeOf :: "string \<Rightarrow> bytes \<Rightarrow> int" where
  "sizeOf key encoded = int (length key) + int (length encoded)"

definition metaInt :: "bytes option \<Rightarrow> int" where
  "metaInt v = (case v of None \<Rightarrow> 0 | Some b \<Rightarrow> if length b = 8 then sint (Uint64 b) else 0)"

definition readKVMeta :: "'tx bolt \<Rightarrow> 'tx \<Rightarrow> int \<times> int" where
  "readKVMeta B t =
     (if \<not> tx_Bucket B t metaBucket then (0, 0)
      else (metaInt (b_Get B t metaBucket keyUsedBytes), metaInt (b_Get B t metaBucket keyKeyCount)))"

definition writeKVMeta :: "'tx bolt \<Rightarrow> 'tx \<Rightarrow> int \<Rightarrow> int \<Rightarrow> (kv_error, 'tx) result" where
  "writeKVMeta B t used count =
     andThen (liftBolt (tx_CreateBucketIfNotExists B t metaBucket)) (\<lambda>t1.
       let used' = (if used < 0 then 0 else used); count' = (if count < 0 then 0 else count) in
       andThen (liftBolt (b_Put B t1 metaBucket keyUsedBytes (PutUint64 (word_of_int used')))) (\<lambda>t2.
       liftBolt (b_Put B t2 metaBucket keyKeyCount (PutUint64 (word_of_int count')))))"

definition ttlKey :: "time \<Rightarrow> string \<Rightarrow> string \<Rightarrow> bytes" where
  "ttlKey expires ns key = PutUint64 (UnixNano expires) @ PutUint16 (of_nat (length ns)) @ ns @ key"

definition parseTTLKey :: "bytes \<Rightarrow> (string \<times> string \<times> int) option" where
  "parseTTLKey k =
     (if length k < 10 then None
      else let ts = sint (Uint64 (take 8 k)); nsLen = unat (Uint16 (take 2 (drop 8 k))) in
        if 10 + nsLen > length k then None
        else Some (take nsLen (drop 10 k), drop (10 + nsLen) k, ts))"

definition nsBucketName :: "string \<Rightarrow> bytes" where
  "nsBucketName ns = nsPrefix @ ns"

section \<open>Put, Get, Delete\<close>

definition ignoreErr :: "'tx \<Rightarrow> (string, 'tx) result \<Rightarrow> 'tx" where
  "ignoreErr t r = (case r of Inl _ \<Rightarrow> t | Inr t' \<Rightarrow> t')"

text \<open>The block shared by Put and Delete: drop the index entry of the previous record.\<close>

definition dropStaleTTL :: "'tx bolt \<Rightarrow> codec \<Rightarrow> 'tx \<Rightarrow> string \<Rightarrow> string \<Rightarrow> bytes \<Rightarrow> (kv_error, 'tx) result" where
  "dropStaleTTL B E t ns key prev =
     (case gobDecode E prev of None \<Rightarrow> Inr t
      | Some old \<Rightarrow>
        if IsZero (ExpiresAt old) then Inr t
        else if \<not> tx_Bucket B t ttlBucket then Inl NilDeref
        else Inr (ignoreErr t (b_Delete B t ttlBucket (ttlKey (ExpiresAt old) ns key))))"

definition put_tx :: "'tx bolt \<Rightarrow> codec \<Rightarrow> string \<Rightarrow> string \<Rightarrow> krecord \<Rightarrow> bytes \<Rightarrow> 'tx \<Rightarrow> (kv_error, unit \<times> 'tx) result" where
  "put_tx B E ns key r encoded t =
     andThen (liftBolt (tx_CreateBucketIfNotExists B t (nsBucketName ns))) (\<lambda>t1.
     let (used, count) = readKVMeta B t1; newSize = sizeOf key encoded in
     andThen (case b_Get B t1 (nsBucketName ns) key of
                None \<Rightarrow> Inr (0, True, t1)
              | Some prev \<Rightarrow> andThen (dropStaleTTL B E t1 ns key prev) (\<lambda>t2. Inr (sizeOf key prev, False, t2)))
     (\<lambda>(oldSize, isNew, t2).
        let newUsed = used - oldSize + newSize; newCount = (if isNew then count + 1 else count) in
        if newUsed > MaxBytesPerTenant \<or> newCount > MaxKeysPerTenant then Inl ErrKVQuota
        else
          andThen (liftBolt (b_Put B t2 (nsBucketName ns) key encoded)) (\<lambda>t3.
          andThen (if IsZero (ExpiresAt r) then Inr t3
                   else if \<not> tx_Bucket B t3 ttlBucket then Inl NilDeref
                   else liftBolt (b_Put B t3 ttlBucket (ttlKey (ExpiresAt r) ns key) [])) (\<lambda>t4.
          andThen (writeKVMeta B t4 newUsed newCount) (\<lambda>t5. Inr ((), t5))))))"

definition newRecord :: "time \<Rightarrow> bytes \<Rightarrow> string \<Rightarrow> int \<Rightarrow> krecord" where
  "newRecord now val ct ttl =
     \<lparr>Value = val, ContentType = ct, ExpiresAt = (if ttl > 0 then now + ttl else zero_time), UpdatedAt = now\<rparr>"

definition runUpdate :: "'tx bolt \<Rightarrow> 'tx store \<Rightarrow> string \<Rightarrow> ('tx \<Rightarrow> (kv_error, 'a \<times> 'tx) result) \<Rightarrow> (kv_error, 'a) result \<times> 'tx store" where
  "runUpdate B s p f =
     (case disk s p of None \<Rightarrow> (Inl NilDeref, s)
      | Some t \<Rightarrow> (case dbUpdate B f t of (r, t') \<Rightarrow> (r, s\<lparr>disk := (disk s)(p \<mapsto> t')\<rparr>)))"

definition Put :: "'tx bolt \<Rightarrow> codec \<Rightarrow> time \<Rightarrow> 'tx store \<Rightarrow> string \<Rightarrow> string \<Rightarrow> string \<Rightarrow> bytes \<Rightarrow> string \<Rightarrow> int
    \<Rightarrow> (kv_error, unit) result \<times> 'tx store" where
  "Put B E now s tenant ns key val ct ttl =
     (if \<not> validNamespace ns then (Inl ErrKVNamespace, s)
      else if key = [] \<or> length key > MaxKeyLen then (Inl ErrKVKey, s)
      else if length val > MaxValueLen then (Inl ErrKVValueSize, s)
      else case getDB B s tenant of
        (Inl e, s1) \<Rightarrow> (Inl e, s1)
      | (Inr p, s1) \<Rightarrow>
          (let r = newRecord now val ct ttl in
           case gobEncode E r of
             None \<Rightarrow> (Inl ErrEncode, s1)
           | Some encoded \<Rightarrow>
               if length encoded > MaxValueLen then (Inl ErrKVValueSize, s1)
               else runUpdate B s1 p (put_tx B E ns key r encoded)))"

definition get_tx :: "'tx bolt \<Rightarrow> codec \<Rightarrow> time \<Rightarrow> string \<Rightarrow> string \<Rightarrow> 'tx \<Rightarrow> (kv_error, krecord) result" where
  "get_tx B E now ns key t =
     (if \<not> tx_Bucket B t (nsBucketName ns) then Inl ErrKVNotFound
      else case b_Get B t (nsBucketName ns) key of
        None \<Rightarrow> Inl ErrKVNotFound
      | Some raw \<Rightarrow>
          (case gobDecode E raw of
             None \<Rightarrow> Inl ErrKVNotFound
           | Some r \<Rightarrow> if \<not> IsZero (ExpiresAt r) \<and> \<not> ExpiresAt r > now then Inl ErrKVNotFound else Inr r))"

definition etagOf :: "codec \<Rightarrow> bytes \<Rightarrow> string" where
  "etagOf E val = CHR 0x22 # hex_encode (sha256 E val) @ [CHR 0x22]"

definition runView :: "'tx store \<Rightarrow> string \<Rightarrow> ('tx \<Rightarrow> (kv_error, 'a) result) \<Rightarrow> (kv_error, 'a) result" where
  "runView s p f = (case disk s p of None \<Rightarrow> Inl NilDeref | Some t \<Rightarrow> f t)"

definition Get :: "'tx bolt \<Rightarrow> codec \<Rightarrow> time \<Rightarrow> 'tx store \<Rightarrow> string \<Rightarrow> string \<Rightarrow> string
    \<Rightarrow> (kv_error, bytes \<times> string \<times> time \<times> string) result \<times> 'tx store" where
  "Get B E now s tenant ns key =
     (if \<not> validNamespace ns then (Inl ErrKVNamespace, s)
      else if key = [] \<or> length key > MaxKeyLen then (Inl ErrKVKey, s)
      else case getDB B s tenant of
        (Inl e, s1) \<Rightarrow> (Inl e, s1)
      | (Inr p, s1) \<Rightarrow>
          (andThen (runView s1 p (get_tx B E now ns key)) (\<lambda>r.
             Inr (Value r, ContentType r, ExpiresAt r, etagOf E (Value r))), s1))"

definition delete_tx :: "'tx bolt \<Rightarrow> codec \<Rightarrow> string \<Rightarrow> string \<Rightarrow> 'tx \<Rightarrow> (kv_error, unit \<times> 'tx) result" where
  "delete_tx B E ns key t =
     (if \<not> tx_Bucket B t (nsBucketName ns) then Inr ((), t)
      else case b_Get B t (nsBucketName ns) key of
        None \<Rightarrow> Inr ((), t)
      | Some prev \<Rightarrow>
          (let (used, count) = readKVMeta B t; freed = sizeOf key prev in
           andThen (dropStaleTTL B E t ns key prev) (\<lambda>t1.
           andThen (liftBolt (b_Delete B t1 (nsBucketName ns) key)) (\<lambda>t2.
           andThen (writeKVMeta B t2 (used - freed) (count - 1)) (\<lambda>t3. Inr ((), t3))))))"

definition Delete :: "'tx bolt \<Rightarrow> codec \<Rightarrow> 'tx store \<Rightarrow> string \<Rightarrow> string \<Rightarrow> string
    \<Rightarrow> (kv_error, unit) result \<times> 'tx store" where
  "Delete B E s tenant ns key =
     (if \<not> validNamespace ns then (Inl ErrKVNamespace, s)
      else if key = [] \<or> length key > MaxKeyLen then (Inl ErrKVKey, s)
      else case getDB B s tenant of
        (Inl e, s1) \<Rightarrow> (Inl e, s1)
      | (Inr p, s1) \<Rightarrow> runUpdate B s1 p (delete_tx B E ns key))"

section \<open>List\<close>

definition encodeCursor :: "bytes \<Rightarrow> string" where
  "encodeCursor b = RawURL_EncodeToString b"

definition decodeCursor :: "string \<Rightarrow> (kv_error, bytes option) result" where
  "decodeCursor s =
     (if s = [] then Inr None
      else case RawURL_DecodeString s of None \<Rightarrow> Inl ErrBadCursor | Some b \<Rightarrow> Inr (Some b))"

definition expiredRec :: "codec \<Rightarrow> time \<Rightarrow> bytes \<Rightarrow> bool" where
  "expiredRec E now v =
     (case gobDecode E v of None \<Rightarrow> False | Some r \<Rightarrow> \<not> IsZero (ExpiresAt r) \<and> \<not> ExpiresAt r > now)"

fun list_loop :: "codec \<Rightarrow> time \<Rightarrow> bytes \<Rightarrow> nat \<Rightarrow> (bytes \<times> bytes) list \<Rightarrow> string list \<Rightarrow> string list \<times> string" where
  "list_loop E now pfx limit [] keys = (keys, [])"
| "list_loop E now pfx limit ((k, v) # kvs) keys =
     (if pfx \<noteq> [] \<and> \<not> prefix pfx k then (keys, [])
      else if expiredRec E now v then list_loop E now pfx limit kvs keys
      else if length keys = limit then (keys, encodeCursor (last keys))
      else list_loop E now pfx limit kvs (keys @ [k]))"

definition list_start :: "bytes option \<Rightarrow> bytes \<Rightarrow> (bytes \<times> bytes) list \<Rightarrow> (bytes \<times> bytes) list" where
  "list_start start pfx kvs =
     (case start of
        Some st \<Rightarrow> (case c_Seek st kvs of [] \<Rightarrow> [] | (k, v) # r \<Rightarrow> if k = st then r else (k, v) # r)
      | None \<Rightarrow> if pfx \<noteq> [] then c_Seek pfx kvs else kvs)"

definition listLimit :: "int \<Rightarrow> nat" where
  "listLimit limit = (if limit \<le> 0 \<or> limit > 1000 then 100 else nat limit)"

definition ListKeys :: "'tx bolt \<Rightarrow> codec \<Rightarrow> time \<Rightarrow> 'tx store \<Rightarrow> string \<Rightarrow> string \<Rightarrow> string \<Rightarrow> int \<Rightarrow> string
    \<Rightarrow> (kv_error, string list \<times> string) result \<times> 'tx store" where
  "ListKeys B E now s tenant ns pfx limit cursor =
     (if \<not> validNamespace ns then (Inl ErrKVNamespace, s)
      else case decodeCursor cursor of
        Inl e \<Rightarrow> (Inl e, s)
      | Inr start \<Rightarrow>
        (case getDB B s tenant of
           (Inl e, s1) \<Rightarrow> (Inl e, s1)
         | (Inr p, s1) \<Rightarrow>
             (runView s1 p (\<lambda>t.
                if \<not> tx_Bucket B t (nsBucketName ns) then Inr ([], [])
                else Inr (list_loop E now pfx (listLimit limit)
                       (list_start start pfx (b_Cursor B t (nsBucketName ns))) [])), s1)))"

section \<open>Stats and the sweep\<close>

fun countExpired :: "int \<Rightarrow> (bytes \<times> bytes) list \<Rightarrow> int" where
  "countExpired nowNanos [] = 0"
| "countExpired nowNanos ((k, v) # kvs) =
     (case parseTTLKey k of
        None \<Rightarrow> 0
      | Some (ns, key, ts) \<Rightarrow> if ts \<le> nowNanos then 1 + countExpired nowNanos kvs else 0)"

definition Stats :: "'tx bolt \<Rightarrow> time \<Rightarrow> 'tx store \<Rightarrow> string \<Rightarrow> (kv_error, int \<times> int \<times> int) result \<times> 'tx store" where
  "Stats B now s tenant =
     (if \<not> validTenant tenant then (Inl ErrKVTenant, s)
      else if dbs s tenant = None \<and> (case path s tenant of Inl _ \<Rightarrow> False | Inr p \<Rightarrow> disk s p = None)
      then (Inr (0, 0, 0), s)
      else case getDB B s tenant of
        (Inl e, s1) \<Rightarrow> (Inl e, s1)
      | (Inr p, s1) \<Rightarrow>
          (runView s1 p (\<lambda>t. let (used, count) = readKVMeta B t in
             Inr (used, count, if tx_Bucket B t ttlBucket
               then countExpired (sint (UnixNano now)) (b_Cursor B t ttlBucket) else 0)), s1))"

record due =
  d_ns :: string
  d_key :: string
  d_ttlK :: bytes

fun collectDue :: "int \<Rightarrow> (bytes \<times> bytes) list \<Rightarrow> due list" where
  "collectDue nowNanos [] = []"
| "collectDue nowNanos ((k, v) # kvs) =
     (case parseTTLKey k of
        None \<Rightarrow> \<lparr>d_ns = [], d_key = [], d_ttlK = k\<rparr> # collectDue nowNanos kvs
      | Some (ns, key, ts) \<Rightarrow>
          if ts > nowNanos then []
          else \<lparr>d_ns = ns, d_key = key, d_ttlK = k\<rparr> # collectDue nowNanos kvs)"

definition sweepCollect :: "'tx bolt \<Rightarrow> time \<Rightarrow> 'tx \<Rightarrow> due list" where
  "sweepCollect B now t =
     (if \<not> tx_Bucket B t ttlBucket then [] else collectDue (sint (UnixNano now)) (b_Cursor B t ttlBucket))"

fun sweepLoop :: "'tx bolt \<Rightarrow> codec \<Rightarrow> time \<Rightarrow> due list \<Rightarrow> 'tx \<times> int \<times> int \<times> int \<Rightarrow> (kv_error, 'tx \<times> int \<times> int \<times> int) result" where
  "sweepLoop B E now [] st = Inr st"
| "sweepLoop B E now (d # ds) (t, used, count, reclaimed) =
     (let dropIdx = (\<lambda>u. ignoreErr u (b_Delete B u ttlBucket (d_ttlK d))) in
      if d_ns d = [] \<and> d_key d = [] then sweepLoop B E now ds (dropIdx t, used, count, reclaimed)
      else if \<not> tx_Bucket B t (nsBucketName (d_ns d)) then sweepLoop B E now ds (dropIdx t, used, count, reclaimed)
      else case b_Get B t (nsBucketName (d_ns d)) (d_key d) of
        None \<Rightarrow> sweepLoop B E now ds (dropIdx t, used, count, reclaimed)
      | Some raw \<Rightarrow>
          if (case gobDecode E raw of None \<Rightarrow> False | Some r \<Rightarrow> IsZero (ExpiresAt r) \<or> ExpiresAt r > now)
          then sweepLoop B E now ds (dropIdx t, used, count, reclaimed)
          else andThen (liftBolt (b_Delete B t (nsBucketName (d_ns d)) (d_key d))) (\<lambda>t1.
                 sweepLoop B E now ds (dropIdx t1, used - sizeOf (d_key d) raw, count - 1, reclaimed + 1)))"

definition sweep_tx :: "'tx bolt \<Rightarrow> codec \<Rightarrow> time \<Rightarrow> due list \<Rightarrow> 'tx \<Rightarrow> (kv_error, int \<times> 'tx) result" where
  "sweep_tx B E now batch t =
     (let (used, count) = readKVMeta B t in
      andThen (liftBolt (tx_CreateBucketIfNotExists B t ttlBucket)) (\<lambda>t1.
      andThen (sweepLoop B E now batch (t1, used, count, 0)) (\<lambda>(t2, used', count', reclaimed).
      andThen (writeKVMeta B t2 used' count') (\<lambda>t3. Inr (reclaimed, t3)))))"

text \<open>
  The sweep collects in one transaction (state \<open>tv\<close>) and deletes in a later one
  (state \<open>tu\<close>); other operations may commit in between.
\<close>

definition sweepDB :: "'tx bolt \<Rightarrow> codec \<Rightarrow> time \<Rightarrow> 'tx \<Rightarrow> 'tx \<Rightarrow> int \<times> kv_error option \<times> 'tx" where
  "sweepDB B E now tv tu =
     (let batch = sweepCollect B now tv in
      if batch = [] then (0, None, tu)
      else case dbUpdate B (sweep_tx B E now batch) tu of
        (Inl e, t') \<Rightarrow> (0, Some e, t')
      | (Inr n, t') \<Rightarrow> (n, None, t'))"

text \<open>\<open>SweepExpired\<close> visits the files of the open handles, each at its own clock reading.\<close>

fun SweepExpired :: "'tx bolt \<Rightarrow> codec \<Rightarrow> 'tx store \<Rightarrow> (string \<times> time) list \<Rightarrow> int \<times> kv_error option \<times> 'tx store" where
  "SweepExpired B E s [] = (0, None, s)"
| "SweepExpired B E s ((p, now) # ps) =
     (case disk s p of
        None \<Rightarrow> SweepExpired B E s ps
      | Some t \<Rightarrow>
          (case sweepDB B E now t t of (n, e, t') \<Rightarrow>
             case SweepExpired B E (s\<lparr>disk := (disk s)(p \<mapsto> t')\<rparr>) ps of
               (m, e', s') \<Rightarrow> (n + m, if e = None then e' else e, s')))"

end
