(* ===== verification/KVSpec.thy ===== *)
theory KVSpec
  imports KVStore
begin

text \<open>
  The specification of one tenant's database and the proof that the transactions
  of \<^verbatim>\<open>kv.go\<close> implement it.  The abstract state is the map of user records, the
  set of index entries and the two counters.  The relation \<open>R\<close> ties a database
  state to its abstract state; every database call the code makes is a step lemma
  over \<open>R\<close>, and the transaction lemmas compose them.  The invariant \<open>kv_inv\<close>
  states that the counters equal the totals over the records, that the quotas
  hold, and that the index holds exactly the entries of the expiring records.
\<close>

section \<open>Abstract state\<close>

type_synonym view = "bytes \<Rightarrow> (bytes \<rightharpoonup> bytes) option"

record kvabs =
  recs :: "(string \<times> string) \<rightharpoonup> bytes"
  ttls :: "bytes set"
  used :: int
  kcount :: int

definition recs_of :: "view \<Rightarrow> (string \<times> string) \<rightharpoonup> bytes" where
  "recs_of v = (\<lambda>(ns, k). case v (nsBucketName ns) of None \<Rightarrow> None | Some m \<Rightarrow> m k)"

definition kv_abs :: "view \<Rightarrow> kvabs" where
  "kv_abs v = \<lparr>recs = recs_of v,
     ttls = (case v ttlBucket of None \<Rightarrow> {} | Some m \<Rightarrow> dom m),
     used = (case v metaBucket of None \<Rightarrow> 0 | Some m \<Rightarrow> metaInt (m keyUsedBytes)),
     kcount = (case v metaBucket of None \<Rightarrow> 0 | Some m \<Rightarrow> metaInt (m keyKeyCount))\<rparr>"

definition kv_wf :: "view \<Rightarrow> bool" where
  "kv_wf v \<longleftrightarrow> v metaBucket \<noteq> None \<and> v ttlBucket \<noteq> None"

definition rec_size :: "string \<times> string \<Rightarrow> bytes \<Rightarrow> int" where
  "rec_size x b = sizeOf (snd x) b"

definition idx :: "codec \<Rightarrow> string \<times> string \<Rightarrow> bytes option \<Rightarrow> bytes set" where
  "idx E x b = (case Option.bind b (gobDecode E) of None \<Rightarrow> {}
     | Some r \<Rightarrow> if IsZero (ExpiresAt r) then {} else {ttlKey (ExpiresAt r) (fst x) (snd x)})"

definition acct :: "kvabs \<Rightarrow> bool" where
  "acct a \<longleftrightarrow> finite (dom (recs a)) \<and> used a = map_total rec_size (recs a) \<and> kcount a = int (card (dom (recs a)))"

definition rec_ok :: "codec \<Rightarrow> string \<times> string \<Rightarrow> bytes \<Rightarrow> bool" where
  "rec_ok E x b \<longleftrightarrow> validNamespace (fst x) \<and> snd x \<noteq> [] \<and> length (snd x) \<le> MaxKeyLen \<and>
     (\<exists>r. gobDecode E b = Some r \<and> (IsZero (ExpiresAt r) \<or> 0 \<le> ExpiresAt r \<and> ExpiresAt r < 2 ^ 63))"

definition kv_inv :: "codec \<Rightarrow> kvabs \<Rightarrow> bool" where
  "kv_inv E a \<longleftrightarrow> acct a \<and> used a \<le> MaxBytesPerTenant \<and> kcount a \<le> MaxKeysPerTenant \<and>
     (\<forall>x b. recs a x = Some b \<longrightarrow> rec_ok E x b) \<and> ttls a = (\<Union>x. idx E x (recs a x))"

section \<open>Abstract operations\<close>

definition clamp0 :: "int \<Rightarrow> int" where
  "clamp0 n = (if n < 0 then 0 else n)"

definition old_size :: "kvabs \<Rightarrow> string \<times> string \<Rightarrow> int" where
  "old_size a x = (case recs a x of None \<Rightarrow> 0 | Some b \<Rightarrow> rec_size x b)"

definition spec_put :: "codec \<Rightarrow> string \<times> string \<Rightarrow> krecord \<Rightarrow> bytes \<Rightarrow> kvabs \<Rightarrow> kvabs option" where
  "spec_put E x r b a =
     (let u = used a - old_size a x + rec_size x b;
          c = (if recs a x = None then kcount a + 1 else kcount a) in
      if u > MaxBytesPerTenant \<or> c > MaxKeysPerTenant then None
      else Some \<lparr>recs = (recs a)(x \<mapsto> b),
        ttls = ttls a - idx E x (recs a x) \<union> (if IsZero (ExpiresAt r) then {} else {ttlKey (ExpiresAt r) (fst x) (snd x)}),
        used = clamp0 u, kcount = clamp0 c\<rparr>)"

definition spec_delete :: "codec \<Rightarrow> string \<times> string \<Rightarrow> kvabs \<Rightarrow> kvabs" where
  "spec_delete E x a =
     (if recs a x = None then a
      else \<lparr>recs = (recs a)(x := None), ttls = ttls a - idx E x (recs a x),
            used = clamp0 (used a - old_size a x), kcount = clamp0 (kcount a - 1)\<rparr>)"

definition live :: "codec \<Rightarrow> time \<Rightarrow> bytes \<Rightarrow> bool" where
  "live E now b = (case gobDecode E b of None \<Rightarrow> False | Some r \<Rightarrow> IsZero (ExpiresAt r) \<or> ExpiresAt r > now)"

definition sweep_one :: "codec \<Rightarrow> time \<Rightarrow> due \<Rightarrow> kvabs \<times> int \<Rightarrow> kvabs \<times> int" where
  "sweep_one E now d st =
     (let x = (d_ns d, d_key d); a = (fst st)\<lparr>ttls := ttls (fst st) - {d_ttlK d}\<rparr> in
      if x = ([], []) then (a, snd st)
      else case recs a x of
        None \<Rightarrow> (a, snd st)
      | Some b \<Rightarrow> if live E now b then (a, snd st)
          else (a\<lparr>recs := (recs a)(x := None), used := used a - rec_size x b, kcount := kcount a - 1\<rparr>, snd st + 1))"

definition spec_sweep :: "codec \<Rightarrow> time \<Rightarrow> due list \<Rightarrow> kvabs \<times> int \<Rightarrow> kvabs \<times> int" where
  "spec_sweep E now ds st = fold (sweep_one E now) ds st"

section \<open>Bucket names and views\<close>

lemma bucket_names [simp]:
  "nsBucketName ns \<noteq> metaBucket" "nsBucketName ns \<noteq> ttlBucket" "metaBucket \<noteq> ttlBucket"
  "metaBucket \<noteq> nsBucketName ns" "ttlBucket \<noteq> nsBucketName ns" "ttlBucket \<noteq> metaBucket"
  "nsBucketName ns \<noteq> []" "metaBucket \<noteq> []" "ttlBucket \<noteq> []"
  by (simp_all add: nsBucketName_def nsPrefix_def metaBucket_def ttlBucket_def)

lemma nsBucketName_inject [simp]: "nsBucketName ns = nsBucketName ns' \<longleftrightarrow> ns = ns'"
  by (simp add: nsBucketName_def)

lemma key_names [simp]: "keyUsedBytes \<noteq> keyKeyCount" "keyUsedBytes \<noteq> []" "keyKeyCount \<noteq> []"
  "length keyUsedBytes \<le> MaxKeySize" "length keyKeyCount \<le> MaxKeySize"
  by (simp_all add: keyUsedBytes_def keyKeyCount_def MaxKeySize_def)

lemma bucket_lengths [simp]:
  "length metaBucket \<le> MaxKeySize" "length ttlBucket \<le> MaxKeySize"
  by (simp_all add: metaBucket_def ttlBucket_def MaxKeySize_def)

lemma validNamespace_length: "validNamespace ns \<Longrightarrow> length ns \<le> 128 \<and> ns \<noteq> []"
  by (auto simp: validNamespace_def MaxNamespaceLen_def split: if_splits)

lemma nsBucketName_length: "validNamespace ns \<Longrightarrow> length (nsBucketName ns) \<le> MaxKeySize"
  using validNamespace_length by (fastforce simp: nsBucketName_def nsPrefix_def MaxKeySize_def)

lemma length_ttlKey [simp]: "length (ttlKey e ns k) = 10 + length ns + length k"
  by (simp add: ttlKey_def)

lemma ttlKey_neq_Nil [simp]: "ttlKey e ns k \<noteq> []"
  using length_ttlKey [of e ns k] by (metis add_is_0 list.size(3) numeral_eq_iff zero_neq_numeral)

lemma recs_of_ns_upd:
  "v (nsBucketName ns) = Some m \<Longrightarrow> recs_of (v(nsBucketName ns \<mapsto> m(k := o'))) = (recs_of v)((ns, k) := o')"
  by (rule ext) (auto simp: recs_of_def split: if_splits)

lemma recs_of_ns_new:
  "v (nsBucketName ns) = None \<Longrightarrow> recs_of (v(nsBucketName ns \<mapsto> Map.empty)) = recs_of v"
  by (rule ext) (auto simp: recs_of_def)

lemma recs_of_internal [simp]:
  "recs_of (v(metaBucket \<mapsto> m)) = recs_of v" "recs_of (v(ttlBucket \<mapsto> m)) = recs_of v"
  by (rule ext, simp add: recs_of_def split: prod.splits)+

lemma metaInt_word [simp]: "0 \<le> n \<Longrightarrow> n < 2 ^ 63 \<Longrightarrow> metaInt (Some (PutUint64 (word_of_int n))) = n"
  by (simp add: metaInt_def sint_word_of_int64)

section \<open>The step lemmas\<close>

locale kv_backend = bolt_db B view for B :: "'tx bolt" and view +
  fixes E :: codec
  assumes gob_roundtrip: "gobEncode E r = Some b \<Longrightarrow> gobDecode E b = Some r"
begin

definition R :: "'tx \<Rightarrow> kvabs \<Rightarrow> bool" where
  "R t a \<longleftrightarrow> kv_wf (view t) \<and> kv_abs (view t) = a"

lemma R_recs: "R t a \<Longrightarrow> recs a = recs_of (view t)"
  by (auto simp: R_def kv_abs_def)

lemma R_finite: "R t a \<Longrightarrow> finite (dom (recs a))"
proof -
  assume "R t a"
  let ?bs = "{n. view t n \<noteq> None}"
  have "dom (recs_of (view t)) \<subseteq> (\<lambda>(n, k). (drop 3 n, k)) ` (SIGMA n : ?bs. dom (the (view t n)))"
  proof
    fix x assume "x \<in> dom (recs_of (view t))"
    then obtain ns k m v where x: "x = (ns, k)" and m: "view t (nsBucketName ns) = Some m" "m k = Some v"
      by (cases x) (auto simp: recs_of_def split: option.splits)
    then have "(nsBucketName ns, k) \<in> (SIGMA n : ?bs. dom (the (view t n)))" by auto
    then show "x \<in> (\<lambda>(n, k). (drop 3 n, k)) ` (SIGMA n : ?bs. dom (the (view t n)))"
      using x by (force simp: nsBucketName_def nsPrefix_def)
  qed
  moreover have "finite (SIGMA n : ?bs. dom (the (view t n)))"
  proof (rule finite_SigmaI)
    show "finite ?bs" using finite_buckets [of t] by (simp add: dom_def)
    show "\<And>n. n \<in> ?bs \<Longrightarrow> finite (dom (the (view t n)))" using finite_bucket by auto
  qed
  ultimately show ?thesis using R_recs [OF \<open>R t a\<close>] finite_subset by (metis finite_imageI)
qed

lemma read_meta: "R t a \<Longrightarrow> readKVMeta B t = (used a, kcount a)"
  by (auto simp: R_def kv_wf_def kv_abs_def readKVMeta_def Bucket_iff Get_eq)

lemma has_ttl: "R t a \<Longrightarrow> tx_Bucket B t ttlBucket"
  by (auto simp: R_def kv_wf_def Bucket_iff)

lemma get_rec: "R t a \<Longrightarrow> view t (nsBucketName ns) \<noteq> None \<Longrightarrow> b_Get B t (nsBucketName ns) k = recs a (ns, k)"
  by (auto simp: R_recs recs_of_def Get_eq)

lemma no_bucket_rec: "R t a \<Longrightarrow> view t (nsBucketName ns) = None \<Longrightarrow> recs a (ns, k) = None"
  by (auto simp: R_recs recs_of_def)

lemma create_ns:
  assumes "R t a" and "validNamespace ns"
  shows "\<exists>t'. tx_CreateBucketIfNotExists B t (nsBucketName ns) = Inr t' \<and> R t' a \<and>
    view t' (nsBucketName ns) \<noteq> None"
proof -
  obtain t' where t': "tx_CreateBucketIfNotExists B t (nsBucketName ns) = Inr t'"
    and v: "view t' = (if view t (nsBucketName ns) = None
      then (view t)(nsBucketName ns \<mapsto> Map.empty) else view t)"
    using Create_ok [of "nsBucketName ns" t] nsBucketName_length [OF assms(2)] by auto
  have "R t' a"
    using assms(1) v by (auto simp: R_def kv_wf_def kv_abs_def recs_of_ns_new split: if_splits)
  with t' v show ?thesis by auto
qed

lemma create_ttl: "R t a \<Longrightarrow> \<exists>t'. tx_CreateBucketIfNotExists B t ttlBucket = Inr t' \<and> R t' a"
  using Create_ok [of ttlBucket t] by (auto simp: R_def kv_wf_def)

lemma put_rec:
  assumes "R t a" and "view t (nsBucketName ns) \<noteq> None" and "k \<noteq> []" and "length k \<le> MaxKeyLen"
    and "length b \<le> MaxValueLen"
  shows "\<exists>t'. b_Put B t (nsBucketName ns) k b = Inr t' \<and> R t' (a\<lparr>recs := (recs a)((ns, k) \<mapsto> b)\<rparr>)"
proof -
  obtain m where m: "view t (nsBucketName ns) = Some m" using assms(2) by auto
  have "length k \<le> MaxKeySize" "length b \<le> MaxValueSize"
    using assms(4,5) by (auto simp: MaxKeySize_def MaxKeyLen_def MaxValueLen_def MaxValueSize_def)
  then obtain t' where "b_Put B t (nsBucketName ns) k b = Inr t'"
    "view t' = (view t)(nsBucketName ns \<mapsto> m(k \<mapsto> b))"
    using Put_ok [OF m assms(3)] by blast
  then show ?thesis using assms(1) m by (auto simp: R_def kv_wf_def kv_abs_def recs_of_ns_upd)
qed

lemma del_rec:
  assumes "R t a" and "view t (nsBucketName ns) \<noteq> None"
  shows "\<exists>t'. b_Delete B t (nsBucketName ns) k = Inr t' \<and> R t' (a\<lparr>recs := (recs a)((ns, k) := None)\<rparr>)"
proof -
  obtain m where m: "view t (nsBucketName ns) = Some m" using assms(2) by auto
  then obtain t' where "b_Delete B t (nsBucketName ns) k = Inr t'"
    "view t' = (view t)(nsBucketName ns \<mapsto> m(k := None))"
    using Delete_ok by blast
  then show ?thesis using assms(1) m by (auto simp: R_def kv_wf_def kv_abs_def recs_of_ns_upd)
qed

lemma put_ttl:
  assumes "R t a" and "validNamespace ns" and "length k \<le> MaxKeyLen"
  shows "\<exists>t'. b_Put B t ttlBucket (ttlKey e ns k) [] = Inr t' \<and> R t' (a\<lparr>ttls := ttls a \<union> {ttlKey e ns k}\<rparr>)"
proof -
  obtain m where m: "view t ttlBucket = Some m" using assms(1) by (auto simp: R_def kv_wf_def)
  have "length (ttlKey e ns k) \<le> MaxKeySize"
    using validNamespace_length [OF assms(2)] assms(3) by (auto simp: MaxKeySize_def MaxKeyLen_def)
  then obtain t' where "b_Put B t ttlBucket (ttlKey e ns k) [] = Inr t'"
    "view t' = (view t)(ttlBucket \<mapsto> m(ttlKey e ns k \<mapsto> []))"
    using Put_ok [OF m, of "ttlKey e ns k" "[]"] by auto
  then show ?thesis using assms(1) m by (auto simp: R_def kv_wf_def kv_abs_def)
qed

lemma del_ttl:
  assumes "R t a"
  shows "\<exists>t'. b_Delete B t ttlBucket k = Inr t' \<and> R t' (a\<lparr>ttls := ttls a - {k}\<rparr>) \<and>
    (\<forall>ns. view t' (nsBucketName ns) = view t (nsBucketName ns))"
proof -
  obtain m where m: "view t ttlBucket = Some m" using assms by (auto simp: R_def kv_wf_def)
  then obtain t' where "b_Delete B t ttlBucket k = Inr t'" "view t' = (view t)(ttlBucket \<mapsto> m(k := None))"
    using Delete_ok by blast
  then show ?thesis using assms m by (auto simp: R_def kv_wf_def kv_abs_def)
qed

lemma write_meta:
  assumes "R t a" and "u < 2 ^ 63" and "c < 2 ^ 63"
  shows "\<exists>t'. writeKVMeta B t u c = Inr t' \<and> R t' (a\<lparr>used := clamp0 u, kcount := clamp0 c\<rparr>)"
proof -
  let ?U = "PutUint64 (word_of_int (if u < 0 then 0 else u))"
  let ?C = "PutUint64 (word_of_int (if c < 0 then 0 else c))"
  have len: "length ?U \<le> MaxValueSize" "length ?C \<le> MaxValueSize" by (simp_all add: MaxValueSize_def)
  obtain m where m: "view t metaBucket = Some m" using assms(1) by (auto simp: R_def kv_wf_def)
  obtain t1 where t1: "tx_CreateBucketIfNotExists B t metaBucket = Inr t1" "view t1 = view t"
    using Create_ok [of metaBucket t] m by auto
  obtain t2 where t2: "b_Put B t1 metaBucket keyUsedBytes ?U = Inr t2"
    "view t2 = (view t)(metaBucket \<mapsto> m(keyUsedBytes \<mapsto> ?U))"
    using Put_ok [of t1 metaBucket m keyUsedBytes ?U] m t1(2) len by auto
  obtain t3 where t3: "b_Put B t2 metaBucket keyKeyCount ?C = Inr t3"
    "view t3 = (view t)(metaBucket \<mapsto> m(keyUsedBytes \<mapsto> ?U, keyKeyCount \<mapsto> ?C))"
    using Put_ok [of t2 metaBucket "m(keyUsedBytes \<mapsto> ?U)" keyKeyCount ?C] t2(2) len by auto
  have "metaInt (Some ?U) = clamp0 u" "metaInt (Some ?C) = clamp0 c"
    using assms(2,3) by (auto simp: clamp0_def metaInt_word simp del: length_PutUint64)
  then have "R t3 (a\<lparr>used := clamp0 u, kcount := clamp0 c\<rparr>)"
    using assms(1) t3(2) m by (auto simp: R_def kv_wf_def kv_abs_def)
  then show ?thesis using t1(1) t2(1) t3(1) by (auto simp: writeKVMeta_def liftBolt_def Let_def)
qed

end

section \<open>The transactions implement the abstract operations\<close>

context kv_backend
begin

lemma drop_stale:
  assumes "R t a"
  shows "\<exists>t'. dropStaleTTL B E t ns k prev = Inr t' \<and> R t' (a\<lparr>ttls := ttls a - idx E (ns, k) (Some prev)\<rparr>) \<and>
    (\<forall>ns'. view t' (nsBucketName ns') = view t (nsBucketName ns'))"
proof (cases "gobDecode E prev")
  case None
  then show ?thesis using assms by (simp add: dropStaleTTL_def idx_def)
next
  case (Some old)
  show ?thesis
  proof (cases "IsZero (ExpiresAt old)")
    case True
    then show ?thesis using assms Some by (simp add: dropStaleTTL_def idx_def)
  next
    case False
    then show ?thesis
      using Some del_ttl [OF assms, of "ttlKey (ExpiresAt old) ns k"] has_ttl [OF assms]
      by (auto simp: dropStaleTTL_def idx_def ignoreErr_def)
  qed
qed

lemma quota_bounds: "u \<le> MaxBytesPerTenant \<Longrightarrow> u < 2 ^ 63" "c \<le> MaxKeysPerTenant \<Longrightarrow> c < 2 ^ 63"
  by (simp_all add: MaxBytesPerTenant_def MaxKeysPerTenant_def)

text \<open>Reading the previous record and dropping its index entry.\<close>

lemma read_prev:
  assumes "R t a" and "view t (nsBucketName ns) \<noteq> None"
  shows "\<exists>t'. (case b_Get B t (nsBucketName ns) k of
                None \<Rightarrow> Inr (0, True, t)
              | Some prev \<Rightarrow> andThen (dropStaleTTL B E t ns k prev) (\<lambda>t2. Inr (sizeOf k prev, False, t2)))
            = Inr (old_size a (ns, k), recs a (ns, k) = None, t') \<and>
    R t' (a\<lparr>ttls := ttls a - idx E (ns, k) (recs a (ns, k))\<rparr>) \<and> view t' (nsBucketName ns) \<noteq> None"
proof (cases "recs a (ns, k)")
  case None
  have "idx E (ns, k) None = {}" by (simp add: idx_def)
  then show ?thesis using None assms get_rec [OF assms, of k] by (simp add: old_size_def)
next
  case (Some prev)
  then show ?thesis
    using drop_stale [OF assms(1), of ns k prev] get_rec [OF assms, of k] assms(2)
    by (auto simp: old_size_def rec_size_def)
qed

text \<open>Writing the record and its index entry.\<close>

lemma put_both:
  assumes "R t a" and "view t (nsBucketName ns) \<noteq> None" and "validNamespace ns"
    and "k \<noteq> []" and "length k \<le> MaxKeyLen" and "length b \<le> MaxValueLen"
  shows "\<exists>t3 t4. b_Put B t (nsBucketName ns) k b = Inr t3 \<and>
    (if IsZero (ExpiresAt r) then Inr t3
     else if \<not> tx_Bucket B t3 ttlBucket then Inl NilDeref
     else liftBolt (b_Put B t3 ttlBucket (ttlKey (ExpiresAt r) ns k) [])) = Inr t4 \<and>
    R t4 (a\<lparr>recs := (recs a)((ns, k) \<mapsto> b),
      ttls := ttls a \<union> (if IsZero (ExpiresAt r) then {} else {ttlKey (ExpiresAt r) ns k})\<rparr>)"
proof -
  obtain t3 where t3: "b_Put B t (nsBucketName ns) k b = Inr t3" "R t3 (a\<lparr>recs := (recs a)((ns, k) \<mapsto> b)\<rparr>)"
    using put_rec [OF assms(1,2,4,5,6)] by blast
  show ?thesis
  proof (cases "IsZero (ExpiresAt r)")
    case True
    then show ?thesis using t3 by simp
  next
    case False
    then show ?thesis
      using t3 put_ttl [OF t3(2) assms(3,5), of "ExpiresAt r"] has_ttl [OF t3(2)]
      by (auto simp: liftBolt_def)
  qed
qed

lemma put_refines:
  assumes "R t a" and "validNamespace ns" and "k \<noteq> []" and "length k \<le> MaxKeyLen" and "length b \<le> MaxValueLen"
  shows "case spec_put E (ns, k) r b a of
      None \<Rightarrow> put_tx B E ns k r b t = Inl ErrKVQuota
    | Some a' \<Rightarrow> \<exists>t'. put_tx B E ns k r b t = Inr ((), t') \<and> R t' a'"
proof -
  obtain t1 where t1: "tx_CreateBucketIfNotExists B t (nsBucketName ns) = Inr t1" "R t1 a"
    "view t1 (nsBucketName ns) \<noteq> None"
    using create_ns [OF assms(1,2)] by blast
  let ?a2 = "a\<lparr>ttls := ttls a - idx E (ns, k) (recs a (ns, k))\<rparr>"
  obtain t2 where t2: "(case b_Get B t1 (nsBucketName ns) k of
                None \<Rightarrow> Inr (0, True, t1)
              | Some prev \<Rightarrow> andThen (dropStaleTTL B E t1 ns k prev) (\<lambda>t2. Inr (sizeOf k prev, False, t2)))
            = Inr (old_size a (ns, k), recs a (ns, k) = None, t2)"
    "R t2 ?a2" "view t2 (nsBucketName ns) \<noteq> None"
    using read_prev [OF t1(2,3)] by blast
  obtain t3 t4 where t34: "b_Put B t2 (nsBucketName ns) k b = Inr t3"
    "(if IsZero (ExpiresAt r) then Inr t3
     else if \<not> tx_Bucket B t3 ttlBucket then Inl NilDeref
     else liftBolt (b_Put B t3 ttlBucket (ttlKey (ExpiresAt r) ns k) [])) = Inr t4"
    "R t4 (?a2\<lparr>recs := (recs ?a2)((ns, k) \<mapsto> b),
      ttls := ttls ?a2 \<union> (if IsZero (ExpiresAt r) then {} else {ttlKey (ExpiresAt r) ns k})\<rparr>)"
    using put_both [OF t2(2,3) assms(2-5)] by blast
  let ?u = "used a - old_size a (ns, k) + rec_size (ns, k) b"
  let ?c = "if recs a (ns, k) = None then kcount a + 1 else kcount a"
  note unf = put_tx_def t1(1) t2(1) liftBolt_def Let_def read_meta [OF t1(2)] rec_size_def
  show ?thesis
  proof (cases "?u > MaxBytesPerTenant \<or> ?c > MaxKeysPerTenant")
    case True
    then have "spec_put E (ns, k) r b a = None" by (simp add: spec_put_def)
    moreover have "put_tx B E ns k r b t = Inl ErrKVQuota"
      using True by (auto simp: unf)
    ultimately show ?thesis by simp
  next
    case False
    then have le: "?u \<le> MaxBytesPerTenant" "?c \<le> MaxKeysPerTenant" by (auto simp: not_less)
    obtain t5 where t5: "writeKVMeta B t4 ?u ?c = Inr t5"
      "R t5 (?a2\<lparr>recs := (recs ?a2)((ns, k) \<mapsto> b),
        ttls := ttls ?a2 \<union> (if IsZero (ExpiresAt r) then {} else {ttlKey (ExpiresAt r) ns k}),
        used := clamp0 ?u, kcount := clamp0 ?c\<rparr>)"
      using write_meta [OF t34(3) quota_bounds(1) [OF le(1)] quota_bounds(2) [OF le(2)]] by auto
    have "put_tx B E ns k r b t = Inr ((), t5)"
      using False t34 t5(1) by (auto simp: unf)
    moreover have "spec_put E (ns, k) r b a = Some (?a2\<lparr>recs := (recs ?a2)((ns, k) \<mapsto> b),
        ttls := ttls ?a2 \<union> (if IsZero (ExpiresAt r) then {} else {ttlKey (ExpiresAt r) ns k}),
        used := clamp0 ?u, kcount := clamp0 ?c\<rparr>)"
      using False by (simp add: spec_put_def Let_def)
    ultimately show ?thesis using t5(2) by simp
  qed
qed

lemma metaInt_lt: "metaInt v < 2 ^ 63"
  using sint_lt [of "Uint64 (the v)"] by (auto simp: metaInt_def split: option.splits)

lemma R_counters_lt: "R t a \<Longrightarrow> used a < 2 ^ 63" "R t a \<Longrightarrow> kcount a < 2 ^ 63"
  using metaInt_lt by (auto simp: R_def kv_abs_def split: option.splits)

lemma old_size_nonneg: "0 \<le> old_size a x"
  by (simp add: old_size_def rec_size_def sizeOf_def split: option.splits)

lemma delete_refines:
  assumes "R t a"
  shows "\<exists>t'. delete_tx B E ns k t = Inr ((), t') \<and> R t' (spec_delete E (ns, k) a)"
proof (cases "view t (nsBucketName ns) = None")
  case True
  then show ?thesis
    using assms no_bucket_rec [OF assms True, of k] by (simp add: delete_tx_def Bucket_iff spec_delete_def)
next
  case bucket: False
  show ?thesis
  proof (cases "recs a (ns, k)")
    case None
    then show ?thesis
      using assms bucket get_rec [OF assms bucket, of k] by (simp add: delete_tx_def Bucket_iff spec_delete_def)
  next
    case (Some prev)
    let ?a1 = "a\<lparr>ttls := ttls a - idx E (ns, k) (Some prev)\<rparr>"
    let ?u = "used a - sizeOf k prev"
    obtain t1 where t1: "dropStaleTTL B E t ns k prev = Inr t1" "R t1 ?a1" "view t1 (nsBucketName ns) \<noteq> None"
      using drop_stale [OF assms, of ns k prev] bucket by auto
    obtain t2 where t2: "b_Delete B t1 (nsBucketName ns) k = Inr t2" "R t2 (?a1\<lparr>recs := (recs ?a1)((ns, k) := None)\<rparr>)"
      using del_rec [OF t1(2,3)] by blast
    have lt: "?u < 2 ^ 63" "kcount a - 1 < 2 ^ 63"
      using R_counters_lt [OF assms] by (auto simp: sizeOf_def)
    obtain t3 where t3: "writeKVMeta B t2 ?u (kcount a - 1) = Inr t3"
      "R t3 (?a1\<lparr>recs := (recs ?a1)((ns, k) := None), used := clamp0 ?u, kcount := clamp0 (kcount a - 1)\<rparr>)"
      using write_meta [OF t2(2) lt] by auto
    have "delete_tx B E ns k t = Inr ((), t3)"
      using bucket Some get_rec [OF assms bucket, of k] t1(1) t2(1) t3(1) read_meta [OF assms]
      by (simp add: delete_tx_def Bucket_iff liftBolt_def)
    then show ?thesis using t3(2) Some by (cases a) (simp add: spec_delete_def old_size_def rec_size_def)
  qed
qed

text \<open>
  The sweep's loop keeps its running counters in variables; the counters stored
  in the database stay at \<open>us\<close> and \<open>cs\<close> until the final write.
\<close>

lemma ignore_del_ttl:
  assumes "R t a"
  shows "R (ignoreErr t (b_Delete B t ttlBucket k)) (a\<lparr>ttls := ttls a - {k}\<rparr>)"
  using del_ttl [OF assms, of k] by (auto simp: ignoreErr_def)

lemma sweep_step:
  assumes "R t (a\<lparr>used := us, kcount := cs\<rparr>)"
  shows "\<exists>t'. (\<forall>ds. sweepLoop B E now (d # ds) (t, used a, kcount a, n) =
      sweepLoop B E now ds (t', used (fst (sweep_one E now d (a, n))), kcount (fst (sweep_one E now d (a, n))),
        snd (sweep_one E now d (a, n)))) \<and>
    R t' ((fst (sweep_one E now d (a, n)))\<lparr>used := us, kcount := cs\<rparr>)"
proof -
  let ?x = "(d_ns d, d_key d)"
  let ?t' = "ignoreErr t (b_Delete B t ttlBucket (d_ttlK d))"
  have drop: "R ?t' (a\<lparr>ttls := ttls a - {d_ttlK d}, used := us, kcount := cs\<rparr>)"
    using ignore_del_ttl [OF assms, of "d_ttlK d"] by (cases a) simp
  consider (skip) "?x = ([], []) \<or> recs a ?x = None"
    | (some) b where "?x \<noteq> ([], [])" "recs a ?x = Some b" by fastforce
  then show ?thesis
  proof cases
    case skip
    then have "sweep_one E now d (a, n) = (a\<lparr>ttls := ttls a - {d_ttlK d}\<rparr>, n)"
      by (auto simp: sweep_one_def Let_def)
    moreover have "sweepLoop B E now (d # ds) (t, used a, kcount a, n) =
        sweepLoop B E now ds (?t', used a, kcount a, n)" for ds
      using skip get_rec [OF assms, of "d_ns d" "d_key d"] by (auto simp: Bucket_iff Let_def)
    ultimately show ?thesis using drop by auto
  next
    case some
    have bucket: "view t (nsBucketName (d_ns d)) \<noteq> None"
      using some(2) no_bucket_rec [OF assms, of "d_ns d" "d_key d"] by auto
    have get: "b_Get B t (nsBucketName (d_ns d)) (d_key d) = Some b"
      using some(2) get_rec [OF assms bucket, of "d_key d"] by simp
    show ?thesis
    proof (cases "live E now b")
      case True
      then have "sweep_one E now d (a, n) = (a\<lparr>ttls := ttls a - {d_ttlK d}\<rparr>, n)"
        using some by (auto simp: sweep_one_def Let_def)
      moreover have "sweepLoop B E now (d # ds) (t, used a, kcount a, n) =
          sweepLoop B E now ds (?t', used a, kcount a, n)" for ds
        using some True get bucket by (simp add: Bucket_iff Let_def live_def)
      ultimately show ?thesis using drop by auto
    next
      case False
      obtain t1 where t1: "b_Delete B t (nsBucketName (d_ns d)) (d_key d) = Inr t1"
        "R t1 (a\<lparr>recs := (recs a)(?x := None), used := us, kcount := cs\<rparr>)"
        using del_rec [OF assms bucket, of "d_key d"] by (cases a) auto
      let ?t2 = "ignoreErr t1 (b_Delete B t1 ttlBucket (d_ttlK d))"
      have "sweepLoop B E now (d # ds) (t, used a, kcount a, n) =
          sweepLoop B E now ds (?t2, used a - rec_size ?x b, kcount a - 1, n + 1)" for ds
        using some False get bucket t1(1) by (auto simp: Bucket_iff Let_def live_def liftBolt_def rec_size_def)
      moreover have "sweep_one E now d (a, n) = (a\<lparr>recs := (recs a)(?x := None), ttls := ttls a - {d_ttlK d},
          used := used a - rec_size ?x b, kcount := kcount a - 1\<rparr>, n + 1)"
        using some False by (auto simp: sweep_one_def Let_def)
      moreover have "R ?t2 (a\<lparr>recs := (recs a)(?x := None), ttls := ttls a - {d_ttlK d}, used := us, kcount := cs\<rparr>)"
        using ignore_del_ttl [OF t1(2), of "d_ttlK d"] by (cases a) simp
      ultimately show ?thesis by auto
    qed
  qed
qed

lemma sweep_loop_refines:
  assumes "R t (a\<lparr>used := us, kcount := cs\<rparr>)"
  shows "\<exists>t'. sweepLoop B E now ds (t, used a, kcount a, n) =
      Inr (t', used (fst (spec_sweep E now ds (a, n))), kcount (fst (spec_sweep E now ds (a, n))),
        snd (spec_sweep E now ds (a, n))) \<and>
    R t' ((fst (spec_sweep E now ds (a, n)))\<lparr>used := us, kcount := cs\<rparr>)"
  using assms
proof (induction ds arbitrary: t a n)
  case Nil
  then show ?case by (auto simp: spec_sweep_def)
next
  case (Cons d ds)
  let ?st = "sweep_one E now d (a, n)"
  obtain t1 where t1: "sweepLoop B E now (d # ds) (t, used a, kcount a, n) =
      sweepLoop B E now ds (t1, used (fst ?st), kcount (fst ?st), snd ?st)"
    "R t1 ((fst ?st)\<lparr>used := us, kcount := cs\<rparr>)"
    using sweep_step [OF Cons.prems] by blast
  have "spec_sweep E now (d # ds) (a, n) = spec_sweep E now ds (fst ?st, snd ?st)"
    by (simp add: spec_sweep_def)
  then show ?case using Cons.IH [OF t1(2), of "snd ?st"] t1(1) by simp
qed

lemma sweep_one_used: "used (fst (sweep_one E now d st)) \<le> used (fst st) \<and> kcount (fst (sweep_one E now d st)) \<le> kcount (fst st)"
  by (auto simp: sweep_one_def Let_def rec_size_def sizeOf_def split: option.splits)

lemma spec_sweep_used: "used (fst (spec_sweep E now ds st)) \<le> used (fst st) \<and> kcount (fst (spec_sweep E now ds st)) \<le> kcount (fst st)"
proof (induction ds arbitrary: st)
  case (Cons d ds)
  show ?case using sweep_one_used [of now d st] Cons.IH [of "sweep_one E now d st"]
    unfolding spec_sweep_def by auto
qed (simp add: spec_sweep_def)

lemma sweep_refines:
  assumes "R t a"
  shows "\<exists>t'. sweep_tx B E now ds t = Inr (snd (spec_sweep E now ds (a, 0)), t') \<and>
    R t' ((fst (spec_sweep E now ds (a, 0)))\<lparr>used := clamp0 (used (fst (spec_sweep E now ds (a, 0)))),
      kcount := clamp0 (kcount (fst (spec_sweep E now ds (a, 0))))\<rparr>)"
proof -
  let ?r = "spec_sweep E now ds (a, 0)"
  obtain t1 where t1: "tx_CreateBucketIfNotExists B t ttlBucket = Inr t1" "R t1 a"
    using create_ttl [OF assms] by blast
  obtain t2 where t2: "sweepLoop B E now ds (t1, used a, kcount a, 0) = Inr (t2, used (fst ?r), kcount (fst ?r), snd ?r)"
    "R t2 ((fst ?r)\<lparr>used := used a, kcount := kcount a\<rparr>)"
    using sweep_loop_refines [where t = t1 and a = a and us = "used a" and cs = "kcount a" and n = 0] t1(2) by auto
  have lt: "used (fst ?r) < 2 ^ 63" "kcount (fst ?r) < 2 ^ 63"
    using R_counters_lt [OF assms] spec_sweep_used [of now ds "(a, 0)"] by auto
  obtain t3 where "writeKVMeta B t2 (used (fst ?r)) (kcount (fst ?r)) = Inr t3"
    "R t3 ((fst ?r)\<lparr>used := clamp0 (used (fst ?r)), kcount := clamp0 (kcount (fst ?r))\<rparr>)"
    using write_meta [OF t2(2) lt] by auto
  then show ?thesis using t1(1) t2(1) read_meta [OF assms] by (auto simp: sweep_tx_def liftBolt_def)
qed

end

end
