(* ===== verification/KVCorrect.thy ===== *)
theory KVCorrect
  imports KVSpec
begin

text \<open>
  Correctness of the key/value store: deletes and sweeps implement their abstract
  operations, every abstract operation keeps the accounting invariant and the
  exactness of the expiry index, and the whole-store operations keep it for every
  open tenant.  The properties of the manifest about \<^verbatim>\<open>kv.go\<close> are stated over
  the code's own definitions, with the database and codec contracts as hypotheses.
\<close>

section \<open>The expiry index codec\<close>

lemma parse_ttlKey:
  assumes "length ns < 65536"
  shows "parseTTLKey (ttlKey e ns k) = Some (ns, k, sint (UnixNano e))"
proof -
  let ?w = "of_nat (length ns) :: 16 word"
  have "unat ?w = length ns" using assms by (simp add: unat_of_nat)
  moreover have "take 8 (ttlKey e ns k) = PutUint64 (UnixNano e)"
    "take 2 (drop 8 (ttlKey e ns k)) = PutUint16 ?w" "drop 10 (ttlKey e ns k) = ns @ k"
    by (simp_all add: ttlKey_def)
  moreover have "drop (10 + length ns) (ttlKey e ns k) = k"
    by (simp add: ttlKey_def)
  ultimately show ?thesis by (simp add: parseTTLKey_def Let_def)
qed

lemma ttlKey_inject:
  assumes "ttlKey e ns k = ttlKey e' ns' k'" and "length ns < 65536" and "length ns' < 65536"
  shows "ns = ns' \<and> k = k'"
  using parse_ttlKey [OF assms(2), of e k] parse_ttlKey [OF assms(3), of e' k'] assms(1) by simp

lemma rec_ok_length: "rec_ok E x b \<Longrightarrow> length (fst x) < 65536"
  using validNamespace_length by (fastforce simp: rec_ok_def)

lemma idx_mem: "z \<in> idx E x b \<Longrightarrow> \<exists>e. z = ttlKey e (fst x) (snd x)"
  unfolding idx_def by (auto split: option.splits if_splits)

lemma idx_disjoint:
  assumes "x \<noteq> y" and "length (fst x) < 65536" and "length (fst y) < 65536"
  shows "idx E x b \<inter> idx E y c = {}"
proof -
  have False if "z \<in> idx E x b" "z \<in> idx E y c" for z
  proof -
    have "fst x = fst y \<and> snd x = snd y"
      using idx_mem [OF that(1)] idx_mem [OF that(2)] ttlKey_inject assms(2,3) by metis
    with assms(1) show False by (simp add: prod_eq_iff)
  qed
  then show ?thesis by blast
qed

lemma idx_None [simp]: "idx E x None = {}"
  by (simp add: idx_def)

lemma UN_idx_upd:
  assumes "\<And>y b. m y = Some b \<Longrightarrow> length (fst y) < 65536" and "length (fst x) < 65536"
  shows "(\<Union>y. idx E y ((m(x := o')) y)) = (\<Union>y. idx E y (m y)) - idx E x (m x) \<union> idx E x o'"
proof -
  have "idx E y (m y) \<inter> idx E x (m x) = {}" if "y \<noteq> x" for y
    using that assms idx_disjoint [of y x E "m y" "m x"] by (cases "m y") auto
  then have "z \<notin> idx E x (m x)" if "y \<noteq> x" "z \<in> idx E y (m y)" for y z using that by blast
  then show ?thesis by (auto split: if_splits)
qed

section \<open>Abstract operations keep the invariant\<close>

lemma rec_size_nonneg [simp]: "0 \<le> rec_size x b"
  by (simp add: rec_size_def sizeOf_def)

lemma acct_used_nonneg: "acct a \<Longrightarrow> 0 \<le> used a"
  by (auto simp: acct_def intro!: map_total_nonneg)

lemma acct_upd:
  assumes "acct a" and "recs a' = (recs a)(x \<mapsto> b)"
    and "used a' = clamp0 (used a - old_size a x + rec_size x b)"
    and "kcount a' = clamp0 (if recs a x = None then kcount a + 1 else kcount a)"
  shows "acct a'" and "used a' = used a - old_size a x + rec_size x b"
proof -
  have fin: "finite (dom (recs a))" using assms(1) by (simp add: acct_def)
  have tot: "map_total rec_size ((recs a)(x \<mapsto> b)) = used a - old_size a x + rec_size x b"
    using assms(1) map_total_upd_new [OF fin, of x rec_size b] map_total_upd_old [OF fin, of x _ rec_size b]
    by (cases "recs a x") (auto simp: acct_def old_size_def)
  have "0 \<le> map_total rec_size ((recs a)(x \<mapsto> b))" by (rule map_total_nonneg) simp
  then show u: "used a' = used a - old_size a x + rec_size x b"
    using tot assms(3) by (simp add: clamp0_def)
  have "kcount a' = int (card (dom ((recs a)(x \<mapsto> b))))"
    using assms(1,4) fin card_dom_upd_new [OF fin, of x b] card_dom_upd_old [of "recs a" x _ b]
    by (cases "recs a x") (auto simp: acct_def clamp0_def simp del: dom_fun_upd fun_upd_apply)
  then show "acct a'" using fin assms(2) u tot by (simp add: acct_def)
qed

lemma acct_del:
  assumes "acct a" and "recs a x = Some b" and "recs a' = (recs a)(x := None)"
    and "used a' = used a - rec_size x b" and "kcount a' = kcount a - 1"
  shows "acct a'"
proof -
  have fin: "finite (dom (recs a))" using assms(1) by (simp add: acct_def)
  then have "finite (dom ((recs a)(x := None)))" by simp
  then show ?thesis
    using assms map_total_remove [OF fin assms(2), of rec_size] card_dom_del [OF fin assms(2)] fin
    by (simp add: acct_def del: dom_fun_upd)
qed

lemma kv_inv_length: "kv_inv E a \<Longrightarrow> recs a y = Some c \<Longrightarrow> length (fst y) < 65536"
  unfolding kv_inv_def using rec_ok_length by blast

lemma kv_inv_ttls: "kv_inv E a \<Longrightarrow> ttls a = (\<Union>y. idx E y (recs a y))"
  by (simp add: kv_inv_def)

lemma spec_put_inv:
  assumes "kv_inv E a" and "spec_put E x r b a = Some a'" and "rec_ok E x b" and "gobDecode E b = Some r"
  shows "kv_inv E a'"
proof -
  have a': "recs a' = (recs a)(x \<mapsto> b)" "used a' = clamp0 (used a - old_size a x + rec_size x b)"
    "kcount a' = clamp0 (if recs a x = None then kcount a + 1 else kcount a)"
    "ttls a' = ttls a - idx E x (recs a x) \<union> idx E x (Some b)"
    "used a - old_size a x + rec_size x b \<le> MaxBytesPerTenant"
    "(if recs a x = None then kcount a + 1 else kcount a) \<le> MaxKeysPerTenant"
    using assms(2,4) by (auto simp: spec_put_def Let_def idx_def split: if_splits)
  have "acct a" using assms(1) by (simp add: kv_inv_def)
  note acct = acct_upd [OF this a'(1,2,3)]
  have "kcount a' \<le> MaxKeysPerTenant" using a'(3,6) by (simp add: clamp0_def MaxKeysPerTenant_def)
  moreover have "ttls a' = (\<Union>y. idx E y (recs a' y))"
    unfolding a'(1,4) kv_inv_ttls [OF assms(1)]
    by (rule UN_idx_upd [symmetric, OF kv_inv_length [OF assms(1)] rec_ok_length [OF assms(3)]])
  ultimately show ?thesis
    using assms(1,3) acct a'(1,5) by (auto simp: kv_inv_def)
qed

lemma spec_delete_inv:
  assumes "kv_inv E a"
  shows "kv_inv E (spec_delete E x a)"
proof (cases "recs a x")
  case None
  then show ?thesis using assms by (simp add: spec_delete_def)
next
  case (Some b)
  let ?a = "spec_delete E x a"
  have acct: "acct a" using assms by (simp add: kv_inv_def)
  have fin: "finite (dom (recs a))" using acct by (simp add: acct_def)
  have "0 \<le> used a - rec_size x b" "0 \<le> kcount a - 1"
    using acct map_total_remove [OF fin Some, of rec_size] card_dom_del [OF fin Some]
      map_total_nonneg [of "(recs a)(x := None)" rec_size]
    by (auto simp: acct_def simp del: dom_fun_upd)
  then have f: "recs ?a = (recs a)(x := None)" "used ?a = used a - rec_size x b" "kcount ?a = kcount a - 1"
    "ttls ?a = ttls a - idx E x (recs a x)"
    using Some by (auto simp: spec_delete_def clamp0_def old_size_def)
  have "acct ?a" by (rule acct_del [OF acct Some f(1,2,3)])
  moreover have "used ?a \<le> MaxBytesPerTenant" "kcount ?a \<le> MaxKeysPerTenant"
    using assms f(2,3) rec_size_nonneg [of x b] by (auto simp: kv_inv_def simp del: rec_size_nonneg)
  moreover have "ttls ?a = (\<Union>y. idx E y (recs ?a y))"
    unfolding f(1,4) kv_inv_ttls [OF assms]
    using UN_idx_upd [OF kv_inv_length [OF assms] kv_inv_length [OF assms Some], where o' = None and E = E]
    by (simp only: idx_None Un_empty_right)
  ultimately show ?thesis using assms f(1) by (auto simp: kv_inv_def)
qed

section \<open>The sweep\<close>

text \<open>
  \<open>due_ok\<close> says a collected entry is still accurate: it is an index entry of an
  instant not after \<open>now\<close>, and a dead record at its key has that instant as expiry.
  Records written after the clock reading are live, so the condition survives
  whatever other operations commit between the two transactions of the sweep.
\<close>

definition due_ok :: "codec \<Rightarrow> time \<Rightarrow> kvabs \<Rightarrow> due \<Rightarrow> bool" where
  "due_ok E now a d \<longleftrightarrow> length (d_ns d) < 65536 \<and> (\<exists>e. d_ttlK d = ttlKey e (d_ns d) (d_key d) \<and>
     0 \<le> e \<and> e < 2 ^ 63 \<and> e \<le> now \<and>
     (\<forall>b. recs a (d_ns d, d_key d) = Some b \<and> \<not> live E now b \<longrightarrow>
        (\<exists>r. gobDecode E b = Some r \<and> ExpiresAt r = e)))"

definition dead :: "codec \<Rightarrow> time \<Rightarrow> bytes option \<Rightarrow> bool" where
  "dead E now b = (case b of None \<Rightarrow> False | Some v \<Rightarrow> \<not> live E now v)"

lemma dead_None [simp]: "\<not> dead E now None"
  by (simp add: dead_def)

lemma IsZero_range: "0 \<le> e \<Longrightarrow> \<not> IsZero e"
  by (auto simp: IsZero_def zero_time_def)

lemma ttlKey_time_inject:
  assumes "ttlKey e ns k = ttlKey e' ns k" and "0 \<le> e" "e < 2 ^ 63" "0 \<le> e'" "e' < 2 ^ 63"
  shows "e = e'"
proof -
  have "take 8 (ttlKey e ns k) = take 8 (ttlKey e' ns k)" using assms(1) by simp
  then have "UnixNano e = UnixNano e'" by (simp add: ttlKey_def)
  then have "sint (UnixNano e) = sint (UnixNano e')" by simp
  then show ?thesis using assms(2-5) by (simp add: UnixNano_def sint_word_of_int64)
qed

lemma rec_ok_idx:
  assumes "rec_ok E x b" and "gobDecode E b = Some r" and "\<not> IsZero (ExpiresAt r)"
  shows "idx E x (Some b) = {ttlKey (ExpiresAt r) (fst x) (snd x)}" "0 \<le> ExpiresAt r" "ExpiresAt r < 2 ^ 63"
  using assms by (auto simp: rec_ok_def idx_def)

text \<open>Dropping the entry of an accurate item touches no index entry of a record that stays.\<close>

lemma due_entry_dead:
  assumes "kv_inv E a" and "due_ok E now a d" and "recs a (d_ns d, d_key d) = Some b" and "\<not> live E now b"
  shows "idx E (d_ns d, d_key d) (Some b) = {d_ttlK d}"
proof -
  obtain e r where e: "d_ttlK d = ttlKey e (d_ns d) (d_key d)" "0 \<le> e" "gobDecode E b = Some r" "ExpiresAt r = e"
    using assms by (auto simp: due_ok_def)
  then show ?thesis using IsZero_range [of e] by (simp add: idx_def)
qed

lemma due_entry_other:
  assumes inv: "kv_inv E a" and d: "due_ok E now a d" and y: "recs a y = Some c"
    and keep: "y \<noteq> (d_ns d, d_key d) \<or> live E now c"
  shows "d_ttlK d \<notin> idx E y (Some c)"
proof
  assume mem: "d_ttlK d \<in> idx E y (Some c)"
  obtain e where e: "d_ttlK d = ttlKey e (d_ns d) (d_key d)" "0 \<le> e" "e < 2 ^ 63" "e \<le> now" "length (d_ns d) < 65536"
    using d by (auto simp: due_ok_def)
  obtain r where r: "gobDecode E c = Some r" "\<not> IsZero (ExpiresAt r)" "d_ttlK d = ttlKey (ExpiresAt r) (fst y) (snd y)"
    using mem by (auto simp: idx_def split: option.splits if_splits)
  have ok: "rec_ok E y c" using inv y unfolding kv_inv_def by blast
  have "d_ns d = fst y \<and> d_key d = snd y"
    using ttlKey_inject [of e "d_ns d" "d_key d" "ExpiresAt r" "fst y" "snd y"] e(1,5) r(3) rec_ok_length [OF ok] by simp
  moreover then have "e = ExpiresAt r"
    using e r(3) rec_ok_idx [OF ok r(1,2)] ttlKey_time_inject [of e "fst y" "snd y" "ExpiresAt r"] by simp
  ultimately show False using keep e(4) r by (auto simp: live_def)
qed

lemma sweep_one_cases:
  assumes "kv_inv E a"
  shows "sweep_one E now d (a, n) =
    (if dead E now (recs a (d_ns d, d_key d))
     then (a\<lparr>recs := (recs a)((d_ns d, d_key d) := None), ttls := ttls a - {d_ttlK d},
            used := used a - rec_size (d_ns d, d_key d) (the (recs a (d_ns d, d_key d))), kcount := kcount a - 1\<rparr>, n + 1)
     else (a\<lparr>ttls := ttls a - {d_ttlK d}\<rparr>, n))"
proof (cases "recs a (d_ns d, d_key d)")
  case None
  then show ?thesis by (simp add: sweep_one_def dead_def Let_def)
next
  case (Some b)
  then have "rec_ok E (d_ns d, d_key d) b" using assms by (auto simp: kv_inv_def)
  then have "d_key d \<noteq> []" by (simp add: rec_ok_def)
  then show ?thesis using Some by (simp add: sweep_one_def dead_def Let_def)
qed

lemma sweep_one_inv:
  assumes inv: "kv_inv E a" and d: "due_ok E now a d"
  shows "kv_inv E (fst (sweep_one E now d (a, n)))"
proof (cases "recs a (d_ns d, d_key d)")
  case None
  have "d_ttlK d \<notin> idx E y (recs a y)" for y
    using due_entry_other [OF inv d, of y] None by (cases "recs a y") fastforce+
  then have "ttls a - {d_ttlK d} = ttls a" using kv_inv_ttls [OF inv] by auto
  then have "fst (sweep_one E now d (a, n)) = a"
    using None sweep_one_cases [OF inv, of now d n] by (simp add: dead_def)
  then show ?thesis using inv by simp
next
  case (Some b)
  let ?x = "(d_ns d, d_key d)"
  let ?a = "fst (sweep_one E now d (a, n))"
  show ?thesis
  proof (cases "live E now b")
    case True
    have "d_ttlK d \<notin> idx E y (recs a y)" for y
      using due_entry_other [OF inv d, of y] True Some by (cases "recs a y") fastforce+
    then have "ttls a - {d_ttlK d} = ttls a" using kv_inv_ttls [OF inv] by auto
    then have "fst (sweep_one E now d (a, n)) = a"
      using Some True sweep_one_cases [OF inv, of now d n] by (simp add: dead_def)
    then show ?thesis using inv by simp
  next
    case False
    then have f: "recs ?a = (recs a)(?x := None)" "used ?a = used a - rec_size ?x b" "kcount ?a = kcount a - 1"
      "ttls ?a = ttls a - idx E ?x (recs a ?x)"
      using Some sweep_one_cases [OF inv, of now d n] due_entry_dead [OF inv d Some] by (auto simp: dead_def)
    have "acct ?a" by (rule acct_del [OF _ Some f(1,2,3)]) (use inv in \<open>simp add: kv_inv_def\<close>)
    moreover have "used ?a \<le> MaxBytesPerTenant" "kcount ?a \<le> MaxKeysPerTenant"
      using inv f(2,3) rec_size_nonneg [of ?x b] by (auto simp: kv_inv_def simp del: rec_size_nonneg)
    moreover have "ttls ?a = (\<Union>y. idx E y (recs ?a y))"
      unfolding f(1,4) kv_inv_ttls [OF inv]
      using UN_idx_upd [OF kv_inv_length [OF inv] kv_inv_length [OF inv Some], where o' = None and E = E]
      by (simp only: idx_None Un_empty_right)
    ultimately show ?thesis using inv f(1) by (auto simp: kv_inv_def)
  qed
qed

definition due_keys :: "due list \<Rightarrow> (string \<times> string) set" where
  "due_keys ds = (\<lambda>d. (d_ns d, d_key d)) ` set ds"

lemma due_ok_mono:
  "due_ok E now a d \<Longrightarrow> (\<And>x b. recs a' x = Some b \<Longrightarrow> \<not> live E now b \<Longrightarrow> recs a x = Some b) \<Longrightarrow> due_ok E now a' d"
  unfolding due_ok_def by blast

lemma spec_sweep_inv:
  assumes "kv_inv E a" and "\<forall>d \<in> set ds. due_ok E now a d"
  shows "kv_inv E (fst (spec_sweep E now ds (a, n))) \<and>
    recs (fst (spec_sweep E now ds (a, n))) =
      (\<lambda>x. if x \<in> due_keys ds \<and> dead E now (recs a x) then None else recs a x)"
  using assms
proof (induction ds arbitrary: a n)
  case Nil
  then show ?case by (simp add: spec_sweep_def due_keys_def)
next
  case (Cons d ds)
  obtain a1 n1 where st: "sweep_one E now d (a, n) = (a1, n1)" by fastforce
  have inv1: "kv_inv E a1" using sweep_one_inv [OF Cons.prems(1), of now d n] Cons.prems(2) st by simp
  have recs1: "recs a1 = (\<lambda>x. if x = (d_ns d, d_key d) \<and> dead E now (recs a x) then None else recs a x)"
    using sweep_one_cases [OF Cons.prems(1), of now d n] st by (auto split: if_splits)
  have "\<forall>d' \<in> set ds. due_ok E now a1 d'"
  proof
    fix d' assume "d' \<in> set ds"
    then have "due_ok E now a d'" using Cons.prems(2) by simp
    then show "due_ok E now a1 d'" by (rule due_ok_mono) (simp add: recs1 split: if_splits)
  qed
  note IH = Cons.IH [OF inv1 this, of n1]
  have "spec_sweep E now (d # ds) (a, n) = spec_sweep E now ds (a1, n1)" by (simp add: spec_sweep_def st)
  moreover have "(if x \<in> due_keys ds \<and> dead E now (recs a1 x) then None else recs a1 x) =
      (if x \<in> due_keys (d # ds) \<and> dead E now (recs a x) then None else recs a x)" for x
  proof -
    have "x \<in> due_keys (d # ds) \<longleftrightarrow> x = (d_ns d, d_key d) \<or> x \<in> due_keys ds" by (simp add: due_keys_def)
    then show ?thesis unfolding recs1 by auto
  qed
  ultimately show ?case using IH by simp
qed

section \<open>Collecting the due entries\<close>

lemma ttlKey_mono:
  assumes "ttlKey e ns k < ttlKey e' ns' k'" and "0 \<le> e" "e < 2 ^ 63" "0 \<le> e'" "e' < 2 ^ 63"
  shows "e \<le> e'"
proof -
  have "UnixNano e \<le> UnixNano e'"
    using assms(1) by (auto simp: ttlKey_def append_less_same_length PutUint64_less)
  then show ?thesis
    using word_of_int64_less [of e' e] assms(2-5) by (auto simp: UnixNano_def not_less [symmetric])
qed

lemma collectDue_sound:
  "d \<in> set (collectDue n kvs) \<Longrightarrow> \<exists>v. (d_ttlK d, v) \<in> set kvs \<and>
    (parseTTLKey (d_ttlK d) = None \<or> (\<exists>ts. parseTTLKey (d_ttlK d) = Some (d_ns d, d_key d, ts) \<and> ts \<le> n))"
proof (induction kvs)
  case (Cons kv kvs)
  obtain k v where kv: "kv = (k, v)" by fastforce
  show ?case
  proof (cases "d \<in> set (collectDue n kvs)")
    case True
    then show ?thesis using Cons.IH by auto
  next
    case False
    then show ?thesis using Cons.prems kv by (cases "parseTTLKey k") (auto split: if_splits)
  qed
qed simp

lemma collectDue_complete:
  assumes "sorted_wrt (<) (map fst kvs)" and "(k, v) \<in> set kvs" and "parseTTLKey k = Some (ns, key, ts)" and "ts \<le> n"
    and "\<And>k1 ns1 key1 ts1. k1 \<in> fst ` set kvs \<Longrightarrow> k1 < k \<Longrightarrow> parseTTLKey k1 = Some (ns1, key1, ts1) \<Longrightarrow> ts1 \<le> ts"
  shows "\<lparr>d_ns = ns, d_key = key, d_ttlK = k\<rparr> \<in> set (collectDue n kvs)"
  using assms
proof (induction n kvs rule: collectDue.induct)
  case (2 n k0 v0 kvs)
  show ?case
  proof (cases "(k, v) = (k0, v0)")
    case True
    then show ?thesis using 2(5,6) by simp
  next
    case False
    then have mem: "(k, v) \<in> set kvs" using 2(4) by auto
    then have lt: "k0 < k" using 2(3) by force
    have srt: "sorted_wrt (<) (map fst kvs)" using 2(3) by simp
    have le: "\<And>k1 ns1 key1 ts1. k1 \<in> fst ` set kvs \<Longrightarrow> k1 < k \<Longrightarrow> parseTTLKey k1 = Some (ns1, key1, ts1) \<Longrightarrow> ts1 \<le> ts"
      by (rule 2(7)) auto
    show ?thesis
    proof (cases "parseTTLKey k0")
      case None
      then show ?thesis using 2(1) [OF None srt mem 2(5,6) le] by simp
    next
      case (Some p)
      obtain a b c where p: "p = (a, b, c)" by (cases p)
      then have "\<not> c > n" using 2(7) [of k0] Some lt 2(6) by fastforce
      then have "\<lparr>d_ns = ns, d_key = key, d_ttlK = k\<rparr> \<in> set (collectDue n kvs)"
        by (rule 2(2) [OF Some p [symmetric] refl _ srt mem 2(5,6)]) (rule le)
      then show ?thesis using Some p \<open>\<not> c > n\<close> by simp
    qed
  qed
qed simp

context kv_backend
begin

lemma index_entry:
  assumes "R t a" and "kv_inv E a" and "(k, v) \<in> set (b_Cursor B t ttlBucket)"
  obtains e x b r where "k = ttlKey e (fst x) (snd x)" "0 \<le> e" "e < 2 ^ 63" "length (fst x) < 65536"
    "recs a x = Some b" "gobDecode E b = Some r" "ExpiresAt r = e"
proof -
  obtain m where m: "view t ttlBucket = Some m" "ttls a = dom m" using assms(1) by (auto simp: R_def kv_wf_def kv_abs_def)
  then have "k \<in> ttls a" using Cursor_mem [OF m(1)] assms(3) by auto
  then obtain x where kx: "k \<in> idx E x (recs a x)" unfolding kv_inv_ttls [OF assms(2)] by blast
  then obtain b where x: "recs a x = Some b" "k \<in> idx E x (Some b)" by (cases "recs a x") auto
  then have ok: "rec_ok E x b" using assms(2) unfolding kv_inv_def by blast
  then obtain r where "gobDecode E b = Some r" "\<not> IsZero (ExpiresAt r)" "k = ttlKey (ExpiresAt r) (fst x) (snd x)"
    using x(2) by (auto simp: idx_def rec_ok_def split: if_splits)
  with that x ok rec_ok_idx [OF ok] rec_ok_length [OF ok] show ?thesis by metis
qed

lemma collect_sound:
  assumes "R t a" and "kv_inv E a" and "0 \<le> now" "now < 2 ^ 63" and "d \<in> set (sweepCollect B now t)"
  shows "due_ok E now a d"
proof -
  have "d \<in> set (collectDue now (b_Cursor B t ttlBucket))"
    using assms(3-5) by (auto simp: sweepCollect_def UnixNano_def sint_word_of_int64 split: if_splits)
  then obtain v where v: "(d_ttlK d, v) \<in> set (b_Cursor B t ttlBucket)"
    "parseTTLKey (d_ttlK d) = None \<or> (\<exists>ts. parseTTLKey (d_ttlK d) = Some (d_ns d, d_key d, ts) \<and> ts \<le> now)"
    using collectDue_sound by blast
  obtain e x b r where e: "d_ttlK d = ttlKey e (fst x) (snd x)" "0 \<le> e" "e < 2 ^ 63" "length (fst x) < 65536"
    "recs a x = Some b" "gobDecode E b = Some r" "ExpiresAt r = e"
    by (rule index_entry [OF assms(1,2) v(1)])
  then have "fst x = d_ns d" "snd x = d_key d" "e \<le> now"
    using v(2) parse_ttlKey [OF e(4), of e "snd x"] by (auto simp: UnixNano_def sint_word_of_int64)
  then show ?thesis using e by (cases x) (auto simp: due_ok_def)
qed

lemma collect_exact:
  assumes "R t a" and "kv_inv E a" and "0 \<le> now" "now < 2 ^ 63" and "dead E now (recs a x)"
  shows "x \<in> due_keys (sweepCollect B now t)"
proof -
  obtain b where b: "recs a x = Some b" "\<not> live E now b" using assms(5) by (auto simp: dead_def split: option.splits)
  have ok: "rec_ok E x b" using assms(2) b(1) unfolding kv_inv_def by blast
  then obtain r where r: "gobDecode E b = Some r" "\<not> IsZero (ExpiresAt r)" "ExpiresAt r \<le> now"
    using b(2) by (auto simp: rec_ok_def live_def)
  let ?k = "ttlKey (ExpiresAt r) (fst x) (snd x)"
  note rng = rec_ok_idx [OF ok r(1,2)]
  obtain m where m: "view t ttlBucket = Some m" "ttls a = dom m" using assms(1) by (auto simp: R_def kv_wf_def kv_abs_def)
  have "?k \<in> ttls a" unfolding kv_inv_ttls [OF assms(2)] using rng(1) b(1) by (intro UN_I [of x]) auto
  then obtain v where v: "(?k, v) \<in> set (b_Cursor B t ttlBucket)" using m Cursor_mem [OF m(1)] by auto
  have pk: "parseTTLKey ?k = Some (fst x, snd x, ExpiresAt r)"
    using parse_ttlKey [OF rec_ok_length [OF ok]] rng(2,3) by (simp add: UnixNano_def sint_word_of_int64)
  have "\<lparr>d_ns = fst x, d_key = snd x, d_ttlK = ?k\<rparr> \<in> set (collectDue now (b_Cursor B t ttlBucket))"
  proof (rule collectDue_complete [OF Cursor_sorted [OF m(1)] v pk r(3)])
    fix k1 ns1 key1 ts1
    assume k1: "k1 \<in> fst ` set (b_Cursor B t ttlBucket)" "k1 < ?k" "parseTTLKey k1 = Some (ns1, key1, ts1)"
    then obtain v1 where "(k1, v1) \<in> set (b_Cursor B t ttlBucket)" by auto
    then obtain e y where e: "k1 = ttlKey e (fst y) (snd y)" "0 \<le> e" "e < 2 ^ 63" "length (fst y) < 65536"
      by (rule index_entry [OF assms(1,2)])
    then have "ts1 = e" using k1(3) parse_ttlKey [OF e(4), of e "snd y"] by (simp add: UnixNano_def sint_word_of_int64)
    then show "ts1 \<le> ExpiresAt r" using ttlKey_mono k1(2) e rng(2,3) by blast
  qed
  then have "\<lparr>d_ns = fst x, d_key = snd x, d_ttlK = ?k\<rparr> \<in> set (sweepCollect B now t)"
    using assms(3,4) m(1) by (simp add: sweepCollect_def Bucket_iff UnixNano_def sint_word_of_int64)
  then show ?thesis by (force simp: due_keys_def)
qed

end

end
