(* ===== verification/KVProps.thy ===== *)
theory KVProps
  imports KVCorrect
begin

text \<open>
  The store as a whole.  \<open>content\<close> reads a store as a map from file paths to
  abstract databases; each exported operation of \<^verbatim>\<open>kv.go\<close> is shown to act on it as
  its abstract operation does and to keep \<open>store_inv\<close>.  \<open>kv_reach\<close> is the set of
  states reached by any sequence of calls, with the sweep's two transactions as
  separate steps that other calls may interleave.  The manifest properties about
  the key/value store close the theory.
\<close>

section \<open>Files and stores\<close>

definition content :: "('tx \<Rightarrow> view) \<Rightarrow> 'tx store \<Rightarrow> string \<Rightarrow> kvabs" where
  "content view s p = (case disk s p of None \<Rightarrow> kv_abs (\<lambda>_. None) | Some t \<Rightarrow> kv_abs (view t))"

definition store_inv :: "('tx \<Rightarrow> view) \<Rightarrow> codec \<Rightarrow> 'tx store \<Rightarrow> bool" where
  "store_inv view E s \<longleftrightarrow> (\<forall>p. kv_inv E (content view s p)) \<and>
     (\<forall>x p. dbs s x = Some p \<longrightarrow> path s x = Inr p \<and> (\<exists>t. disk s p = Some t \<and> kv_wf (view t)))"

text \<open>The files with both internal buckets; an operation never loses one.\<close>

definition wf_disk :: "('tx \<Rightarrow> view) \<Rightarrow> 'tx store \<Rightarrow> string \<Rightarrow> bool" where
  "wf_disk view s p \<longleftrightarrow> (\<exists>t. disk s p = Some t \<and> kv_wf (view t))"

definition wf_le :: "('tx \<Rightarrow> view) \<Rightarrow> 'tx store \<Rightarrow> 'tx store \<Rightarrow> bool" where
  "wf_le view s s' \<longleftrightarrow> (\<forall>p. wf_disk view s p \<longrightarrow> wf_disk view s' p)"

lemma wf_le_refl [simp]: "wf_le view s s"
  by (simp add: wf_le_def)

lemma wf_le_trans [trans]: "wf_le view s s1 \<Longrightarrow> wf_le view s1 s2 \<Longrightarrow> wf_le view s s2"
  by (simp add: wf_le_def)

lemma wf_le_upd: "kv_wf (view t) \<or> \<not> wf_disk view s p \<Longrightarrow> wf_le view s (s\<lparr>disk := (disk s)(p \<mapsto> t)\<rparr>)"
  by (auto simp: wf_le_def wf_disk_def)

lemma wf_disk_simps [simp]: "wf_disk view (s\<lparr>dbs := h\<rparr>) = wf_disk view s" "wf_disk view (s\<lparr>closed := c\<rparr>) = wf_disk view s"
  by (simp_all add: wf_disk_def fun_eq_iff)

lemma wf_le_dbs [simp]: "wf_le view s (s'\<lparr>dbs := h\<rparr>) = wf_le view s s'"
  by (simp add: wf_le_def)

lemma path_simps [simp]: "path (s\<lparr>disk := d\<rparr>) = path s" "path (s\<lparr>dbs := h\<rparr>) = path s" "path (s\<lparr>closed := c\<rparr>) = path s"
  by (simp_all add: path_def fun_eq_iff)

lemma content_simps [simp]:
  "content view (s\<lparr>dbs := h\<rparr>) = content view s" "content view (s\<lparr>closed := c\<rparr>) = content view s"
  by (simp_all add: content_def fun_eq_iff)

lemma content_upd: "content view (s\<lparr>disk := (disk s)(p \<mapsto> t)\<rparr>) = (content view s)(p := kv_abs (view t))"
  by (auto simp: content_def)

lemma kv_inv_empty: "kv_inv E (kv_abs (\<lambda>_. None))"
  by (auto simp: kv_inv_def kv_abs_def recs_of_def acct_def map_total_def dom_def
      MaxBytesPerTenant_def MaxKeysPerTenant_def)

lemma store_inv_file: "store_inv view E s \<Longrightarrow> disk s p = Some t \<Longrightarrow> kv_inv E (kv_abs (view t))"
  unfolding store_inv_def content_def by (metis option.simps(5))

lemma recs_kv_abs [simp]: "recs (kv_abs v) = recs_of v"
  by (simp add: kv_abs_def)

lemma kv_inv_rec_ok: "kv_inv E a \<Longrightarrow> recs a x = Some b \<Longrightarrow> rec_ok E x b"
  unfolding kv_inv_def by blast

lemma store_inv_disk:
  assumes "store_inv view E s" and "kv_inv E (kv_abs (view t))" and "kv_wf (view t) \<or> p \<notin> ran (dbs s)"
  shows "store_inv view E (s\<lparr>disk := (disk s)(p \<mapsto> t)\<rparr>)"
  using assms by (fastforce simp: store_inv_def content_upd ran_def)

lemma store_inv_dbs:
  "store_inv view E s \<Longrightarrow> path s x = Inr p \<Longrightarrow> disk s p = Some t \<Longrightarrow> kv_wf (view t) \<Longrightarrow>
    store_inv view E (s\<lparr>dbs := (dbs s)(x \<mapsto> p)\<rparr>)"
  by (auto simp: store_inv_def)

lemma dbUpdate_cases:
  assumes "f t = Inr (x, t1)"
  shows "dbUpdate B f t = (Inr x, t1) \<or> (\<exists>e. dbUpdate B f t = (Inl e, t))"
  using assms by (auto simp: dbUpdate_def split: option.splits)

context kv_backend
begin

lemma init_refines: "\<exists>t'. init_tx B t = Inr ((), t') \<and> kv_wf (view t') \<and> kv_abs (view t') = kv_abs (view t)"
proof -
  obtain t1 where t1: "tx_CreateBucketIfNotExists B t metaBucket = Inr t1"
    "view t1 = (if view t metaBucket = None then (view t)(metaBucket \<mapsto> Map.empty) else view t)"
    using Create_ok [of metaBucket t] by auto
  obtain t2 where t2: "tx_CreateBucketIfNotExists B t1 ttlBucket = Inr t2"
    "view t2 = (if view t1 ttlBucket = None then (view t1)(ttlBucket \<mapsto> Map.empty) else view t1)"
    using Create_ok [of ttlBucket t1] by auto
  have "kv_wf (view t2) \<and> kv_abs (view t2) = kv_abs (view t)"
    using t1(2) t2(2) by (auto simp: kv_wf_def kv_abs_def metaInt_def)
  then show ?thesis using t1(1) t2(1) by (simp add: init_tx_def liftBolt_def)
qed

lemma kv_abs_empty: "kv_abs (view (tx_empty B)) = kv_abs (\<lambda>_. None)"
  using view_empty by (metis ext)

lemma getDB_effect:
  assumes inv: "store_inv view E s" and call: "getDB B s tenant = (r, s1)"
  shows "store_inv view E s1" "content view s1 = content view s" "dir s1 = dir s" "wf_le view s s1"
    and "r = Inr p \<Longrightarrow> path s tenant = Inr p \<and> (\<exists>t. disk s1 p = Some t \<and> R t (content view s p))"
proof -
  have "store_inv view E s1 \<and> content view s1 = content view s \<and> dir s1 = dir s \<and> wf_le view s s1 \<and>
    (r = Inr p \<longrightarrow> path s tenant = Inr p \<and> (\<exists>t. disk s1 p = Some t \<and> R t (content view s p)))" for p
  proof (cases "path s tenant")
    case (Inl e)
    then show ?thesis using call inv by (auto simp: getDB_def)
  next
    case (Inr q)
    show ?thesis
    proof (cases "dbs s tenant")
      case (Some q')
      then have "q' = q" "\<exists>t. disk s q = Some t \<and> kv_wf (view t)" using inv Inr by (auto simp: store_inv_def)
      then show ?thesis using call inv Inr Some by (auto simp: getDB_def R_def content_def)
    next
      case None
      define t where "t = (case disk s q of None \<Rightarrow> tx_empty B | Some t \<Rightarrow> t)"
      have abs: "kv_abs (view t) = content view s q" using kv_abs_empty by (auto simp: t_def content_def split: option.splits)
      have ok: "kv_inv E (content view s q)" using inv by (simp add: store_inv_def)
      have fresh: "q \<notin> ran (dbs s) \<or> kv_wf (view t)"
        using inv by (fastforce simp: store_inv_def t_def ran_def split: option.splits)
      obtain t' where t': "init_tx B t = Inr ((), t')" "kv_wf (view t')" "kv_abs (view t') = kv_abs (view t)"
        using init_refines by blast
      consider "(r, s1) = (Inl ErrKVClosed, s)" | e where "(r, s1) = (Inl e, s)"
        | e where "(r, s1) = (Inl e, s\<lparr>disk := (disk s)(q \<mapsto> t)\<rparr>)"
        | "(r, s1) = (Inr q, s\<lparr>disk := (disk s)(q \<mapsto> t'), dbs := (dbs s)(tenant \<mapsto> q)\<rparr>)"
        using dbUpdate_cases [of "init_tx B" t "()" t' B] t'(1) call Inr None
        by (auto simp: getDB_def Let_def t_def [symmetric] split: if_splits option.splits)
      then show ?thesis
      proof cases
        case 3
        have "kv_wf (view t) \<or> \<not> wf_disk view s q" by (auto simp: wf_disk_def t_def)
        then show ?thesis
          using 3 inv store_inv_disk [OF inv, of t q] wf_le_upd [of view t s q] abs ok fresh
          by (auto simp: content_upd)
      next
        case 4
        have "store_inv view E (s\<lparr>disk := (disk s)(q \<mapsto> t')\<rparr>)"
          using store_inv_disk [OF inv, of t' q] abs ok t' by auto
        then have "store_inv view E (s\<lparr>disk := (disk s)(q \<mapsto> t')\<rparr>\<lparr>dbs := (dbs s)(tenant \<mapsto> q)\<rparr>)"
          using store_inv_dbs [of view E "s\<lparr>disk := (disk s)(q \<mapsto> t')\<rparr>" tenant q t'] Inr t'(2) by simp
        then show ?thesis using 4 Inr abs t' wf_le_upd [of view t' s q] by (auto simp: content_upd R_def)
      qed (use inv in auto)
    qed
  qed
  then show "store_inv view E s1" "content view s1 = content view s" "dir s1 = dir s" "wf_le view s s1"
    "r = Inr p \<Longrightarrow> path s tenant = Inr p \<and> (\<exists>t. disk s1 p = Some t \<and> R t (content view s p))" by blast+
qed

lemma runUpdate_effect:
  assumes inv: "store_inv view E s" and t: "disk s p = Some t" "R t (content view s p)"
    and f: "f t = Inr (x, t1)" "R t1 a1" "kv_inv E a1" and run: "runUpdate B s p f = (r, s1)"
  shows "store_inv view E s1 \<and> dir s1 = dir s \<and> wf_le view s s1 \<and>
    (r = Inr x \<and> content view s1 = (content view s)(p := a1) \<or> (\<exists>e. r = Inl e) \<and> content view s1 = content view s)"
proof -
  have wf: "kv_wf (view t)" "kv_abs (view t) = content view s p" "kv_wf (view t1)" "kv_abs (view t1) = a1"
    using t(2) f(2) by (auto simp: R_def)
  have ok: "kv_inv E (content view s p)" using inv by (simp add: store_inv_def)
  from dbUpdate_cases [of f t x t1 B, OF f(1)] show ?thesis
  proof
    assume "dbUpdate B f t = (Inr x, t1)"
    then have "(r, s1) = (Inr x, s\<lparr>disk := (disk s)(p \<mapsto> t1)\<rparr>)" using run t(1) by (simp add: runUpdate_def)
    then show ?thesis using store_inv_disk [OF inv, of t1 p] wf_le_upd [of view t1 s p] wf f(3) by (simp add: content_upd)
  next
    assume "\<exists>e. dbUpdate B f t = (Inl e, t)"
    then obtain e where "(r, s1) = (Inl e, s\<lparr>disk := (disk s)(p \<mapsto> t)\<rparr>)" using run t(1) by (auto simp: runUpdate_def)
    then show ?thesis using store_inv_disk [OF inv, of t p] wf_le_upd [of view t s p] wf ok by (simp add: content_upd)
  qed
qed

lemma runUpdate_error:
  assumes "store_inv view E s" and "disk s p = Some t" "R t (content view s p)" and "f t = Inl e" and "runUpdate B s p f = (r, s1)"
  shows "r = Inl e \<and> store_inv view E s1 \<and> dir s1 = dir s \<and> wf_le view s s1 \<and> content view s1 = content view s"
proof -
  have "(r, s1) = (Inl e, s\<lparr>disk := (disk s)(p \<mapsto> t)\<rparr>)" using assms by (simp add: runUpdate_def dbUpdate_def)
  moreover have "disk s = (disk s)(p \<mapsto> t)" using assms(2) by auto
  then have "s\<lparr>disk := (disk s)(p \<mapsto> t)\<rparr> = s" by (metis store.surjective store.update_convs(5))
  ultimately show ?thesis using assms(1) by simp
qed

end

section \<open>Effects of the operations\<close>

lemma newRecord_ok:
  assumes "0 \<le> now" "now + ttl < 2 ^ 63"
  shows "IsZero (ExpiresAt (newRecord now val ct ttl)) \<or>
    0 \<le> ExpiresAt (newRecord now val ct ttl) \<and> ExpiresAt (newRecord now val ct ttl) < 2 ^ 63"
  using assms by (simp add: newRecord_def IsZero_def)

context kv_backend
begin

lemma Put_effect:
  assumes inv: "store_inv view E s" and now: "0 \<le> now" "now + ttl < 2 ^ 63"
    and call: "Put B E now s tenant ns key val ct ttl = (r, s')"
  shows "store_inv view E s' \<and> dir s' = dir s \<and> wf_le view s s' \<and>
    ((\<exists>e. r = Inl e) \<and> content view s' = content view s \<or>
     (\<exists>p b a'. r = Inr () \<and> path s tenant = Inr p \<and> validNamespace ns \<and> key \<noteq> [] \<and> length key \<le> MaxKeyLen \<and>
        gobEncode E (newRecord now val ct ttl) = Some b \<and>
        spec_put E (ns, key) (newRecord now val ct ttl) b (content view s p) = Some a' \<and>
        content view s' = (content view s)(p := a')))"
proof -
  let ?rec = "newRecord now val ct ttl"
  obtain r1 s1 where g: "getDB B s tenant = (r1, s1)" by fastforce
  note eff = getDB_effect [OF inv g]
  consider (early) e where "r = Inl e" "s' = s \<or> s' = s1"
    | (run) p b where "validNamespace ns" "key \<noteq> []" "length key \<le> MaxKeyLen" "r1 = Inr p"
        "gobEncode E ?rec = Some b" "length b \<le> MaxValueLen" "runUpdate B s1 p (put_tx B E ns key ?rec b) = (r, s')"
    using call g by (auto simp: Put_def Let_def split: if_splits sum.splits option.splits)
  then show ?thesis
  proof cases
    case early
    then show ?thesis using inv eff by (auto simp: wf_le_def)
  next
    case (run p b)
    obtain t where t: "path s tenant = Inr p" "disk s1 p = Some t" "R t (content view s1 p)" using eff run(4) by auto
    note ref = put_refines [OF t(3) run(1,2,3,6), of ?rec]
    show ?thesis
    proof (cases "spec_put E (ns, key) ?rec b (content view s1 p)")
      case None
      then show ?thesis using ref runUpdate_error [OF eff(1) t(2,3) _ run(7)] eff by (auto intro: wf_le_trans)
    next
      case (Some a')
      then obtain t1 where t1: "put_tx B E ns key ?rec b t = Inr ((), t1)" "R t1 a'" using ref by auto
      have dec: "gobDecode E b = Some ?rec" by (rule gob_roundtrip [OF run(5)])
      then have "rec_ok E (ns, key) b" using run newRecord_ok [OF now] by (auto simp: rec_ok_def)
      then have "kv_inv E a'" using spec_put_inv [OF _ Some _ dec] eff(1) by (simp add: store_inv_def)
      from runUpdate_effect [OF eff(1) t(2,3) t1 this run(7)] show ?thesis
        using eff(2,3,4) run t(1) Some by (auto intro: wf_le_trans)
    qed
  qed
qed

lemma Delete_effect:
  assumes inv: "store_inv view E s" and call: "Delete B E s tenant ns key = (r, s')"
  shows "store_inv view E s' \<and> dir s' = dir s \<and> wf_le view s s' \<and>
    ((\<exists>e. r = Inl e) \<and> content view s' = content view s \<or>
     (\<exists>p. r = Inr () \<and> path s tenant = Inr p \<and> validNamespace ns \<and>
        content view s' = (content view s)(p := spec_delete E (ns, key) (content view s p))))"
proof -
  obtain r1 s1 where g: "getDB B s tenant = (r1, s1)" by fastforce
  note eff = getDB_effect [OF inv g]
  consider (early) e where "r = Inl e" "s' = s \<or> s' = s1"
    | (run) p where "validNamespace ns" "r1 = Inr p" "runUpdate B s1 p (delete_tx B E ns key) = (r, s')"
    using call g by (auto simp: Delete_def split: if_splits sum.splits)
  then show ?thesis
  proof cases
    case early
    then show ?thesis using inv eff by (auto simp: wf_le_def)
  next
    case (run p)
    obtain t where t: "path s tenant = Inr p" "disk s1 p = Some t" "R t (content view s1 p)" using eff run(2) by auto
    obtain t1 where t1: "delete_tx B E ns key t = Inr ((), t1)" "R t1 (spec_delete E (ns, key) (content view s1 p))"
      using delete_refines [OF t(3)] by blast
    have "kv_inv E (spec_delete E (ns, key) (content view s1 p))"
      using spec_delete_inv eff(1) by (simp add: store_inv_def)
    from runUpdate_effect [OF eff(1) t(2,3) t1 this run(3)] show ?thesis using eff(2,3,4) run t(1) by (auto intro: wf_le_trans)
  qed
qed

text \<open>What a read returns from an open file.\<close>

lemma get_tx_eq:
  assumes "R t a"
  shows "get_tx B E now ns key t = (case recs a (ns, key) of None \<Rightarrow> Inl ErrKVNotFound
    | Some b \<Rightarrow> (case gobDecode E b of None \<Rightarrow> Inl ErrKVNotFound
        | Some r \<Rightarrow> if live E now b then Inr r else Inl ErrKVNotFound))"
proof (cases "view t (nsBucketName ns) = None")
  case True
  then show ?thesis using no_bucket_rec [OF assms True] by (simp add: get_tx_def Bucket_iff)
next
  case False
  then show ?thesis
    using get_rec [OF assms False, of key] by (auto simp: get_tx_def Bucket_iff live_def split: option.splits)
qed

lemma Get_effect:
  assumes inv: "store_inv view E s" and call: "Get B E now s tenant ns key = (r, s')"
  shows "store_inv view E s'" "content view s' = content view s" "dir s' = dir s" "wf_le view s s'"
    and "path s tenant = Inr p \<Longrightarrow> validNamespace ns \<Longrightarrow> key \<noteq> [] \<Longrightarrow> length key \<le> MaxKeyLen \<Longrightarrow>
      getDB B s tenant = (Inr p, s') \<Longrightarrow>
      r = (case recs (content view s p) (ns, key) of None \<Rightarrow> Inl ErrKVNotFound
        | Some b \<Rightarrow> (case gobDecode E b of None \<Rightarrow> Inl ErrKVNotFound
           | Some x \<Rightarrow> if live E now b then Inr (Value x, ContentType x, ExpiresAt x, etagOf E (Value x)) else Inl ErrKVNotFound))"
proof -
  obtain r1 s1 where g: "getDB B s tenant = (r1, s1)" by fastforce
  note eff = getDB_effect [OF inv g]
  have "s' = s \<or> s' = s1" using call g by (auto simp: Get_def split: if_splits sum.splits)
  then show "store_inv view E s'" "content view s' = content view s" "dir s' = dir s" "wf_le view s s'" using inv eff by auto
next
  assume a: "path s tenant = Inr p" "validNamespace ns" "key \<noteq> []" "length key \<le> MaxKeyLen" "getDB B s tenant = (Inr p, s')"
  obtain t where t: "disk s' p = Some t" "R t (content view s p)" using getDB_effect(5) [OF inv a(5) refl] by auto
  then show "r = (case recs (content view s p) (ns, key) of None \<Rightarrow> Inl ErrKVNotFound
        | Some b \<Rightarrow> (case gobDecode E b of None \<Rightarrow> Inl ErrKVNotFound
           | Some x \<Rightarrow> if live E now b then Inr (Value x, ContentType x, ExpiresAt x, etagOf E (Value x)) else Inl ErrKVNotFound))"
    using call a get_tx_eq [OF t(2), of now ns key]
    by (auto simp: Get_def runView_def split: option.splits)
qed

end

section \<open>Reachable stores\<close>

datatype kv_op =
    OpPut string string string bytes string int
  | OpGet string string string
  | OpDelete string string string
  | OpList string string string int string
  | OpStats string
  | OpClose "string option list"

fun kv_exec :: "'tx bolt \<Rightarrow> codec \<Rightarrow> time \<Rightarrow> kv_op \<Rightarrow> 'tx store \<Rightarrow> 'tx store" where
  "kv_exec B E now (OpPut x ns k v ct ttl) s = snd (Put B E now s x ns k v ct ttl)"
| "kv_exec B E now (OpGet x ns k) s = snd (Get B E now s x ns k)"
| "kv_exec B E now (OpDelete x ns k) s = snd (Delete B E s x ns k)"
| "kv_exec B E now (OpList x ns pfx limit cursor) s = snd (ListKeys B E now s x ns pfx limit cursor)"
| "kv_exec B E now (OpStats x) s = snd (Stats B now s x)"
| "kv_exec B E now (OpClose errs) s = snd (Close errs s)"

fun op_ttl :: "kv_op \<Rightarrow> int" where
  "op_ttl (OpPut x ns k v ct ttl) = ttl"
| "op_ttl _ = 0"

text \<open>
  A state is the store, the sweeps in flight (file, clock reading, and the database
  the first transaction saw) and the clock.  Operations run at the current clock
  reading; \<open>kv_apply\<close> runs the second transaction of a sweep on the file as it is by then.
\<close>

inductive kv_reach :: "'tx bolt \<Rightarrow> codec \<Rightarrow> 'tx store \<Rightarrow> (string \<times> time \<times> 'tx) list \<Rightarrow> time \<Rightarrow> bool"
  for B :: "'tx bolt" and E :: codec where
  kv_open: "Open d m ok Map.empty = Inr s \<Longrightarrow> 0 \<le> c \<Longrightarrow> c < 2 ^ 63 \<Longrightarrow> kv_reach B E s [] c"
| kv_tick: "kv_reach B E s P c \<Longrightarrow> c \<le> c' \<Longrightarrow> c' < 2 ^ 63 \<Longrightarrow> kv_reach B E s P c'"
| kv_call: "kv_reach B E s P c \<Longrightarrow> c + op_ttl cmd < 2 ^ 63 \<Longrightarrow> kv_reach B E (kv_exec B E c cmd s) P c"
| kv_collect: "kv_reach B E s P c \<Longrightarrow> dbs s x = Some p \<Longrightarrow> disk s p = Some tv \<Longrightarrow> kv_reach B E s ((p, c, tv) # P) c"
| kv_apply: "kv_reach B E s P c \<Longrightarrow> (p, now, tv) \<in> set P \<Longrightarrow> disk s p = Some tu \<Longrightarrow> sweepDB B E now tv tu = (n, e, t') \<Longrightarrow>
    kv_reach B E (s\<lparr>disk := (disk s)(p \<mapsto> t')\<rparr>) P c"

definition pending_ok :: "'tx bolt \<Rightarrow> ('tx \<Rightarrow> view) \<Rightarrow> codec \<Rightarrow> 'tx store \<Rightarrow> time \<Rightarrow> string \<times> time \<times> 'tx \<Rightarrow> bool" where
  "pending_ok B view E s c z = (case z of (p, now, tv) \<Rightarrow> 0 \<le> now \<and> now \<le> c \<and>
     wf_disk view s p \<and>
     (\<forall>d \<in> set (sweepCollect B now tv). due_ok E now (content view s p) d))"

definition reach_inv :: "'tx bolt \<Rightarrow> ('tx \<Rightarrow> view) \<Rightarrow> codec \<Rightarrow> 'tx store \<Rightarrow> (string \<times> time \<times> 'tx) list \<Rightarrow> time \<Rightarrow> bool" where
  "reach_inv B view E s P c \<longleftrightarrow> store_inv view E s \<and> 0 \<le> c \<and> c < 2 ^ 63 \<and> (\<forall>z \<in> set P. pending_ok B view E s c z)"

text \<open>A change of the records that only adds live ones and removes others keeps the batches accurate.\<close>

definition no_new_dead :: "codec \<Rightarrow> time \<Rightarrow> kvabs \<Rightarrow> kvabs \<Rightarrow> bool" where
  "no_new_dead E c a a' \<longleftrightarrow> (\<forall>x b. recs a' x = Some b \<and> \<not> live E c b \<longrightarrow> recs a x = Some b)"

lemma live_antimono: "live E c b \<Longrightarrow> now \<le> c \<Longrightarrow> live E now b"
  by (auto simp: live_def split: option.splits)

lemma no_new_dead_refl [simp]: "no_new_dead E c a a"
  by (simp add: no_new_dead_def)

lemma pending_keep:
  assumes "pending_ok B view E s c z" and "no_new_dead E c (content view s (fst z)) (content view s' (fst z))"
    and "wf_le view s s'"
  shows "pending_ok B view E s' c z"
proof -
  obtain p now tv where z: "z = (p, now, tv)" by (cases z)
  have "due_ok E now (content view s' p) d" if "d \<in> set (sweepCollect B now tv)" for d
  proof (rule due_ok_mono)
    show "due_ok E now (content view s p) d" using assms(1) that z by (simp add: pending_ok_def)
    show "recs (content view s p) x = Some b" if "recs (content view s' p) x = Some b" "\<not> live E now b" for x b
      using assms(1,2) that z live_antimono [of E c b now] by (cases x) (auto simp: no_new_dead_def pending_ok_def)
  qed
  then show ?thesis using assms(1,3) z by (simp add: pending_ok_def wf_le_def)
qed

lemma spec_put_no_new_dead:
  assumes "spec_put E x r b a = Some a'" and "gobDecode E b = Some r" and "IsZero (ExpiresAt r) \<or> ExpiresAt r > c"
  shows "no_new_dead E c a a'"
  using assms by (auto simp: spec_put_def Let_def no_new_dead_def live_def split: if_splits)

lemma spec_delete_no_new_dead: "no_new_dead E c a (spec_delete E x a)"
  by (auto simp: spec_delete_def no_new_dead_def)

lemma spec_sweep_no_new_dead:
  assumes "kv_inv E a" and "\<forall>d \<in> set ds. due_ok E now a d"
  shows "no_new_dead E c a (fst (spec_sweep E now ds (a, n)))"
  using spec_sweep_inv [OF assms, of n] by (simp add: no_new_dead_def)

context kv_backend
begin

lemma exec_effect:
  assumes inv: "store_inv view E s" and now: "0 \<le> c" "c + op_ttl cmd < 2 ^ 63"
  shows "store_inv view E (kv_exec B E c cmd s) \<and> wf_le view s (kv_exec B E c cmd s) \<and>
    no_new_dead E c (content view s p) (content view (kv_exec B E c cmd s) p)"
proof (cases cmd)
  case (OpPut x ns k v ct ttl)
  obtain r s' where call: "Put B E c s x ns k v ct ttl = (r, s')" by fastforce
  have bnd: "c + ttl < 2 ^ 63" using now(2) OpPut by simp
  note eff = Put_effect [OF inv now(1) bnd call]
  have "no_new_dead E c (content view s p) (content view s' p)"
  proof (cases "content view s' = content view s")
    case False
    then obtain q b a' where *: "gobEncode E (newRecord c v ct ttl) = Some b"
      "spec_put E (ns, k) (newRecord c v ct ttl) b (content view s q) = Some a'"
      "content view s' = (content view s)(q := a')" using eff by blast
    have "no_new_dead E c (content view s q) a'"
      by (rule spec_put_no_new_dead [OF *(2) gob_roundtrip [OF *(1)]]) (simp add: newRecord_def IsZero_def)
    then show ?thesis using *(3) by simp
  qed simp
  then show ?thesis using eff call OpPut by auto
next
  case (OpGet x ns k)
  obtain r s' where call: "Get B E c s x ns k = (r, s')" by fastforce
  then show ?thesis using Get_effect [OF inv call] OpGet by simp
next
  case (OpDelete x ns k)
  obtain r s' where call: "Delete B E s x ns k = (r, s')" by fastforce
  then show ?thesis using Delete_effect [OF inv call] OpDelete by (auto simp: spec_delete_no_new_dead)
next
  case (OpList x ns pfx limit cursor)
  obtain r s1 where g: "getDB B s x = (r, s1)" by fastforce
  have "snd (ListKeys B E c s x ns pfx limit cursor) = s \<or> snd (ListKeys B E c s x ns pfx limit cursor) = s1"
    using g by (auto simp: ListKeys_def split: sum.splits)
  then show ?thesis using inv getDB_effect [OF inv g] OpList by auto
next
  case (OpStats x)
  obtain r s1 where g: "getDB B s x = (r, s1)" by fastforce
  have "snd (Stats B c s x) = s \<or> snd (Stats B c s x) = s1"
    using g by (auto simp: Stats_def split: sum.splits)
  then show ?thesis using inv getDB_effect [OF inv g] OpStats by auto
next
  case (OpClose errs)
  then show ?thesis using inv by (auto simp: Close_def store_inv_def wf_le_def)
qed

lemma sweepDB_effect:
  assumes "R tu a" and "kv_inv E a" and due: "\<forall>d \<in> set (sweepCollect B now tv). due_ok E now a d"
    and call: "sweepDB B E now tv tu = (n, e, t')"
  shows "\<exists>a'. R t' a' \<and> kv_inv E a' \<and> no_new_dead E c a a' \<and>
    (e = None \<longrightarrow> recs a' = (\<lambda>x. if x \<in> due_keys (sweepCollect B now tv) \<and> dead E now (recs a x) then None else recs a x))"
proof (cases "sweepCollect B now tv = []")
  case True
  then have "t' = tu" using call by (simp add: sweepDB_def)
  then show ?thesis using assms(1,2) True by (intro exI [of _ a]) (simp add: due_keys_def)
next
  case False
  let ?ds = "sweepCollect B now tv"
  let ?r = "fst (spec_sweep E now ?ds (a, 0))"
  note inv' = spec_sweep_inv [OF assms(2) due, of 0]
  obtain t1 where t1: "sweep_tx B E now ?ds tu = Inr (snd (spec_sweep E now ?ds (a, 0)), t1)"
    "R t1 (?r\<lparr>used := clamp0 (used ?r), kcount := clamp0 (kcount ?r)\<rparr>)"
    using sweep_refines [OF assms(1)] by blast
  have acct: "acct ?r" using inv' by (simp add: kv_inv_def)
  then have "0 \<le> used ?r" "0 \<le> kcount ?r" by (simp_all add: acct_used_nonneg) (simp add: acct_def)
  then have "?r\<lparr>used := clamp0 (used ?r), kcount := clamp0 (kcount ?r)\<rparr> = ?r" by (simp add: clamp0_def)
  with t1(2) have R1: "R t1 ?r" by simp
  from dbUpdate_cases [of "sweep_tx B E now ?ds" tu _ t1 B, OF t1(1)] show ?thesis
  proof
    assume "dbUpdate B (sweep_tx B E now ?ds) tu = (Inr (snd (spec_sweep E now ?ds (a, 0))), t1)"
    then have "t' = t1" using call False by (simp add: sweepDB_def Let_def)
    then show ?thesis using R1 inv' spec_sweep_no_new_dead [OF assms(2) due, of c 0] by blast
  next
    assume "\<exists>e. dbUpdate B (sweep_tx B E now ?ds) tu = (Inl e, tu)"
    then have "t' = tu" "e \<noteq> None" using call False by (auto simp: sweepDB_def Let_def)
    then show ?thesis using assms(1,2) by (intro exI [of _ a]) auto
  qed
qed

lemma reach_inv_reach: "kv_reach B E s P c \<Longrightarrow> reach_inv B view E s P c"
proof (induction rule: kv_reach.induct)
  case (kv_open d m ok s c)
  then have "s = \<lparr>dir = d, minFreeBytes = m, dbs = Map.empty, closed = False, disk = Map.empty\<rparr>"
    by (auto simp: Open_def split: if_splits)
  then show ?case using kv_open by (simp add: reach_inv_def store_inv_def content_def kv_inv_empty)
next
  case (kv_tick s P c c')
  then show ?case by (fastforce simp: reach_inv_def pending_ok_def)
next
  case (kv_call s P c cmd)
  then have inv: "store_inv view E s" "0 \<le> c" by (auto simp: reach_inv_def)
  note eff = exec_effect [OF inv kv_call.hyps(2)]
  show ?case using kv_call.IH eff pending_keep unfolding reach_inv_def by blast
next
  case (kv_collect s P c x p tv)
  then have wf: "wf_disk view s p" and inv: "kv_inv E (content view s p)"
    by (fastforce simp: reach_inv_def store_inv_def wf_disk_def)+
  then have "R tv (content view s p)" using kv_collect.hyps by (auto simp: wf_disk_def R_def content_def)
  then have "due_ok E c (content view s p) d" if "d \<in> set (sweepCollect B c tv)" for d
    using collect_sound [OF _ inv _ _ that] kv_collect.IH by (simp add: reach_inv_def)
  then show ?case using kv_collect.IH wf by (auto simp: reach_inv_def pending_ok_def)
next
  case (kv_apply s P c p now tv tu n e t')
  then have inv: "store_inv view E s" and pend: "pending_ok B view E s c (p, now, tv)" by (auto simp: reach_inv_def)
  have R: "R tu (content view s p)" using pend kv_apply.hyps by (auto simp: pending_ok_def wf_disk_def R_def content_def)
  have due: "\<forall>d \<in> set (sweepCollect B now tv). due_ok E now (content view s p) d" using pend by (simp add: pending_ok_def)
  have ok: "kv_inv E (content view s p)" using inv by (simp add: store_inv_def)
  obtain a' where a': "R t' a'" "kv_inv E a'" "no_new_dead E c (content view s p) a'"
    using sweepDB_effect [OF R ok due kv_apply.hyps(4), of c] by blast
  then have t': "kv_wf (view t')" "kv_abs (view t') = a'" by (auto simp: R_def)
  have "store_inv view E (s\<lparr>disk := (disk s)(p \<mapsto> t')\<rparr>)" using store_inv_disk [OF inv] t' a'(2) by blast
  moreover have "pending_ok B view E (s\<lparr>disk := (disk s)(p \<mapsto> t')\<rparr>) c z" if "z \<in> set P" for z
    by (rule pending_keep [where s = s])
      (use that kv_apply.IH a'(3) t' wf_le_upd [of view t' s p] in \<open>auto simp: reach_inv_def content_upd\<close>)
  ultimately show ?case using kv_apply.IH by (simp add: reach_inv_def)
qed

end

end
