(* ===== verification/KVPaging.thy ===== *)
theory KVPaging
  imports KVProps
begin

text \<open>
  Listing: the loop of \<^verbatim>\<open>KVStore.List\<close> on a bucket's cursor, and the client's loop
  that follows the returned cursors until one is blank.  The pages, put together,
  are the live keys with the prefix, each once and in byte order.
\<close>

section \<open>Prefixes and byte order\<close>

lemma prefix_le: "prefix p (x :: string) \<Longrightarrow> p \<le> x"
proof (induction p arbitrary: x)
  case Nil
  then show ?case by simp
next
  case (Cons c p)
  then show ?case by (cases x) (auto simp: less_eq_list_code)
qed

lemma prefix_convex: "p \<le> x \<Longrightarrow> x \<le> y \<Longrightarrow> prefix p (y :: string) \<Longrightarrow> prefix p x"
proof (induction p arbitrary: x y)
  case (Cons c p)
  then show ?case
    by (cases x; cases y) (auto simp: less_eq_list_code)
qed simp

definition live_kvs :: "codec \<Rightarrow> time \<Rightarrow> bytes \<Rightarrow> (bytes \<times> bytes) list \<Rightarrow> (bytes \<times> bytes) list" where
  "live_kvs E now pfx kvs = filter (\<lambda>kv. prefix pfx (fst kv) \<and> \<not> expiredRec E now (snd kv)) kvs"

definition live_keys :: "codec \<Rightarrow> time \<Rightarrow> bytes \<Rightarrow> (bytes \<times> bytes) list \<Rightarrow> string list" where
  "live_keys E now pfx kvs = map fst (live_kvs E now pfx kvs)"

section \<open>One page\<close>

lemma list_loop_eq:
  assumes "length keys \<le> limit" and "0 < limit"
  shows "list_loop E now pfx limit kvs keys =
    (let M = map fst (filter (\<lambda>kv. \<not> expiredRec E now (snd kv)) (takeWhile (\<lambda>kv. prefix pfx (fst kv)) kvs));
         K = keys @ take (limit - length keys) M in
     (K, if length keys + length M \<le> limit then [] else encodeCursor (last K)))"
  using assms
proof (induction E now pfx limit kvs keys rule: list_loop.induct)
  case (2 E now pfx limit k v kvs keys)
  show ?case
  proof (cases "pfx \<noteq> [] \<and> \<not> prefix pfx k")
    case True
    then show ?thesis using 2 by simp
  next
    case False
    then have p: "prefix pfx k" by auto
    show ?thesis
    proof (cases "expiredRec E now v")
      case True
      then show ?thesis using 2(1) [OF False True 2(3,4)] False p by simp
    next
      case live: False
      show ?thesis
      proof (cases "length keys = limit")
        case True
        then show ?thesis using live False p 2(4) by (simp add: Let_def)
      next
        case space: False
        then have lt: "length (keys @ [k]) \<le> limit" using 2(3) by simp
        have "take (limit - length keys) (k # M) = k # take (limit - length (keys @ [k])) M" for M
          using space 2(3) by (simp add: take_Cons')
        then show ?thesis using 2(2) [OF False live space lt 2(4)] live False p space by (simp add: Let_def)
      qed
    qed
  qed
qed (simp add: Let_def)

lemma sorted_split_filter:
  assumes "sorted_wrt (<) (map fst kvs)" and "\<And>a b. a < b \<Longrightarrow> P b \<Longrightarrow> Q a \<Longrightarrow> P a"
  shows "takeWhile (\<lambda>kv. P (fst kv)) (filter (\<lambda>kv. Q (fst kv)) kvs) = filter (\<lambda>kv. Q (fst kv) \<and> P (fst kv)) (kvs :: (string \<times> 'v) list)"
  using assms(1)
proof (induction kvs)
  case (Cons kv kvs)
  have none: "filter (\<lambda>kv. Q (fst kv) \<and> P (fst kv)) kvs = []" if "Q (fst kv)" "\<not> P (fst kv)"
    using that Cons.prems assms(2) [of "fst kv"] by (auto simp: filter_empty_conv)
  show ?case using Cons none by auto
qed simp

lemma dropWhile_filter_sorted:
  "sorted_wrt (<) (map fst kvs) \<Longrightarrow> dropWhile (\<lambda>kv. fst kv < st) kvs = filter (\<lambda>kv. st \<le> fst kv) (kvs :: (string \<times> 'v) list)"
proof (induction kvs)
  case (Cons kv kvs)
  have "filter (\<lambda>kv. st \<le> fst kv) kvs = kvs" if "st \<le> fst kv"
    using that Cons.prems by (force simp: filter_id_conv)
  then show ?case using Cons by (auto simp: not_less)
qed simp

lemma list_start_None:
  assumes "sorted_wrt (<) (map fst kvs)"
  shows "takeWhile (\<lambda>kv. prefix pfx (fst kv)) (list_start None pfx kvs) = filter (\<lambda>kv. prefix pfx (fst kv)) kvs"
proof (cases "pfx = []")
  case False
  then have "list_start None pfx kvs = filter (\<lambda>kv. pfx \<le> fst kv) kvs"
    using dropWhile_filter_sorted [OF assms] by (simp add: list_start_def c_Seek_def)
  also have "takeWhile (\<lambda>kv. prefix pfx (fst kv)) \<dots> = filter (\<lambda>kv. pfx \<le> fst kv \<and> prefix pfx (fst kv)) kvs"
    by (rule sorted_split_filter [OF assms]) (rule prefix_convex, assumption, erule less_imp_le)
  finally show ?thesis using prefix_le by (metis (mono_tags, lifting) filter_cong)
qed (simp add: list_start_def takeWhile_eq_all_conv)

lemma list_start_Some:
  assumes "sorted_wrt (<) (map fst kvs)" and "prefix pfx st"
  shows "takeWhile (\<lambda>kv. prefix pfx (fst kv)) (list_start (Some st) pfx kvs) =
    filter (\<lambda>kv. st < fst kv \<and> prefix pfx (fst kv)) kvs"
proof -
  have seek: "c_Seek st kvs = filter (\<lambda>kv. st \<le> fst kv) kvs"
    using dropWhile_filter_sorted [OF assms(1)] by (simp add: c_Seek_def)
  have "list_start (Some st) pfx kvs = filter (\<lambda>kv. st < fst kv) (c_Seek st kvs)"
  proof (cases "c_Seek st kvs")
    case (Cons kv r)
    have "st \<le> fst kv" using Cons seek by (metis (mono_tags, lifting) Cons_eq_filterD)
    have "sorted_wrt (<) (map fst (c_Seek st kvs))" unfolding seek using assms(1) by (simp add: sorted_wrt_filter sorted_wrt_map)
    then have "\<forall>x \<in> set r. st < fst x" using Cons \<open>st \<le> fst kv\<close> by auto
    then have "filter (\<lambda>kv. st < fst kv) r = r" by (simp add: filter_id_conv)
    then show ?thesis using Cons \<open>st \<le> fst kv\<close> by (cases kv) (auto simp: list_start_def)
  qed (simp add: list_start_def)
  also have "\<dots> = filter (\<lambda>kv. st < fst kv) kvs" unfolding seek by (auto intro: filter_cong)
  also have "takeWhile (\<lambda>kv. prefix pfx (fst kv)) \<dots> = filter (\<lambda>kv. st < fst kv \<and> prefix pfx (fst kv)) kvs"
  proof (rule sorted_split_filter [OF assms(1)])
    show "prefix pfx a" if "a < b" "prefix pfx b" "st < a" for a b
      using prefix_convex [of pfx a b] prefix_le [OF assms(2)] that by (meson less_imp_le order.trans)
  qed
  finally show ?thesis .
qed

lemma filter_greater_nth:
  "sorted_wrt (<) M \<Longrightarrow> n < length M \<Longrightarrow> filter (\<lambda>k. M ! n < k) M = drop (Suc n) (M :: string list)"
proof (induction M arbitrary: n)
  case (Cons m M)
  show ?case
  proof (cases n)
    case 0
    have "filter (\<lambda>k. m < k) M = M" using Cons.prems by (simp add: filter_id_conv)
    then show ?thesis using 0 by simp
  next
    case (Suc i)
    then have "m < M ! i" using Cons.prems by simp
    then have "\<not> M ! i < m" by (rule less_not_sym)
    then show ?thesis using Cons Suc by simp
  qed
qed simp

definition page_start :: "string list \<Rightarrow> nat \<Rightarrow> bytes option" where
  "page_start M n = (if n = 0 then None else Some (M ! (n - 1)))"

lemma sorted_live_keys: "sorted_wrt (<) (map fst kvs) \<Longrightarrow> sorted_wrt (<) (live_keys E now pfx kvs)"
  by (simp add: live_keys_def live_kvs_def sorted_wrt_map sorted_wrt_filter)

lemma page_at:
  assumes srt: "sorted_wrt (<) (map fst kvs)" and n: "n \<le> length (live_keys E now pfx kvs)" and lim: "0 < limit"
  shows "list_loop E now pfx limit (list_start (page_start (live_keys E now pfx kvs) n) pfx kvs) [] =
    (take limit (drop n (live_keys E now pfx kvs)),
     if length (live_keys E now pfx kvs) \<le> n + limit then [] else encodeCursor (live_keys E now pfx kvs ! (n + limit - 1)))"
proof -
  let ?M = "live_keys E now pfx kvs"
  let ?st = "page_start ?M n"
  have "map fst (filter (\<lambda>kv. \<not> expiredRec E now (snd kv)) (takeWhile (\<lambda>kv. prefix pfx (fst kv)) (list_start ?st pfx kvs))) = drop n ?M"
  proof (cases n)
    case 0
    then show ?thesis using list_start_None [OF srt, of pfx]
      by (auto simp: page_start_def live_keys_def live_kvs_def conj_commute intro!: arg_cong [where f = "map fst"] filter_cong)
  next
    case (Suc i)
    then have i: "i < length ?M" using n by simp
    then have "?M ! i \<in> set ?M" by (rule nth_mem)
    then have pm: "prefix pfx (?M ! i)" by (auto simp: live_keys_def live_kvs_def)
    have "map fst (filter (\<lambda>kv. \<not> expiredRec E now (snd kv)) (filter (\<lambda>kv. ?M ! i < fst kv \<and> prefix pfx (fst kv)) kvs)) =
        filter (\<lambda>k. ?M ! i < k) ?M"
      unfolding live_keys_def live_kvs_def filter_map comp_def filter_filter
      by (rule arg_cong [where f = "map fst"], rule filter_cong) auto
    also have "\<dots> = drop n ?M" using filter_greater_nth [OF sorted_live_keys [OF srt] i] Suc by simp
    finally show ?thesis using list_start_Some [OF srt pm] Suc by (simp add: page_start_def)
  qed
  moreover have "last (take limit (drop n ?M)) = ?M ! (n + limit - 1)" if "\<not> length ?M \<le> n + limit"
    using that lim by (simp add: last_conv_nth)
  ultimately show ?thesis using list_loop_eq [of "[]" limit E now pfx "list_start ?st pfx kvs"] lim n
    by (auto simp: Let_def)
qed

lemma cursor_roundtrip: "k \<noteq> [] \<Longrightarrow> decodeCursor (encodeCursor k) = Inr (Some k)"
  by (simp add: decodeCursor_def encodeCursor_def RawURL_roundtrip RawURL_Encode_Nil_iff)

lemma listLimit_pos: "0 < listLimit limit"
  by (simp add: listLimit_def)

section \<open>All pages\<close>

text \<open>A client that asks for pages until the returned cursor is blank; \<open>n\<close> bounds the requests.\<close>

fun list_all_pages :: "'tx bolt \<Rightarrow> codec \<Rightarrow> time \<Rightarrow> 'tx store \<Rightarrow> string \<Rightarrow> string \<Rightarrow> string \<Rightarrow> int \<Rightarrow> nat \<Rightarrow> string \<Rightarrow> string list option" where
  "list_all_pages B E now s x ns pfx limit 0 cursor = None"
| "list_all_pages B E now s x ns pfx limit (Suc n) cursor =
     (case ListKeys B E now s x ns pfx limit cursor of
        (Inl _, _) \<Rightarrow> None
      | (Inr (ks, next), s') \<Rightarrow>
          if next = [] then Some ks
          else map_option ((@) ks) (list_all_pages B E now s' x ns pfx limit n next))"

lemma pages_loop:
  assumes one: "\<And>n cursor. n \<le> length M \<Longrightarrow> decodeCursor cursor = Inr (page_start M n) \<Longrightarrow>
      ListKeys B E now s x ns pfx limit cursor =
        (Inr (take l (drop n M), if length M \<le> n + l then [] else encodeCursor (M ! (n + l - 1))), s)"
    and l: "0 < l" and M: "[] \<notin> set M"
    and n: "n \<le> length M" "length M < n + fuel" "decodeCursor cursor = Inr (page_start M n)"
  shows "list_all_pages B E now s x ns pfx limit fuel cursor = Some (drop n M)"
  using n
proof (induction fuel arbitrary: n cursor)
  case (Suc fuel)
  note page = one [OF Suc.prems(1,3)]
  show ?case
  proof (cases "length M \<le> n + l")
    case True
    then show ?thesis using page by simp
  next
    case False
    let ?k = "M ! (n + l - 1)"
    have "?k \<in> set M" using False l by (auto intro: nth_mem)
    then have k: "?k \<noteq> []" using M by auto
    then have "encodeCursor ?k \<noteq> []" by (simp add: encodeCursor_def RawURL_Encode_Nil_iff)
    moreover have "decodeCursor (encodeCursor ?k) = Inr (page_start M (n + l))"
      using cursor_roundtrip [OF k] l by (simp add: page_start_def)
    then have "list_all_pages B E now s x ns pfx limit fuel (encodeCursor ?k) = Some (drop (n + l) M)"
      using Suc.IH [of "n + l" "encodeCursor ?k"] Suc.prems False l by simp
    moreover have "take l (drop n M) @ drop (n + l) M = drop n M"
      by (metis add.commute append_take_drop_id drop_drop)
    ultimately show ?thesis using page False by simp
  qed
qed simp

context kv_backend
begin

lemma ListKeys_open:
  assumes "store_inv view E s" and "dbs s x = Some p" and "disk s p = Some t" and "validNamespace ns"
    and "decodeCursor cursor = Inr start"
  shows "ListKeys B E now s x ns pfx limit cursor =
    (if view t (nsBucketName ns) = None then Inr ([], [])
     else Inr (list_loop E now pfx (listLimit limit) (list_start start pfx (b_Cursor B t (nsBucketName ns))) []), s)"
proof -
  have "path s x = Inr p" using assms(1,2) by (auto simp: store_inv_def)
  then show ?thesis using assms by (simp add: ListKeys_def getDB_def runView_def Bucket_iff)
qed

lemma all_pages:
  assumes inv: "store_inv view E s" and h: "dbs s x = Some p" "disk s p = Some t" and ns: "validNamespace ns"
  shows "\<exists>M. sorted_wrt (<) M \<and> set M = {k. prefix pfx k \<and> (\<exists>b. recs_of (view t) (ns, k) = Some b \<and> live E now b)} \<and>
    (\<forall>fuel > length M. list_all_pages B E now s x ns pfx limit fuel [] = Some M)"
proof (cases "view t (nsBucketName ns)")
  case None
  have "list_all_pages B E now s x ns pfx limit fuel [] = Some []" if "fuel > 0" for fuel
    using that ListKeys_open [OF inv h ns, of "[]" None now pfx limit] None by (cases fuel) (auto simp: decodeCursor_def)
  then show ?thesis using None by (intro exI [of _ "[]"]) (simp add: recs_of_def)
next
  case (Some m)
  let ?kvs = "b_Cursor B t (nsBucketName ns)"
  let ?M = "live_keys E now pfx ?kvs"
  have ok: "rec_ok E (ns, k) b" if "recs_of (view t) (ns, k) = Some b" for k b
    using kv_inv_rec_ok [OF store_inv_file [OF inv h(2)]] that by simp
  have rec: "recs_of (view t) (ns, k) = m k" for k using Some by (simp add: recs_of_def)
  have lv: "\<not> expiredRec E now b \<longleftrightarrow> live E now b" if "m k = Some b" for k b
    using ok [of k b] that rec by (auto simp: rec_ok_def expiredRec_def live_def)
  have set: "set ?M = {k. prefix pfx k \<and> (\<exists>b. recs_of (view t) (ns, k) = Some b \<and> live E now b)}"
    using lv Cursor_mem [OF Some] by (force simp: live_keys_def live_kvs_def rec)
  have ne: "[] \<notin> set ?M" using ok unfolding set rec_ok_def by auto
  have srt: "sorted_wrt (<) (map fst ?kvs)" by (rule Cursor_sorted [OF Some])
  have "list_all_pages B E now s x ns pfx limit fuel [] = Some (drop 0 ?M)" if "fuel > length ?M" for fuel
  proof (rule pages_loop [where l = "listLimit limit"])
    fix n cursor assume "n \<le> length ?M" "decodeCursor cursor = Inr (page_start ?M n)"
    then show "ListKeys B E now s x ns pfx limit cursor =
        (Inr (take (listLimit limit) (drop n ?M),
          if length ?M \<le> n + listLimit limit then [] else encodeCursor (?M ! (n + listLimit limit - 1))), s)"
      using ListKeys_open [OF inv h ns, of cursor] page_at [OF srt, of n E now pfx "listLimit limit"] listLimit_pos Some
      by simp
  qed (use that listLimit_pos ne in \<open>auto simp: decodeCursor_def page_start_def\<close>)
  then show ?thesis using set sorted_live_keys [OF srt] by (intro exI [of _ ?M]) simp
qed

end

end
