(* ===== verification/KVTheorems.thy ===== *)
theory KVTheorems
  imports KVPaging "HOL-Library.Code_Target_Nat"
begin

text \<open>
  The properties of the key/value store, stated over the definitions of
  \<^verbatim>\<open>kv.go\<close> with the database and codec contracts as the hypothesis
  \<open>kv_backend\<close>.  \<open>ref_codec\<close> is a concrete record encoding that satisfies the
  contract; with \<open>mem_bolt\<close> it instantiates every property.
\<close>

section \<open>A concrete codec\<close>

definition encTime :: "time \<Rightarrow> bytes" where
  "encTime t = (if IsZero t then CHR ''z'' # replicate 8 CHR ''0'' else CHR ''t'' # PutUint64 (word_of_int t))"

definition decTime :: "bytes \<Rightarrow> time" where
  "decTime b = (if hd b = CHR ''z'' then zero_time else sint (Uint64 (tl b)))"

definition timeOk :: "time \<Rightarrow> bool" where
  "timeOk t \<longleftrightarrow> IsZero t \<or> - (2 ^ 63) \<le> t \<and> t < 2 ^ 63"

definition ref_codec :: codec where
  "ref_codec = \<lparr>
     gobEncode = (\<lambda>r. if timeOk (ExpiresAt r) \<and> timeOk (UpdatedAt r) \<and> length (ContentType r) < 65536
        then Some (encTime (ExpiresAt r) @ encTime (UpdatedAt r) @ PutUint16 (of_nat (length (ContentType r))) @ ContentType r @ Value r)
        else None),
     gobDecode = (\<lambda>b. if length b < 20 then None
        else let n = unat (Uint16 (take 2 (drop 18 b))) in
          Some \<lparr>Value = drop (20 + n) b, ContentType = take n (drop 20 b),
                ExpiresAt = decTime (take 9 b), UpdatedAt = decTime (take 9 (drop 9 b))\<rparr>),
     sha256 = (\<lambda>b. replicate 32 (char_of (length b)))\<rparr>"

lemma length_encTime [simp]: "length (encTime t) = 9"
  by (simp add: encTime_def)

lemma decTime_encTime: "timeOk t \<Longrightarrow> decTime (encTime t) = t"
  by (auto simp: decTime_def encTime_def timeOk_def sint_word_of_int64 IsZero_def)

lemma ref_codec_roundtrip: "gobEncode ref_codec r = Some b \<Longrightarrow> gobDecode ref_codec b = Some r"
  by (cases r) (auto simp: ref_codec_def Let_def unat_of_nat decTime_encTime split: if_splits)

interpretation ref_kv: kv_backend mem_bolt mem_view ref_codec
  by unfold_locales (rule ref_codec_roundtrip)

section \<open>Handles after an operation\<close>

lemma getDB_handle: "getDB B s x = (Inr p, s1) \<Longrightarrow> dbs s1 x = Some p"
  by (auto simp: getDB_def Let_def split: sum.splits option.splits if_splits prod.splits)

lemma runUpdate_dbs: "runUpdate B s p f = (r, s') \<Longrightarrow> dbs s' = dbs s"
  by (auto simp: runUpdate_def split: option.splits prod.splits)

lemma path_cong: "dir s' = dir s \<Longrightarrow> path s' x = path s x"
  by (simp add: path_def)

lemma Put_handle: "Put B E now s x ns k v ct ttl = (Inr (), s') \<Longrightarrow> \<exists>p. dbs s' x = Some p"
  by (auto simp: Put_def Let_def split: if_splits prod.splits sum.splits option.splits dest!: getDB_handle runUpdate_dbs)

lemma Delete_handle: "Delete B E s x ns k = (Inr (), s') \<Longrightarrow> \<exists>p. dbs s' x = Some p"
  by (auto simp: Delete_def split: if_splits prod.splits sum.splits dest!: getDB_handle runUpdate_dbs)

context kv_backend
begin

lemma getDB_open:
  "store_inv view E s \<Longrightarrow> dbs s x = Some p \<Longrightarrow> getDB B s x = (Inr p, s)"
  by (auto simp: getDB_def store_inv_def)

lemma Get_open:
  assumes inv: "store_inv view E s" and h: "dbs s x = Some p"
    and ok: "validNamespace ns" "k \<noteq> []" "length k \<le> MaxKeyLen"
  shows "fst (Get B E now s x ns k) = (case recs (content view s p) (ns, k) of None \<Rightarrow> Inl ErrKVNotFound
        | Some b \<Rightarrow> (case gobDecode E b of None \<Rightarrow> Inl ErrKVNotFound
           | Some r \<Rightarrow> if live E now b then Inr (Value r, ContentType r, ExpiresAt r, etagOf E (Value r)) else Inl ErrKVNotFound))"
proof -
  obtain r s' where call: "Get B E now s x ns k = (r, s')" by fastforce
  have g: "getDB B s x = (Inr p, s)" by (rule getDB_open [OF inv h])
  then have "s' = s" using call ok by (auto simp: Get_def)
  moreover have "path s x = Inr p" using inv h by (auto simp: store_inv_def)
  ultimately show ?thesis using Get_effect(5) [OF inv call _ ok] g call by simp
qed

lemma reach_store_inv: "kv_reach B E s P c \<Longrightarrow> store_inv view E s \<and> 0 \<le> c \<and> c < 2 ^ 63"
  using reach_inv_reach by (auto simp: reach_inv_def)

lemma put_then_get:
  assumes reach: "kv_reach B E s P c" and bnd: "c + ttl < 2 ^ 63"
    and put: "Put B E c s x ns k v ct ttl = (Inr (), s')" and fresh: "ttl \<le> 0 \<or> now < c + ttl"
  shows "fst (Get B E now s' x ns k) = Inr (v, ct, if ttl > 0 then c + ttl else zero_time, etagOf E v)"
proof -
  have inv: "store_inv view E s" "0 \<le> c" using reach_store_inv [OF reach] by auto
  let ?rec = "newRecord c v ct ttl"
  obtain p b a' where *: "store_inv view E s'" "dir s' = dir s" "path s x = Inr p" "validNamespace ns" "k \<noteq> []"
    "length k \<le> MaxKeyLen" "gobEncode E ?rec = Some b" "spec_put E (ns, k) ?rec b (content view s p) = Some a'"
    "content view s' = (content view s)(p := a')"
    using Put_effect [OF inv(1,2) bnd put] by auto
  obtain q where h: "dbs s' x = Some q" using Put_handle [OF put] by blast
  then have "path s' x = Inr q" using *(1) by (auto simp: store_inv_def)
  then have "q = p" using *(3) path_cong [OF *(2), of x] by simp
  have "recs a' (ns, k) = Some b" using *(8) by (auto simp: spec_put_def Let_def split: if_splits)
  moreover have dec: "gobDecode E b = Some ?rec" by (rule gob_roundtrip [OF *(7)])
  moreover have "live E now b" using fresh dec by (auto simp: live_def newRecord_def IsZero_def)
  ultimately show ?thesis
    using Get_open [OF *(1) h *(4,5,6), of now] *(9) \<open>q = p\<close> by (simp add: newRecord_def)
qed

lemma delete_then_get:
  assumes reach: "kv_reach B E s P c" and del: "Delete B E s x ns k = (Inr (), s')"
  shows "fst (Get B E now s' x ns k) = Inl ErrKVNotFound"
proof -
  have inv: "store_inv view E s" using reach_store_inv [OF reach] by auto
  obtain p where *: "store_inv view E s'" "dir s' = dir s" "path s x = Inr p" "validNamespace ns"
    "content view s' = (content view s)(p := spec_delete E (ns, k) (content view s p))"
    using Delete_effect [OF inv del] by auto
  have ok: "k \<noteq> []" "length k \<le> MaxKeyLen" using del by (auto simp: Delete_def split: if_splits)
  obtain q where h: "dbs s' x = Some q" using Delete_handle [OF del] by blast
  then have "path s' x = Inr q" using *(1) by (auto simp: store_inv_def)
  then have "q = p" using *(3) path_cong [OF *(2), of x] by simp
  have "recs (spec_delete E (ns, k) (content view s p)) (ns, k) = None" by (simp add: spec_delete_def)
  then show ?thesis using Get_open [OF *(1) h *(4) ok, of now] *(5) \<open>q = p\<close> by simp
qed

lemma put_frame:
  assumes reach: "kv_reach B E s P c" and bnd: "c + ttl < 2 ^ 63" and put: "Put B E c s x ns k v ct ttl = (r, s')"
    and other: "(\<exists>e. r = Inl e) \<or> path s x \<noteq> Inr q \<or> y \<noteq> (ns, k)"
  shows "recs (content view s' q) y = recs (content view s q) y"
proof -
  have inv: "store_inv view E s" "0 \<le> c" using reach_store_inv [OF reach] by auto
  from Put_effect [OF inv bnd put] show ?thesis using other
    by (auto simp: spec_put_def Let_def split: if_splits)
qed

end

section \<open>Sweeps and tenant files\<close>

lemma sweep_one_count: "kcount (fst (sweep_one E now d st)) + snd (sweep_one E now d st) = kcount (fst st) + snd st"
  by (auto simp: sweep_one_def Let_def split: option.splits)

lemma spec_sweep_count: "kcount (fst (spec_sweep E now ds st)) + snd (spec_sweep E now ds st) = kcount (fst st) + snd st"
proof (induction ds arbitrary: st)
  case (Cons d ds)
  then show ?case using sweep_one_count [of E now d st] by (simp add: spec_sweep_def)
qed (simp add: spec_sweep_def)

context kv_backend
begin

lemma sweepDB_count:
  assumes "R tu a" and "kv_inv E a" and due: "\<forall>d \<in> set (sweepCollect B now tv). due_ok E now a d"
    and call: "sweepDB B E now tv tu = (n, None, t')"
  shows "kcount (kv_abs (view t')) + n = kcount a"
proof (cases "sweepCollect B now tv = []")
  case True
  then show ?thesis using call assms(1) by (auto simp: sweepDB_def R_def)
next
  case False
  let ?ds = "sweepCollect B now tv"
  let ?r = "spec_sweep E now ?ds (a, 0)"
  obtain t1 where t1: "sweep_tx B E now ?ds tu = Inr (snd ?r, t1)"
    "R t1 ((fst ?r)\<lparr>used := clamp0 (used (fst ?r)), kcount := clamp0 (kcount (fst ?r))\<rparr>)"
    using sweep_refines [OF assms(1)] by blast
  have "kv_inv E (fst ?r)" using spec_sweep_inv [OF assms(2) due, of 0] by simp
  then have "0 \<le> kcount (fst ?r)" by (simp add: kv_inv_def acct_def)
  then have "kcount (kv_abs (view t1)) = kcount (fst ?r)" using t1(2) by (simp add: R_def clamp0_def)
  moreover have "t' = t1 \<and> n = snd ?r"
    using call False dbUpdate_cases [of "sweep_tx B E now ?ds" tu _ t1 B, OF t1(1)] by (auto simp: sweepDB_def Let_def)
  ultimately show ?thesis using spec_sweep_count [of E now ?ds "(a, 0)"] by simp
qed

lemma sweep_exact:
  assumes reach: "kv_reach B E s P c" and h: "dbs s x = Some p" "disk s p = Some t"
    and call: "sweepDB B E c t t = (n, None, t')"
  shows "recs_of (view t') = (\<lambda>y. if dead E c (recs_of (view t) y) then None else recs_of (view t) y)"
    and "n = int (card {y. dead E c (recs_of (view t) y)})"
proof -
  have inv: "store_inv view E s" "0 \<le> c" "c < 2 ^ 63" using reach_store_inv [OF reach] by auto
  have R: "R t (kv_abs (view t))" using inv(1) h by (fastforce simp: store_inv_def R_def)
  have ok: "kv_inv E (kv_abs (view t))" by (rule store_inv_file [OF inv(1) h(2)])
  have due: "\<forall>d \<in> set (sweepCollect B c t). due_ok E c (kv_abs (view t)) d"
    using collect_sound [OF R ok inv(2,3)] by blast
  obtain a' where a': "R t' a'" "kv_inv E a'"
    "recs a' = (\<lambda>x. if x \<in> due_keys (sweepCollect B c t) \<and> dead E c (recs (kv_abs (view t)) x) then None else recs (kv_abs (view t)) x)"
    using sweepDB_effect [OF R ok due call, of c] by blast
  have "x \<in> due_keys (sweepCollect B c t) \<and> dead E c (recs (kv_abs (view t)) x) \<longleftrightarrow> dead E c (recs_of (view t) x)" for x
    using collect_exact [OF R ok inv(2,3), of x] by auto
  then have recs': "recs a' = (\<lambda>y. if dead E c (recs_of (view t) y) then None else recs_of (view t) y)" using a'(3) by (auto simp: fun_eq_iff)
  then show "recs_of (view t') = (\<lambda>y. if dead E c (recs_of (view t) y) then None else recs_of (view t) y)"
    using a'(1) by (auto simp: R_def)
  have fin: "finite (dom (recs_of (view t)))" using R_finite [OF R] by simp
  let ?D = "{y. dead E c (recs_of (view t) y)}"
  have sub: "?D \<subseteq> dom (recs_of (view t))" by (auto simp: dead_def split: option.splits)
  have "dom (recs a') = dom (recs_of (view t)) - ?D" unfolding recs' by (auto split: if_splits)
  then have "int (card (dom (recs a'))) = int (card (dom (recs_of (view t)))) - int (card ?D)"
    using card_Diff_subset [OF finite_subset [OF sub fin] sub] card_mono [OF fin sub] by (simp add: of_nat_diff)
  moreover have "kcount a' + n = kcount (kv_abs (view t))"
    using sweepDB_count [OF R ok due call] a'(1) by (auto simp: R_def)
  ultimately show "n = int (card ?D)" using ok a'(2) by (simp add: kv_inv_def acct_def)
qed

lemma reach_accounting:
  assumes reach: "kv_reach B E s P c" and h: "dbs s x = Some p" "disk s p = Some t"
  shows "readKVMeta B t = (map_total rec_size (recs_of (view t)), int (card (dom (recs_of (view t)))))"
    and "map_total rec_size (recs_of (view t)) \<le> MaxBytesPerTenant"
    and "int (card (dom (recs_of (view t)))) \<le> MaxKeysPerTenant"
    and "ttls (kv_abs (view t)) = (\<Union>y. idx E y (recs_of (view t) y))"
proof -
  have inv: "store_inv view E s" using reach_store_inv [OF reach] by auto
  then have R: "R t (kv_abs (view t))" using h by (fastforce simp: store_inv_def R_def)
  have ok: "kv_inv E (kv_abs (view t))" by (rule store_inv_file [OF inv h(2)])
  then have "acct (kv_abs (view t))" by (simp add: kv_inv_def)
  then show meta: "readKVMeta B t = (map_total rec_size (recs_of (view t)), int (card (dom (recs_of (view t)))))"
    using read_meta [OF R] by (simp add: acct_def)
  show "map_total rec_size (recs_of (view t)) \<le> MaxBytesPerTenant"
    and "int (card (dom (recs_of (view t)))) \<le> MaxKeysPerTenant"
    using ok by (auto simp: kv_inv_def acct_def)
  show "ttls (kv_abs (view t)) = (\<Union>y. idx E y (recs_of (view t) y))" using kv_inv_ttls [OF ok] by simp
qed

lemma put_quota:
  assumes reach: "kv_reach B E s P c" and h: "dbs s x = Some p" "disk s p = Some t"
    and ok: "validNamespace ns" "k \<noteq> []" "length k \<le> MaxKeyLen" "length b \<le> MaxValueLen"
  shows "if map_total rec_size ((recs_of (view t))((ns, k) \<mapsto> b)) > MaxBytesPerTenant \<or>
      int (card (dom ((recs_of (view t))((ns, k) \<mapsto> b)))) > MaxKeysPerTenant
    then put_tx B E ns k r b t = Inl ErrKVQuota
    else \<exists>t'. put_tx B E ns k r b t = Inr ((), t') \<and> recs_of (view t') = (recs_of (view t))((ns, k) \<mapsto> b)"
proof -
  let ?a = "kv_abs (view t)"
  have inv: "store_inv view E s" using reach_store_inv [OF reach] by auto
  then have R: "R t ?a" using h by (fastforce simp: store_inv_def R_def)
  have "kv_inv E ?a" by (rule store_inv_file [OF inv h(2)])
  then have acct: "acct ?a" by (simp add: kv_inv_def)
  then have fin: "finite (dom (recs_of (view t)))" by (simp add: acct_def)
  have u: "map_total rec_size ((recs_of (view t))((ns, k) \<mapsto> b)) = used ?a - old_size ?a (ns, k) + rec_size (ns, k) b"
    using acct map_total_upd_new [OF fin, of "(ns, k)" rec_size b] map_total_upd_old [OF fin, of "(ns, k)" _ rec_size b]
    by (cases "recs_of (view t) (ns, k)") (auto simp: acct_def old_size_def)
  have n: "int (card (dom ((recs_of (view t))((ns, k) \<mapsto> b)))) = (if recs ?a (ns, k) = None then kcount ?a + 1 else kcount ?a)"
    using acct card_dom_upd_new [OF fin, of "(ns, k)" b] card_dom_upd_old [of "recs_of (view t)" "(ns, k)" _ b]
    by (cases "recs_of (view t) (ns, k)") (auto simp: acct_def simp del: dom_fun_upd fun_upd_apply)
  show ?thesis using put_refines [OF R ok, of r] unfolding u n
    by (auto simp: spec_put_def Let_def dest!: R_recs)
qed

end

lemma tenant_name_ok: "validTenant x \<Longrightarrow> name_ok (x @ ''.bolt'')"
proof -
  assume "validTenant x"
  then have "slash \<notin> set x"
    by (auto simp: validTenant_def list_all_iff less_eq_char_def split: if_splits)
  then show ?thesis by (auto simp: name_ok_def append_eq_Cons_conv)
qed

lemma path_eq: "dir s \<noteq> [] \<Longrightarrow> validTenant x \<Longrightarrow> path s x = Inr (Join [dir s, x @ ''.bolt''])"
  using Dir_Join_name [of "dir s" "x @ ''.bolt''"] tenant_name_ok by (simp add: path_def)

lemma path_inject:
  assumes "dir s \<noteq> []" "path s x = Inr p" "path s y = Inr p"
  shows "x = y"
proof -
  have v: "validTenant x" "validTenant y" "p = Join [dir s, x @ ''.bolt'']" "p = Join [dir s, y @ ''.bolt'']"
    using assms by (auto simp: path_def Let_def split: if_splits)
  then have "comps (Join [dir s, x @ ''.bolt'']) = comps (Join [dir s, y @ ''.bolt''])" by simp
  then show ?thesis using assms(1) v(1,2) tenant_name_ok comps_Join_names(1) [of "dir s" "[_]"] by simp
qed

section \<open>Properties\<close>

definition s0 :: "mem_tx store" where
  "s0 = \<lparr>dir = ''/m'', minFreeBytes = 0, dbs = Map.empty, closed = False, disk = Map.empty\<rparr>"

definition s1 :: "mem_tx store" where
  "s1 = snd (Put mem_bolt ref_codec 5 s0 ''public'' ''ns'' ''k'' ''v'' ''ct'' 10)"

lemma reach_s0: "kv_reach mem_bolt ref_codec s0 [] 5"
  by (rule kv_open [of "''/m''" 0 True]) (simp_all add: Open_def s0_def)

lemma put_s0: "Put mem_bolt ref_codec 5 s0 ''public'' ''ns'' ''k'' ''v'' ''ct'' 10 = (Inr (), s1)"
proof -
  have "fst (Put mem_bolt ref_codec 5 s0 ''public'' ''ns'' ''k'' ''v'' ''ct'' 10) = Inr ()" by code_simp
  then show ?thesis by (simp add: s1_def prod_eq_iff)
qed

lemma reach_s1: "kv_reach mem_bolt ref_codec s1 [] 5"
  using kv_call [OF reach_s0, of "OpPut ''public'' ''ns'' ''k'' ''v'' ''ct'' 10"] put_s0 by simp

lemma reach_s1_later: "kv_reach mem_bolt ref_codec s1 [] 20"
  by (rule kv_tick [OF reach_s1]) simp_all

lemma s1_open: "dbs s1 ''public'' = Some ''/m/public.bolt''" "disk s1 ''/m/public.bolt'' \<noteq> None"
  by code_simp+

text \<open>Commits of the reference database never fail, so its transactions succeed.\<close>

lemma mem_commit: "f t = Inr (a, t') \<Longrightarrow> dbUpdate mem_bolt f t = (Inr a, t')"
  by (simp add: dbUpdate_def mem_bolt_def)

lemma s1_file:
  obtains t where "disk s1 ''/m/public.bolt'' = Some t" "ref_kv.R t (kv_abs (mem_view t))"
proof -
  obtain t where t: "disk s1 ''/m/public.bolt'' = Some t" using s1_open(2) by auto
  have "store_inv mem_view ref_codec s1" using ref_kv.reach_store_inv [OF reach_s1] by blast
  then have "kv_wf (mem_view t)" using s1_open(1) t by (fastforce simp: store_inv_def)
  with that t show ?thesis by (simp add: ref_kv.R_def)
qed

lemma delete_s1: "\<exists>s'. Delete mem_bolt ref_codec s1 ''public'' ''ns'' ''k'' = (Inr (), s')"
proof -
  obtain t where t: "disk s1 ''/m/public.bolt'' = Some t" "ref_kv.R t (kv_abs (mem_view t))" by (rule s1_file)
  obtain t' where "delete_tx mem_bolt ref_codec ''ns'' ''k'' t = Inr ((), t')" using ref_kv.delete_refines [OF t(2)] by blast
  then have "\<exists>s'. runUpdate mem_bolt s1 ''/m/public.bolt'' (delete_tx mem_bolt ref_codec ''ns'' ''k'') = (Inr (), s')"
    using t(1) mem_commit [of "delete_tx mem_bolt ref_codec ''ns'' ''k''" t "()" t'] by (simp add: runUpdate_def)
  moreover have "getDB mem_bolt s1 ''public'' = (Inr ''/m/public.bolt'', s1)"
    using ref_kv.getDB_open [OF _ s1_open(1)] ref_kv.reach_store_inv [OF reach_s1] by blast
  moreover have "validNamespace ''ns''" by (simp add: validNamespace_def MaxNamespaceLen_def less_eq_char_def)
  ultimately show ?thesis by (simp add: Delete_def MaxKeyLen_def)
qed

lemma sweep_mem: "ref_kv.R t a \<Longrightarrow> \<exists>n t'. sweepDB mem_bolt ref_codec c t t = (n, None, t')"
  using ref_kv.sweep_refines [of t a c "sweepCollect mem_bolt c t"] mem_commit [of "sweep_tx mem_bolt ref_codec c (sweepCollect mem_bolt c t)" t]
  by (cases "sweepCollect mem_bolt c t = []") (auto simp: sweepDB_def Let_def)



text \<open>
  C18: A Put that succeeds is read back by Get until the record expires: the value,
  the content type, the expiry and the entity tag of the value.
\<close>
theorem kv_put_get:
  assumes "kv_backend B view E" and "kv_reach B E s P c" and "c + ttl < 2 ^ 63"
    and "Put B E c s x ns k v ct ttl = (Inr (), s')" and "ttl \<le> 0 \<or> now < c + ttl"
  shows "fst (Get B E now s' x ns k) = Inr (v, ct, if ttl > 0 then c + ttl else zero_time, etagOf E v)"
  by (rule kv_backend.put_then_get [OF assms])

theorem kv_put_get_witness:
  "fst (Get mem_bolt ref_codec 14 s1 ''public'' ''ns'' ''k'') = Inr (''v'', ''ct'', 15, etagOf ref_codec ''v'')"
  using kv_put_get [OF ref_kv.kv_backend_axioms reach_s0 _ put_s0, of 14] by simp

text \<open>
  A Put changes no other record of any tenant, and a Put that fails changes no
  record at all.
\<close>
theorem kv_put_frame:
  assumes "kv_backend B view E" and "kv_reach B E s P c" and "c + ttl < 2 ^ 63"
    and "Put B E c s x ns k v ct ttl = (r, s')"
    and "(\<exists>e. r = Inl e) \<or> path s x \<noteq> Inr q \<or> y \<noteq> (ns, k)"
  shows "recs (content view s' q) y = recs (content view s q) y"
  by (rule kv_backend.put_frame [OF assms])

theorem kv_put_frame_witness:
  "recs (content mem_view s1 ''/m/public.bolt'') (''ns'', ''j'') = recs (content mem_view s0 ''/m/public.bolt'') (''ns'', ''j'')"
  using kv_put_frame [OF ref_kv.kv_backend_axioms reach_s0 _ put_s0, of "''/m/public.bolt''" "(''ns'', ''j'')"] by simp

text \<open>
  C37: The write transaction of Put rejects a record exactly when the database with
  it would exceed the byte quota or the key quota, the record it replaces not
  counted; otherwise it stores the record.
\<close>
theorem kv_put_quota:
  assumes "kv_backend B view E" and "kv_reach B E s P c" and "dbs s x = Some p" and "disk s p = Some t"
    and "validNamespace ns" and "k \<noteq> []" and "length k \<le> MaxKeyLen" and "length b \<le> MaxValueLen"
  shows "if map_total rec_size ((recs_of (view t))((ns, k) \<mapsto> b)) > MaxBytesPerTenant \<or>
      int (card (dom ((recs_of (view t))((ns, k) \<mapsto> b)))) > MaxKeysPerTenant
    then put_tx B E ns k r b t = Inl ErrKVQuota
    else \<exists>t'. put_tx B E ns k r b t = Inr ((), t') \<and> recs_of (view t') = (recs_of (view t))((ns, k) \<mapsto> b)"
  by (rule kv_backend.put_quota [OF assms])

theorem kv_put_quota_witness:
  "\<exists>t. disk s1 ''/m/public.bolt'' = Some t \<and>
    (if map_total rec_size ((recs_of (mem_view t))((''ns'', ''j'') \<mapsto> ''x'')) > MaxBytesPerTenant \<or>
      int (card (dom ((recs_of (mem_view t))((''ns'', ''j'') \<mapsto> ''x'')))) > MaxKeysPerTenant
    then put_tx mem_bolt ref_codec ''ns'' ''j'' (newRecord 5 ''v'' ''ct'' 0) ''x'' t = Inl ErrKVQuota
    else \<exists>t'. put_tx mem_bolt ref_codec ''ns'' ''j'' (newRecord 5 ''v'' ''ct'' 0) ''x'' t = Inr ((), t') \<and>
      recs_of (mem_view t') = (recs_of (mem_view t))((''ns'', ''j'') \<mapsto> ''x''))"
proof -
  obtain t where t: "disk s1 ''/m/public.bolt'' = Some t" using s1_open(2) by auto
  have "validNamespace ''ns''" "length ''j'' \<le> MaxKeyLen" "length ''x'' \<le> MaxValueLen"
    by (simp_all add: validNamespace_def MaxNamespaceLen_def MaxKeyLen_def MaxValueLen_def less_eq_char_def)
  then show ?thesis
    using kv_put_quota [OF ref_kv.kv_backend_axioms reach_s1 s1_open(1) t, of "''ns''" "''j''" "''x''" "newRecord 5 ''v'' ''ct'' 0"] t
    by blast
qed

text \<open>After a Delete that succeeds, Get reports the key as not found.\<close>
theorem kv_delete_get:
  assumes "kv_backend B view E" and "kv_reach B E s P c" and "Delete B E s x ns k = (Inr (), s')"
  shows "fst (Get B E now s' x ns k) = Inl ErrKVNotFound"
  by (rule kv_backend.delete_then_get [OF assms])

theorem kv_delete_get_witness:
  "\<exists>s'. Delete mem_bolt ref_codec s1 ''public'' ''ns'' ''k'' = (Inr (), s') \<and>
    fst (Get mem_bolt ref_codec 6 s' ''public'' ''ns'' ''k'') = Inl ErrKVNotFound"
proof -
  obtain s' where d: "Delete mem_bolt ref_codec s1 ''public'' ''ns'' ''k'' = (Inr (), s')" using delete_s1 by blast
  show ?thesis using kv_delete_get [OF ref_kv.kv_backend_axioms reach_s1 d, of 6] d by blast
qed

text \<open>
  C19: A sweep that succeeds removes exactly the records that have expired by its
  clock reading and returns their number; every other record stays as it is.
\<close>
theorem kv_sweep_exact:
  assumes "kv_backend B view E" and "kv_reach B E s P c" and "dbs s x = Some p" and "disk s p = Some t"
    and "sweepDB B E c t t = (n, None, t')"
  shows "recs_of (view t') = (\<lambda>y. if dead E c (recs_of (view t) y) then None else recs_of (view t) y) \<and>
    n = int (card {y. dead E c (recs_of (view t) y)})"
  using kv_backend.sweep_exact [OF assms] by blast

theorem kv_sweep_exact_witness:
  "\<exists>t n t'. disk s1 ''/m/public.bolt'' = Some t \<and> sweepDB mem_bolt ref_codec 20 t t = (n, None, t') \<and>
    n = int (card {y. dead ref_codec 20 (recs_of (mem_view t) y)})"
proof -
  obtain t where t: "disk s1 ''/m/public.bolt'' = Some t" "ref_kv.R t (kv_abs (mem_view t))" by (rule s1_file)
  obtain n t' where sw: "sweepDB mem_bolt ref_codec 20 t t = (n, None, t')" using sweep_mem [OF t(2)] by blast
  show ?thesis using kv_sweep_exact [OF ref_kv.kv_backend_axioms reach_s1_later s1_open(1) t(1) sw] t(1) sw by blast
qed

text \<open>
  C20: A client that follows the cursors of List until one is blank gets every live
  key of the namespace with the prefix exactly once, in byte order, whatever the
  page size; the loop ends after at most one request per key, plus one.
\<close>
theorem kv_list_pages:
  assumes "kv_backend B view E" and "kv_reach B E s P c" and "dbs s x = Some p" and "disk s p = Some t"
    and "validNamespace ns"
  shows "\<exists>M. sorted_wrt (<) M \<and> set M = {k. prefix pfx k \<and> (\<exists>b. recs_of (view t) (ns, k) = Some b \<and> live E now b)} \<and>
    (\<forall>fuel > length M. list_all_pages B E now s x ns pfx limit fuel [] = Some M)"
  using kv_backend.all_pages [OF assms(1)] kv_backend.reach_store_inv [OF assms(1,2)] assms(3-5) by blast

theorem kv_list_pages_witness:
  "\<exists>t M. disk s1 ''/m/public.bolt'' = Some t \<and> sorted_wrt (<) M \<and>
    set M = {k. prefix ''k'' k \<and> (\<exists>b. recs_of (mem_view t) (''ns'', k) = Some b \<and> live ref_codec 6 b)} \<and>
    list_all_pages mem_bolt ref_codec 6 s1 ''public'' ''ns'' ''k'' 1 (Suc (length M)) [] = Some M"
proof -
  obtain t where t: "disk s1 ''/m/public.bolt'' = Some t" using s1_open(2) by auto
  have "validNamespace ''ns''" by (simp add: validNamespace_def MaxNamespaceLen_def less_eq_char_def)
  then show ?thesis
    using kv_list_pages [OF ref_kv.kv_backend_axioms reach_s1 s1_open(1) t, of "''ns''" "''k''" 6 1] t by blast
qed

text \<open>
  Every tenant the store accepts gets a file directly inside the store's
  directory, and two tenants never share one.
\<close>
theorem kv_tenant_files:
  assumes "dir s \<noteq> []" and "path s x = Inr p" and "path s y = Inr q"
  shows "Dir p = Clean (dir s) \<and> (p = q \<longleftrightarrow> x = y)"
proof -
  have "Dir p = Clean (dir s)" using assms(2) by (auto simp: path_def Let_def split: if_splits)
  moreover have "x = y" if "p = q" using path_inject [OF assms(1,2)] assms(3) that by simp
  moreover have "p = q" if "x = y" using assms(2,3) that by simp
  ultimately show ?thesis by blast
qed

theorem kv_tenant_files_witness:
  "Dir ''/m/public.bolt'' = ''/m'' \<and> path s0 ''../x'' \<noteq> Inr ''/m/public.bolt''"
proof -
  have p: "path s0 ''public'' = Inr ''/m/public.bolt''" by code_simp
  have "dir s0 \<noteq> []" by (simp add: s0_def)
  note files = kv_tenant_files [OF this p]
  have "Clean ''/m'' = ''/m''" by code_simp
  then show ?thesis using files [OF p] files [of "''../x''"] by (auto simp: s0_def)
qed

text \<open>
  An index key is parsed back into its namespace, key and instant, and index
  keys sort by instant first, so a scan of the index meets the due entries before
  every other one.
\<close>
theorem kv_ttl_index:
  assumes "length ns < 65536" and "0 \<le> e" "e < 2 ^ 63" and "0 \<le> e'" "e' < 2 ^ 63"
  shows "parseTTLKey (ttlKey e ns k) = Some (ns, k, e) \<and> (e < e' \<longrightarrow> ttlKey e ns k < ttlKey e' ns' k')"
proof -
  have "UnixNano e < UnixNano e'" if "e < e'"
    using that assms word_of_int64_less [of e e'] by (simp add: UnixNano_def)
  then show ?thesis
    using parse_ttlKey [OF assms(1), of e k] assms
    by (auto simp: UnixNano_def sint_word_of_int64 ttlKey_def append_less_same_length PutUint64_less)
qed

theorem kv_ttl_index_witness:
  "parseTTLKey (ttlKey 7 ''a:b'' ''k'') = Some (''a:b'', ''k'', 7) \<and> ttlKey 7 ''a:b'' ''k'' < ttlKey 9 ''a'' ''k''"
  using kv_ttl_index [of "''a:b''" 7 9 "''k''" "''a''" "''k''"] by simp

end
