(* ===== verification/KVRefine.thy ===== *)
theory KVRefine
  imports KVTheorems
begin

text \<open>
  The store against its specification: a memory is a map from tenants to maps from
  (namespace, key) to records.  \<open>amem\<close> reads that memory out of the database files,
  and every call of the store acts on it as the plain map operation would.
\<close>

section \<open>The specification\<close>

type_synonym memory = "string \<Rightarrow> (string \<times> string) \<rightharpoonup> krecord"

fun mem_step :: "time \<Rightarrow> kv_op \<Rightarrow> bool \<Rightarrow> memory \<Rightarrow> memory" where
  "mem_step c (OpPut x ns k v ct ttl) True M = M(x := (M x)((ns, k) \<mapsto> newRecord c v ct ttl))"
| "mem_step c (OpDelete x ns k) True M = M(x := (M x)((ns, k) := None))"
| "mem_step c cmd ok M = M"

definition mem_get :: "time \<Rightarrow> memory \<Rightarrow> string \<Rightarrow> string \<times> string \<Rightarrow> krecord option" where
  "mem_get now M x y = (case M x y of None \<Rightarrow> None | Some r \<Rightarrow> if IsZero (ExpiresAt r) \<or> ExpiresAt r > now then Some r else None)"

section \<open>The abstraction\<close>

definition amem :: "('tx \<Rightarrow> view) \<Rightarrow> codec \<Rightarrow> 'tx store \<Rightarrow> memory" where
  "amem view E s x y = (case path s x of Inl _ \<Rightarrow> None | Inr p \<Rightarrow> Option.bind (recs (content view s p) y) (gobDecode E))"

fun kv_ok :: "'tx bolt \<Rightarrow> codec \<Rightarrow> time \<Rightarrow> kv_op \<Rightarrow> 'tx store \<Rightarrow> bool" where
  "kv_ok B E now (OpPut x ns k v ct ttl) s = is_ok (fst (Put B E now s x ns k v ct ttl))"
| "kv_ok B E now (OpDelete x ns k) s = is_ok (fst (Delete B E s x ns k))"
| "kv_ok B E now cmd s = True"

lemma runUpdate_dir: "dir (snd (runUpdate B s p f)) = dir s"
  by (auto simp: runUpdate_def split: option.splits prod.splits)

lemma getDB_dir: "dir (snd (getDB B s x)) = dir s"
  by (auto simp: getDB_def Let_def split: sum.splits option.splits prod.splits)

lemma getDB_dir': "getDB B s x = (r, sa) \<Longrightarrow> dir sa = dir s"
  using getDB_dir [of B s x] by simp

lemma kv_exec_dir: "dir (kv_exec B E c cmd s) = dir s"
proof (cases cmd)
  case (OpPut x ns k v ct ttl)
  then show ?thesis by (auto simp: Put_def Let_def runUpdate_dir dest: getDB_dir' split: prod.splits sum.splits option.splits)
next
  case (OpDelete x ns k)
  then show ?thesis by (auto simp: Delete_def runUpdate_dir dest: getDB_dir' split: prod.splits sum.splits)
next
  case (OpGet x ns k)
  then show ?thesis by (auto simp: Get_def dest: getDB_dir' split: prod.splits sum.splits)
next
  case (OpList x ns pfx limit cursor)
  then show ?thesis by (auto simp: ListKeys_def dest: getDB_dir' split: prod.splits sum.splits)
next
  case (OpStats x)
  then show ?thesis by (auto simp: Stats_def dest: getDB_dir' split: prod.splits sum.splits)
next
  case (OpClose errs)
  then show ?thesis by (simp add: Close_def)
qed

lemma kv_reach_dir: "kv_reach B E s P c \<Longrightarrow> dir s \<noteq> []"
  by (induction rule: kv_reach.induct) (auto simp: Open_def kv_exec_dir split: if_splits)

lemma amem_upd:
  assumes "dir s \<noteq> []" and "dir s' = dir s" and "path s x = Inr p" and "content view s' = (content view s)(p := a)"
  shows "amem view E s' = (amem view E s)(x := (\<lambda>y. Option.bind (recs a y) (gobDecode E)))"
proof (intro ext)
  fix z y
  have pz: "path s' z = path s z" by (rule path_cong [OF assms(2)])
  show "amem view E s' z y = ((amem view E s)(x := (\<lambda>y. Option.bind (recs a y) (gobDecode E)))) z y"
  proof (cases "z = x")
    case True
    then show ?thesis using assms(3,4) pz by (simp add: amem_def)
  next
    case False
    then have "path s z \<noteq> Inr p" using path_inject [OF assms(1,3)] by blast
    then show ?thesis using False assms(4) pz by (auto simp: amem_def split: sum.splits)
  qed
qed

lemma amem_same: "dir s' = dir s \<Longrightarrow> content view s' = content view s \<Longrightarrow> amem view E s' = amem view E s"
  using path_cong [of s' s] by (auto simp: amem_def fun_eq_iff split: sum.splits)

context kv_backend
begin

lemma put_amem:
  assumes inv: "store_inv view E s" and c: "0 \<le> c" "c + ttl < 2 ^ 63" and d: "dir s \<noteq> []"
    and call: "Put B E c s x ns k v ct ttl = (r, s')"
  shows "amem view E s' = (if is_ok r then (amem view E s)(x := (amem view E s x)((ns, k) \<mapsto> newRecord c v ct ttl)) else amem view E s)"
proof (cases "is_ok r")
  case True
  obtain p b a' where *: "dir s' = dir s" "path s x = Inr p" "gobEncode E (newRecord c v ct ttl) = Some b"
      "spec_put E (ns, k) (newRecord c v ct ttl) b (content view s p) = Some a'" "content view s' = (content view s)(p := a')"
    using Put_effect [OF inv c call] True by (auto simp: is_ok_def)
  have "recs a' = (recs (content view s p))((ns, k) \<mapsto> b)" using *(4) by (auto simp: spec_put_def Let_def split: if_splits)
  then have "(\<lambda>y. Option.bind (recs a' y) (gobDecode E)) = (amem view E s x)((ns, k) \<mapsto> newRecord c v ct ttl)"
    using gob_roundtrip [OF *(3)] *(2) by (auto simp: amem_def fun_eq_iff)
  then show ?thesis using True amem_upd [OF d *(1,2,5)] by simp
next
  case False
  then have "dir s' = dir s" "content view s' = content view s" using Put_effect [OF inv c call] by (auto simp: is_ok_def)
  then show ?thesis using False amem_same by simp
qed

lemma delete_amem:
  assumes inv: "store_inv view E s" and d: "dir s \<noteq> []" and call: "Delete B E s x ns k = (r, s')"
  shows "amem view E s' = (if is_ok r then (amem view E s)(x := (amem view E s x)((ns, k) := None)) else amem view E s)"
proof (cases "is_ok r")
  case True
  obtain p where *: "dir s' = dir s" "path s x = Inr p"
      "content view s' = (content view s)(p := spec_delete E (ns, k) (content view s p))"
    using Delete_effect [OF inv call] True by (auto simp: is_ok_def)
  have "recs (spec_delete E (ns, k) (content view s p)) = (recs (content view s p))((ns, k) := None)"
    by (auto simp: spec_delete_def)
  then have "(\<lambda>y. Option.bind (recs (spec_delete E (ns, k) (content view s p)) y) (gobDecode E)) = (amem view E s x)((ns, k) := None)"
    using *(2) by (auto simp: amem_def fun_eq_iff)
  then show ?thesis using True amem_upd [OF d *(1,2,3)] by simp
next
  case False
  then have "dir s' = dir s" "content view s' = content view s" using Delete_effect [OF inv call] by (auto simp: is_ok_def)
  then show ?thesis using False amem_same by simp
qed

lemma getDB_amem: "store_inv view E s \<Longrightarrow> getDB B s x = (r, sa) \<Longrightarrow> amem view E sa = amem view E s"
  using getDB_effect(2,3) [of s x r sa] amem_same by blast

lemma exec_amem:
  assumes inv: "store_inv view E s" and c: "0 \<le> c" "c + op_ttl cmd < 2 ^ 63" and d: "dir s \<noteq> []"
  shows "amem view E (kv_exec B E c cmd s) = mem_step c cmd (kv_ok B E c cmd s) (amem view E s)"
proof (cases cmd)
  case (OpPut x ns k v ct ttl)
  obtain r s' where "Put B E c s x ns k v ct ttl = (r, s')" by fastforce
  then show ?thesis using put_amem [OF inv c(1) _ d] c(2) OpPut by (cases "is_ok r") auto
next
  case (OpDelete x ns k)
  obtain r s' where "Delete B E s x ns k = (r, s')" by fastforce
  then show ?thesis using delete_amem [OF inv d] OpDelete by (cases "is_ok r") auto
next
  case (OpGet x ns k)
  obtain r sa where g: "getDB B s x = (r, sa)" by fastforce
  then show ?thesis using getDB_amem [OF inv g] OpGet by (auto simp: Get_def split: sum.splits)
next
  case (OpList x ns pfx limit cursor)
  obtain r sa where g: "getDB B s x = (r, sa)" by fastforce
  then show ?thesis using getDB_amem [OF inv g] OpList by (auto simp: ListKeys_def split: sum.splits)
next
  case (OpStats x)
  obtain r sa where g: "getDB B s x = (r, sa)" by fastforce
  then show ?thesis using getDB_amem [OF inv g] OpStats by (auto simp: Stats_def split: sum.splits)
next
  case (OpClose errs)
  have "dir (snd (Close errs s)) = dir s" "content view (snd (Close errs s)) = content view s"
    by (simp_all add: Close_def content_def fun_eq_iff)
  from amem_same [OF this] show ?thesis using OpClose by simp
qed

lemma get_amem:
  assumes inv: "store_inv view E s" and call: "Get B E now s x ns k = (Inr (v, ct, ex, tag), s')"
  shows "\<exists>r. mem_get now (amem view E s) x (ns, k) = Some r \<and> v = Value r \<and> ct = ContentType r \<and> ex = ExpiresAt r \<and> tag = etagOf E v"
proof -
  obtain p where g: "getDB B s x = (Inr p, s')" and ok: "validNamespace ns" "k \<noteq> []" "length k \<le> MaxKeyLen"
    using call by (auto simp: Get_def split: if_splits prod.splits sum.splits)
  have p: "path s x = Inr p" using getDB_effect(5) [OF inv g refl] by blast
  show ?thesis using Get_effect(5) [OF inv call p ok g] p
    by (auto simp: mem_get_def amem_def live_def split: option.splits if_splits)
qed

end

section \<open>The property\<close>

text \<open>
  C3: The store refines a map from tenants to maps of records.  In every reachable
  state, with sweeps in flight, a call of any operation takes the memory read out of
  the files to what the map operation gives: a Put that succeeds updates one entry,
  a Delete that succeeds removes one, and every failing call and every other
  operation leaves the memory as it is.  A Get that succeeds returns the live record
  of the map.
\<close>
theorem kv_refines_map:
  assumes "kv_backend B view E" and "kv_reach B E s P c" and "c + op_ttl cmd < 2 ^ 63"
  shows "amem view E (kv_exec B E c cmd s) = mem_step c cmd (kv_ok B E c cmd s) (amem view E s) \<and>
    (\<forall>x ns k v ct ex tag. fst (Get B E c s x ns k) = Inr (v, ct, ex, tag) \<longrightarrow>
       mem_get c (amem view E s) x (ns, k) \<noteq> None \<and> v = Value (the (mem_get c (amem view E s) x (ns, k))))"
proof -
  have inv: "store_inv view E s" "0 \<le> c" using kv_backend.reach_store_inv [OF assms(1,2)] by auto
  have "mem_get c (amem view E s) x (ns, k) \<noteq> None \<and> v = Value (the (mem_get c (amem view E s) x (ns, k)))"
    if g: "fst (Get B E c s x ns k) = Inr (v, ct, ex, tag)" for x ns k v ct ex tag
  proof -
    have "Get B E c s x ns k = (Inr (v, ct, ex, tag), snd (Get B E c s x ns k))" using g by (simp add: prod_eq_iff)
    from kv_backend.get_amem [OF assms(1) inv(1) this] show ?thesis by auto
  qed
  then show ?thesis using kv_backend.exec_amem [OF assms(1) inv assms(3) kv_reach_dir [OF assms(2)]] by blast
qed

theorem kv_refines_map_witness:
  "amem mem_view ref_codec s1 = (amem mem_view ref_codec s0)(''public'' :=
     (amem mem_view ref_codec s0 ''public'')((''ns'', ''k'') \<mapsto> newRecord 5 ''v'' ''ct'' 10))"
proof -
  have "kv_exec mem_bolt ref_codec 5 (OpPut ''public'' ''ns'' ''k'' ''v'' ''ct'' 10) s0 = s1"
    "kv_ok mem_bolt ref_codec 5 (OpPut ''public'' ''ns'' ''k'' ''v'' ''ct'' 10) s0"
    using put_s0 by (simp_all add: is_ok_def)
  then show ?thesis
    using kv_refines_map [OF ref_kv.kv_backend_axioms reach_s0, of "OpPut ''public'' ''ns'' ''k'' ''v'' ''ct'' 10"] by simp
qed

end
