(* ===== verification/GoText.thy ===== *)
theory GoText
  imports Complex_Main Prelude
begin

text \<open>
  The string functions of Go's standard library the program calls, on byte
  strings: trimming of Unicode white space in its UTF-8 encoding, case folding of
  ASCII (the Unicode tables are an argument), splitting at white space and at a
  separator, prefix and suffix tests, decimal printing.
\<close>

section \<open>White space\<close>

definition ws_runes :: "bytes list" where
  "ws_runes =
     [[char_of (9 :: nat)], [char_of (10 :: nat)], [char_of (11 :: nat)], [char_of (12 :: nat)], [char_of (13 :: nat)], '' '',
      [CHR 0xC2, CHR 0x85], [CHR 0xC2, CHR 0xA0], [CHR 0xE1, CHR 0x9A, CHR 0x80],
      [CHR 0xE2, CHR 0x80, CHR 0x80], [CHR 0xE2, CHR 0x80, CHR 0x81], [CHR 0xE2, CHR 0x80, CHR 0x82],
      [CHR 0xE2, CHR 0x80, CHR 0x83], [CHR 0xE2, CHR 0x80, CHR 0x84], [CHR 0xE2, CHR 0x80, CHR 0x85],
      [CHR 0xE2, CHR 0x80, CHR 0x86], [CHR 0xE2, CHR 0x80, CHR 0x87], [CHR 0xE2, CHR 0x80, CHR 0x88],
      [CHR 0xE2, CHR 0x80, CHR 0x89], [CHR 0xE2, CHR 0x80, CHR 0x8A], [CHR 0xE2, CHR 0x80, CHR 0xA8],
      [CHR 0xE2, CHR 0x80, CHR 0xA9], [CHR 0xE2, CHR 0x80, CHR 0xAF], [CHR 0xE2, CHR 0x81, CHR 0x9F],
      [CHR 0xE3, CHR 0x80, CHR 0x80]]"

definition strip_any :: "bytes list \<Rightarrow> bytes \<Rightarrow> bytes option" where
  "strip_any rs s = (case filter (\<lambda>r. prefix r s) rs of [] \<Rightarrow> None | r # _ \<Rightarrow> Some (drop (length r) s))"

lemma strip_any_shorter:
  assumes "[] \<notin> set rs" and "strip_any rs s = Some t"
  shows "length t < length s"
proof -
  obtain r q where r: "filter (\<lambda>r. prefix r s) rs = r # q" "t = drop (length r) s"
    using assms(2) by (auto simp: strip_any_def split: list.splits)
  then have "r \<in> set rs" "prefix r s" by (metis Cons_eq_filterD in_set_conv_decomp)+
  then have "0 < length r" "length r \<le> length s" using assms(1) by (auto simp: prefix_length_le)
  then show ?thesis using r(2) by (simp add: diff_less del: length_greater_0_conv)
qed

function trimLeft :: "bytes list \<Rightarrow> bytes \<Rightarrow> bytes" where
  "trimLeft rs s =
     (if [] \<in> set rs then s else case strip_any rs s of None \<Rightarrow> s | Some t \<Rightarrow> trimLeft rs t)"
  by pat_completeness auto
termination by (relation "measure (\<lambda>(rs, s). length s)") (auto simp: strip_any_shorter)

declare trimLeft.simps [simp del]

definition TrimSpace :: "bytes \<Rightarrow> bytes" where
  "TrimSpace s = rev (trimLeft (map rev ws_runes) (rev (trimLeft ws_runes s)))"

lemma trimLeft_Nil [simp]: "trimLeft rs [] = []"
proof (cases "[] \<in> set rs")
  case False
  then have "filter (\<lambda>r. prefix r []) rs = []" by (auto simp: filter_empty_conv)
  then have "strip_any rs [] = None" by (simp add: strip_any_def)
  then show ?thesis by (subst trimLeft.simps) simp
qed (subst trimLeft.simps, simp)

lemma TrimSpace_Nil [simp]: "TrimSpace [] = []"
  by (simp add: TrimSpace_def)

section \<open>Case, splitting, printing\<close>

definition is_ascii :: "bytes \<Rightarrow> bool" where
  "is_ascii s \<longleftrightarrow> (\<forall>c \<in> set s. of_char c < (128 :: nat))"

definition ascii_lower :: "char \<Rightarrow> char" where
  "ascii_lower c = (if between CHR ''A'' CHR ''Z'' c then char_of (of_char c + 32 :: nat) else c)"

text \<open>\<open>strings.ToLower\<close>; \<open>uni\<close> maps the strings with a byte outside ASCII.\<close>

definition ToLower :: "(bytes \<Rightarrow> bytes) \<Rightarrow> bytes \<Rightarrow> bytes" where
  "ToLower uni s = (if is_ascii s then map ascii_lower s else uni s)"

fun split_on :: "char \<Rightarrow> bytes \<Rightarrow> bytes list" where
  "split_on d [] = [[]]"
| "split_on d (c # s) =
     (if c = d then [] # split_on d s
      else case split_on d s of [] \<Rightarrow> [[c]] | w # ws \<Rightarrow> (c # w) # ws)"

definition HasPrefix :: "bytes \<Rightarrow> bytes \<Rightarrow> bool" where "HasPrefix s p = prefix p s"
definition HasSuffix :: "bytes \<Rightarrow> bytes \<Rightarrow> bool" where "HasSuffix s p = suffix p s"

fun digits_fuel :: "nat \<Rightarrow> nat \<Rightarrow> string" where
  "digits_fuel 0 n = []"
| "digits_fuel (Suc k) n = (if n < 10 then [char_of (48 + n)] else digits_fuel k (n div 10) @ [char_of (48 + n mod 10)])"

definition nat_digits :: "nat \<Rightarrow> string" where "nat_digits n = digits_fuel (Suc n) n"

definition Itoa :: "int \<Rightarrow> string" where
  "Itoa i = (if i < 0 then CHR ''-'' # nat_digits (nat (- i)) else nat_digits (nat i))"

text \<open>\<open>strconv.Atoi\<close>: an optional sign and decimal digits, in the range of a 64-bit \<open>int\<close>.\<close>

fun digits_value :: "nat \<Rightarrow> string \<Rightarrow> nat option" where
  "digits_value acc [] = Some acc"
| "digits_value acc (c # s) =
     (if between CHR ''0'' CHR ''9'' c then digits_value (10 * acc + (of_char c - 48)) s else None)"

definition parse_digits :: "string \<Rightarrow> int option" where
  "parse_digits s = (if s = [] then None else map_option int (digits_value 0 s))"

definition Atoi :: "string \<Rightarrow> int option" where
  "Atoi s =
     (let r = (case s of
        c # t \<Rightarrow> if c = CHR ''-'' then map_option uminus (parse_digits t)
                 else if c = CHR ''+'' then parse_digits t else parse_digits s
      | [] \<Rightarrow> None) in
      case r of None \<Rightarrow> None | Some n \<Rightarrow> if - (2 ^ 63) \<le> n \<and> n < 2 ^ 63 then Some n else None)"

text \<open>\<open>strings.FieldsFunc\<close> for a predicate on single bytes.\<close>

fun fields_by :: "(char \<Rightarrow> bool) \<Rightarrow> bytes \<Rightarrow> bytes \<Rightarrow> bytes list" where
  "fields_by f w [] = (if w = [] then [] else [w])"
| "fields_by f w (c # s) =
     (if f c then (if w = [] then fields_by f [] s else w # fields_by f [] s) else fields_by f (w @ [c]) s)"

definition FieldsFunc :: "bytes \<Rightarrow> (char \<Rightarrow> bool) \<Rightarrow> bytes list" where
  "FieldsFunc s f = fields_by f [] s"

lemma split_on_neq_Nil [simp]: "split_on d s \<noteq> []"
  by (induction s) (auto split: list.splits)

section \<open>Machine integers\<close>

text \<open>Go's 64-bit \<open>int\<close> as an integer in range; every product or sum that may leave the range is wrapped.\<close>

definition wrap64 :: "int \<Rightarrow> int" where
  "wrap64 n = sint (word_of_int n :: int64)"

lemma wrap64_id: "- (2 ^ 63) \<le> n \<Longrightarrow> n < 2 ^ 63 \<Longrightarrow> wrap64 n = n"
  by (simp add: wrap64_def sint_word_of_int64)

definition seconds :: int where "seconds = 1000000000"
definition milliseconds :: int where "milliseconds = 1000000"

text \<open>Go's \<open>float64\<close>, as far as the program compares and prints it.\<close>

datatype float64 = NaN | PosInf | NegInf | Fin rat

fun fle :: "float64 \<Rightarrow> float64 \<Rightarrow> bool" where
  "fle (Fin a) (Fin b) = (a \<le> b)"
| "fle NegInf NaN = False"
| "fle NegInf _ = True"
| "fle (Fin _) PosInf = True"
| "fle PosInf PosInf = True"
| "fle _ _ = False"

definition flt :: "float64 \<Rightarrow> float64 \<Rightarrow> bool" where
  "flt a b \<longleftrightarrow> fle a b \<and> \<not> fle b a"

end
