(* ===== verification/Http.thy ===== *)
theory Http
  imports GoText
begin

text \<open>
  HTTP requests and responses as the handlers see them, JSON values, and the
  helper that writes a JSON response.  A handler is a function of the request,
  the tenant in the request context (\<open>None\<close> before authentication) and the
  server state.
\<close>

datatype json = JNull | JBool bool | JInt int | JNum rat | JStr string | JArr "json list" | JObj "(string \<times> json) list"

record request =
  rq_Method :: string
  rq_Path :: string
  rq_Header :: "string \<rightharpoonup> string"
  rq_Query :: "string \<rightharpoonup> string"
  rq_Body :: bytes
  rq_RemoteAddr :: string

record response =
  rs_Status :: int
  rs_Header :: "(string \<times> string) list"
  rs_Body :: json
  rs_Raw :: bytes

definition Header_Get :: "request \<Rightarrow> string \<Rightarrow> string" where
  "Header_Get r k = (case rq_Header r k of None \<Rightarrow> [] | Some v \<Rightarrow> v)"

definition Query_Get :: "request \<Rightarrow> string \<Rightarrow> string" where
  "Query_Get r k = (case rq_Query r k of None \<Rightarrow> [] | Some v \<Rightarrow> v)"

definition writeJSON :: "int \<Rightarrow> json \<Rightarrow> response" where
  "writeJSON status v = \<lparr>rs_Status = status, rs_Header = [(''Content-Type'', ''application/json'')], rs_Body = v, rs_Raw = []\<rparr>"

type_synonym ctxt = "string option"
type_synonym 'st handler = "request \<Rightarrow> ctxt \<Rightarrow> 'st \<Rightarrow> response \<times> 'st"

abbreviation jerror :: "string \<Rightarrow> json" where
  "jerror e \<equiv> JObj [(''error'', JStr e)]"

definition StatusUnauthorized :: int where "StatusUnauthorized = 401"
definition StatusForbidden :: int where "StatusForbidden = 403"
definition StatusTooManyRequests :: int where "StatusTooManyRequests = 429"

end
