(* ===== verification/Auth.thy ===== *)
theory Auth
  imports Http Codec
begin

text \<open>
  Tenants: the keystore of \<^verbatim>\<open>internal/auth/keystore.go\<close>, the two middlewares of
  \<^verbatim>\<open>internal/api/router.go\<close> that stamp and check the tenant, and the key loading
  of \<^verbatim>\<open>cmd/isoboxd/main.go\<close> with its fail-closed exits.  SHA-256 is the argument
  \<open>sha\<close>; the properties use only that its output has 32 bytes, and injectivity
  where two keys must not share a tenant.
\<close>

section \<open>The keystore\<close>

definition PublicTenant :: string where "PublicTenant = ''public''"

record KeyStore =
  tenants :: "string list"

definition deriveTenant :: "(bytes \<Rightarrow> bytes) \<Rightarrow> string \<Rightarrow> string" where
  "deriveTenant sha apiKey = hex_encode (sha apiKey)"

fun newKeyStore_loop :: "(bytes \<Rightarrow> bytes) \<Rightarrow> string list \<Rightarrow> string set \<Rightarrow> string list \<Rightarrow> string list" where
  "newKeyStore_loop sha [] seen acc = acc"
| "newKeyStore_loop sha (k # ks) seen acc =
     (let k = TrimSpace k in
      if k = [] then newKeyStore_loop sha ks seen acc
      else let tid = deriveTenant sha k in
        if tid \<in> seen then newKeyStore_loop sha ks seen acc
        else newKeyStore_loop sha ks (insert tid seen) (acc @ [tid]))"

definition NewKeyStore :: "(bytes \<Rightarrow> bytes) \<Rightarrow> string list \<Rightarrow> KeyStore" where
  "NewKeyStore sha rawKeys = \<lparr>tenants = newKeyStore_loop sha rawKeys {} []\<rparr>"

definition Len :: "KeyStore \<Rightarrow> nat" where "Len k = length (tenants k)"

definition ConstantTimeCompare :: "bytes \<Rightarrow> bytes \<Rightarrow> nat" where
  "ConstantTimeCompare x y = (if length x = length y \<and> list_all2 (=) x y then 1 else 0)"

definition Resolve :: "(bytes \<Rightarrow> bytes) \<Rightarrow> KeyStore \<Rightarrow> string \<Rightarrow> string \<times> bool" where
  "Resolve sha k apiKey =
     (if length (tenants k) = 0 then (PublicTenant, True)
      else let tid = deriveTenant sha apiKey;
               matched = fold (\<lambda>t m. or m (ConstantTimeCompare tid t)) (tenants k) 0 in
        if matched = 1 then (tid, True) else ([], False))"

definition WithTenant :: "ctxt \<Rightarrow> string \<Rightarrow> ctxt" where
  "WithTenant ctx tenant = Some tenant"

definition TenantFrom :: "ctxt \<Rightarrow> string \<times> bool" where
  "TenantFrom ctx = (case ctx of None \<Rightarrow> ([], False) | Some t \<Rightarrow> (t, t \<noteq> []))"

section \<open>Middlewares\<close>

definition bearerKey :: "string \<Rightarrow> string" where
  "bearerKey b = (if length b > 7 \<and> take 7 b = ''Bearer '' then TrimSpace (drop 7 b) else [])"

definition requestKey :: "request \<Rightarrow> string" where
  "requestKey r =
     (let key = TrimSpace (Header_Get r ''X-API-Key'') in
      if key = [] then bearerKey (Header_Get r ''Authorization'') else key)"

definition authMiddleware :: "(bytes \<Rightarrow> bytes) \<Rightarrow> KeyStore \<Rightarrow> bool \<Rightarrow> 'st handler \<Rightarrow> 'st handler" where
  "authMiddleware sha Keys RequireAuth next r ctx st =
     (let key = requestKey r in
      if key = [] then
        (if RequireAuth then (writeJSON StatusUnauthorized (jerror ''unauthorized''), st)
         else next r (WithTenant ctx PublicTenant) st)
      else case Resolve sha Keys key of
        (t, ok) \<Rightarrow>
          if \<not> ok then (writeJSON StatusUnauthorized (jerror ''unauthorized''), st)
          else next r (WithTenant ctx t) st)"

definition requireTenantKey :: "bool \<Rightarrow> 'st handler \<Rightarrow> 'st handler" where
  "requireTenantKey MemoryRequireKey next r ctx st =
     (if MemoryRequireKey \<and> (fst (TenantFrom ctx) = [] \<or> fst (TenantFrom ctx) = PublicTenant)
      then (writeJSON StatusForbidden (JObj [(''error'', JStr ''api_key_required''),
              (''detail'', JStr ''persistent memory requires an API key (X-API-Key or Bearer); the rest of the API is open'')]), st)
      else next r ctx st)"

section \<open>Loading the keys\<close>

definition splitKeys :: "string \<Rightarrow> string list" where
  "splitKeys s = FieldsFunc s (\<lambda>r. r = char_of (10 :: nat) \<or> r = char_of (13 :: nat) \<or> r = CHR '','' \<or> r = char_of (9 :: nat))"

text \<open>\<open>None\<close> is \<open>os.Exit(1)\<close>; \<open>readFile\<close> is the outcome of reading the key file.\<close>

definition loadKeyStore :: "(bytes \<Rightarrow> bytes) \<Rightarrow> (string \<Rightarrow> string) \<Rightarrow> (string \<Rightarrow> bytes option) \<Rightarrow> KeyStore option" where
  "loadKeyStore sha Getenv readFile =
     (let require = (\<lambda>ks. if Len ks = 0 then None else Some ks) in
      if Getenv ''ISOBOX_API_KEYS_FILE'' \<noteq> [] then
        (case readFile (Getenv ''ISOBOX_API_KEYS_FILE'') of
           None \<Rightarrow> None
         | Some b \<Rightarrow> require (NewKeyStore sha (splitKeys b)))
      else if Getenv ''ISOBOX_API_KEYS'' \<noteq> [] then require (NewKeyStore sha (splitKeys (Getenv ''ISOBOX_API_KEYS'')))
      else if Getenv ''ISOBOX_API_KEY'' \<noteq> [] then require (NewKeyStore sha [Getenv ''ISOBOX_API_KEY''])
      else Some (NewKeyStore sha []))"

section \<open>Lemmas\<close>

lemma deriveTenant_length: "length (sha k) = 32 \<Longrightarrow> length (deriveTenant sha k) = 64"
  by (simp add: deriveTenant_def)

lemma newKeyStore_loop_set:
  "seen = set acc \<Longrightarrow> set (newKeyStore_loop sha ks seen acc) =
    set acc \<union> deriveTenant sha ` {TrimSpace k | k. k \<in> set ks \<and> TrimSpace k \<noteq> []}"
proof (induction sha ks seen acc rule: newKeyStore_loop.induct)
  case (2 sha k ks seen acc)
  let ?K = "\<lambda>ks. {TrimSpace k | k. k \<in> set ks \<and> TrimSpace k \<noteq> []}"
  have K: "?K (k # ks) = (if TrimSpace k = [] then ?K ks else insert (TrimSpace k) (?K ks))" by auto
  show ?case unfolding K using 2 by (auto simp: Let_def)
qed simp

lemma NewKeyStore_tenants:
  "set (tenants (NewKeyStore sha ks)) = deriveTenant sha ` {TrimSpace k | k. k \<in> set ks \<and> TrimSpace k \<noteq> []}"
  by (simp add: NewKeyStore_def newKeyStore_loop_set)

lemma ConstantTimeCompare_eq: "ConstantTimeCompare x y = (if x = y then 1 else 0)"
  by (auto simp: ConstantTimeCompare_def list.rel_eq)

lemma or_fold: "fold (\<lambda>t m. or m (ConstantTimeCompare x t)) ts m = (if m = 1 \<or> m = 0 \<and> x \<in> set ts then 1 else m)" if "m = 0 \<or> m = 1"
  using that by (induction ts arbitrary: m) (auto simp: ConstantTimeCompare_eq)

lemma Resolve_eq:
  "Resolve sha k key =
    (if tenants k = [] then (PublicTenant, True)
     else if deriveTenant sha key \<in> set (tenants k) then (deriveTenant sha key, True) else ([], False))"
  using or_fold [of 0 "deriveTenant sha key" "tenants k"] by (simp add: Resolve_def Let_def)

definition usable :: "string list \<Rightarrow> string set" where
  "usable ks = {TrimSpace k | k. k \<in> set ks \<and> TrimSpace k \<noteq> []}"

definition no_collision :: "(bytes \<Rightarrow> bytes) \<Rightarrow> string set \<Rightarrow> string \<Rightarrow> bool" where
  "no_collision sha K key \<longleftrightarrow> (\<forall>k \<in> K. sha k = sha key \<longrightarrow> k = key)"

lemma tenants_empty_iff: "tenants (NewKeyStore sha ks) = [] \<longleftrightarrow> usable ks = {}"
  using NewKeyStore_tenants [of sha ks] unfolding usable_def [symmetric] by (metis image_is_empty set_empty)

lemma deriveTenant_mem:
  assumes "no_collision sha (usable ks) key"
  shows "deriveTenant sha key \<in> set (tenants (NewKeyStore sha ks)) \<longleftrightarrow> key \<in> usable ks"
  using assms unfolding NewKeyStore_tenants usable_def [symmetric] no_collision_def deriveTenant_def
  by (auto simp: hex_encode_inject)

lemma deriveTenant_not_public: "length (sha k) = 32 \<Longrightarrow> deriveTenant sha k \<noteq> PublicTenant"
  using deriveTenant_length [of sha k] by (auto simp: PublicTenant_def)

section \<open>Properties\<close>


definition demo_req :: "string \<Rightarrow> request" where
  "demo_req k = \<lparr>rq_Method = ''GET'', rq_Path = ''/execute'', rq_Header = [''X-API-Key'' \<mapsto> k], rq_Query = Map.empty,
     rq_Body = [], rq_RemoteAddr = []\<rparr>"

definition demo_sha :: "bytes \<Rightarrow> bytes" where
  "demo_sha k = take 32 (k @ replicate 32 CHR ''.'')"

lemma demo_sha_length [simp]: "length (demo_sha k) = 32"
  by (simp add: demo_sha_def)

lemma demo_usable: "usable [''a '', '' ''] = {''a''}"
proof -
  have "TrimSpace ''a '' = ''a''" "TrimSpace '' '' = []" by code_simp+
  then show ?thesis by (auto simp: usable_def intro!: exI [of _ "''a ''"])
qed

lemma demo_key: "requestKey (demo_req '' b'') = ''b''"
  by code_simp


text \<open>
  With \<open>MemoryRequireKey\<close> set and a usable key configured, the memory and
  volume handlers run only for a tenant derived from a configured key: 64 hex
  digits, and never the public tenant.
\<close>
theorem memory_gate:
  assumes "\<And>k. length (sha k) = 32" and "usable ks \<noteq> {}"
    and "authMiddleware sha (NewKeyStore sha ks) req (requireTenantKey True next) r ctx st = (resp, st')"
    and "rs_Status resp \<noteq> 401" and "rs_Status resp \<noteq> 403"
  shows "\<exists>t. next r (Some t) st = (resp, st') \<and> t = deriveTenant sha (requestKey r) \<and>
    t \<in> deriveTenant sha ` usable ks \<and> length t = 64 \<and> list_all is_hex_char t \<and> t \<noteq> PublicTenant"
proof -
  let ?t = "deriveTenant sha (requestKey r)"
  have ne: "tenants (NewKeyStore sha ks) \<noteq> []" using assms(2) tenants_empty_iff by blast
  have gate: "fst (requireTenantKey True next r (Some PublicTenant) st) =
      writeJSON 403 (JObj [(''error'', JStr ''api_key_required''),
        (''detail'', JStr ''persistent memory requires an API key (X-API-Key or Bearer); the rest of the API is open'')])"
    by (simp add: requireTenantKey_def TenantFrom_def StatusForbidden_def)
  have mem: "requestKey r \<noteq> [] \<and> ?t \<in> set (tenants (NewKeyStore sha ks))"
    using assms(3-5) ne gate
    by (auto simp: authMiddleware_def Let_def Resolve_eq WithTenant_def StatusUnauthorized_def writeJSON_def split: if_splits)
  then have "requireTenantKey True next r (Some ?t) st = (resp, st')"
    using assms(3) ne by (simp add: authMiddleware_def Let_def Resolve_eq WithTenant_def)
  moreover have t: "length ?t = 64" "list_all is_hex_char ?t" "?t \<noteq> PublicTenant"
    using deriveTenant_length [of sha "requestKey r"] deriveTenant_not_public [of sha "requestKey r"] assms(1)
    by (auto simp: list_all_iff deriveTenant_def hex_encode_chars)
  moreover have "?t \<noteq> []" using t(1) by auto
  ultimately show ?thesis
    using mem NewKeyStore_tenants [of sha ks]
    by (auto simp: requireTenantKey_def TenantFrom_def usable_def [symmetric])
qed

theorem memory_gate_witness:
  "\<exists>t. t = deriveTenant demo_sha ''a'' \<and> t \<in> deriveTenant demo_sha ` usable [''a '', '' ''] \<and> length t = 64 \<and> t \<noteq> PublicTenant"
proof -
  let ?n = "\<lambda>(_ :: request) (_ :: ctxt) (s :: unit). (writeJSON 200 JNull, s)"
  have key: "requestKey (demo_req ''a'') = ''a''" by code_simp
  have m: "deriveTenant demo_sha ''a'' \<in> set (tenants (NewKeyStore demo_sha [''a '', '' '']))"
    unfolding NewKeyStore_tenants usable_def [symmetric] demo_usable by simp
  have "deriveTenant demo_sha ''a'' \<noteq> []" using deriveTenant_length [of demo_sha "''a''"] by auto
  then have "authMiddleware demo_sha (NewKeyStore demo_sha [''a '', '' '']) False (requireTenantKey True ?n) (demo_req ''a'') None () =
      (writeJSON 200 JNull, ())"
    using m deriveTenant_not_public [of demo_sha "''a''"]
    by (auto simp: authMiddleware_def Let_def Resolve_eq WithTenant_def key requireTenantKey_def TenantFrom_def)
  from memory_gate [OF _ _ this] show ?thesis by (simp add: demo_usable key writeJSON_def)
qed

text \<open>
  Loading the keys fails closed: the daemon starts with an empty keystore (open
  mode) only when none of the three key settings is present; a setting that is
  present but unreadable or without a usable key ends the process.
\<close>
theorem load_keys_fail_closed:
  "(\<exists>ks. loadKeyStore sha Getenv readFile = Some ks \<and> Len ks = 0) \<longleftrightarrow>
    Getenv ''ISOBOX_API_KEYS_FILE'' = [] \<and> Getenv ''ISOBOX_API_KEYS'' = [] \<and> Getenv ''ISOBOX_API_KEY'' = []"
  by (auto simp: loadKeyStore_def Let_def Len_def NewKeyStore_def split: option.splits if_splits)

text \<open>
  A configured key does not close the API to anonymous callers: unless
  \<open>RequireAuth\<close> is set, a request without a key runs as the public tenant whatever
  keys are configured.
\<close>
theorem keyless_runs_as_public:
  "requestKey r = [] \<longrightarrow> authMiddleware sha Keys False next r ctx st = next r (Some PublicTenant) st"
  by (simp add: authMiddleware_def WithTenant_def)

theorem keyless_runs_as_public_witness:
  "authMiddleware demo_sha (NewKeyStore demo_sha [''a'']) False (\<lambda>_ c s. (writeJSON 200 (JStr (the c)), s)) (demo_req '' '') None ()
    = (writeJSON 200 (JStr ''public''), ())"
proof -
  have "requestKey (demo_req '' '') = []" by code_simp
  then show ?thesis
    using keyless_runs_as_public [of "demo_req '' ''" demo_sha "NewKeyStore demo_sha [''a'']" "\<lambda>_ c s. (writeJSON 200 (JStr (the c)), s)" None "()"]
    by (simp add: PublicTenant_def)
qed

end
