(* ===== verification/MemoryApi.thy ===== *)
theory MemoryApi
  imports KVRefine Auth
begin

text \<open>
  The HTTP surface of the key/value store, \<^verbatim>\<open>internal/api/memory.go\<close>: the four
  handlers and the mapping of store errors to responses.  The path parameters that
  the router extracts are arguments, as are the clock, the free-space answer of the
  host, the rendering of an instant (RFC 3339) and of an error.  The properties
  compose the handlers with the store and with the authentication middleware.
\<close>

section \<open>Responses\<close>

definition statusOnly :: "int \<Rightarrow> response" where
  "statusOnly n = \<lparr>rs_Status = n, rs_Header = [], rs_Body = JNull, rs_Raw = []\<rparr>"

definition noTenant :: response where
  "noTenant = writeJSON 500 (JObj [(''error'', JStr ''no_tenant''), (''detail'', JStr ''request reached handler without a resolved tenant'')])"

text \<open>\<open>reqTenant\<close> hands the tenant of the context to the rest of a handler, or stops with 500.\<close>

definition reqTenant :: "ctxt \<Rightarrow> (string \<Rightarrow> 'a) \<Rightarrow> (response \<Rightarrow> 'a) \<Rightarrow> 'a" where
  "reqTenant c k stop = (case TenantFrom c of (tenant, ok) \<Rightarrow> if \<not> ok then stop noTenant else k tenant)"

text \<open>\<open>io.ReadAll(http.MaxBytesReader(...))\<close>: the whole body, or an error past the limit.\<close>

definition readBody :: "nat \<Rightarrow> request \<Rightarrow> bytes option" where
  "readBody n r = (if length (rq_Body r) > n then None else Some (rq_Body r))"

definition maxKVValue :: nat where "maxKVValue = 8388608"

definition writeKVErr :: "(kv_error \<Rightarrow> string) \<Rightarrow> kv_error \<Rightarrow> response" where
  "writeKVErr errText e =
     (case e of
        ErrKVNotFound \<Rightarrow> writeJSON 404 (jerror ''not_found'')
      | ErrKVQuota \<Rightarrow> writeJSON 413 (JObj [(''error'', JStr ''quota_exceeded''), (''detail'', JStr ''tenant kv quota (10MiB / 10k keys) exceeded'')])
      | ErrKVValueSize \<Rightarrow> writeJSON 413 (jerror ''value_too_large'')
      | ErrKVNamespace \<Rightarrow> writeJSON 400 (jerror ''invalid_namespace'')
      | ErrKVKey \<Rightarrow> writeJSON 400 (jerror ''invalid_key'')
      | ErrKVTenant \<Rightarrow> writeJSON 500 (jerror ''internal'')
      | ErrKVClosed \<Rightarrow> writeJSON 500 (jerror ''internal'')
      | _ \<Rightarrow> writeJSON 500 (JObj [(''error'', JStr ''internal''), (''detail'', JStr (errText e))]))"

section \<open>Handlers\<close>

text \<open>\<open>Inr\<close> the time to live that the header asks for; an absent header is zero.\<close>

definition ttlHeader :: "request \<Rightarrow> (response, int) result" where
  "ttlHeader r =
     (let v = Header_Get r ''X-TTL-Seconds'' in
      if v = [] then Inr 0
      else case Atoi v of
        None \<Rightarrow> Inl (writeJSON 400 (jerror ''invalid_ttl''))
      | Some secs \<Rightarrow> if secs < 0 then Inl (writeJSON 400 (jerror ''invalid_ttl'')) else Inr (wrap64 (secs * seconds)))"

definition handleKVPut :: "'tx bolt \<Rightarrow> codec \<Rightarrow> (kv_error \<Rightarrow> string) \<Rightarrow> (int \<times> int) option \<Rightarrow> time \<Rightarrow> string \<Rightarrow> string
    \<Rightarrow> 'tx store handler" where
  "handleKVPut B E errText statfs now ns key r c s = reqTenant c (\<lambda>tenant.
     if DiskFull statfs s
     then (writeJSON 507 (JObj [(''error'', JStr ''storage_full''), (''detail'', JStr ''kv storage floor reached'')]), s)
     else case readBody maxKVValue r of
       None \<Rightarrow> (writeJSON 413 (jerror ''too_large''), s)
     | Some val \<Rightarrow>
       (case ttlHeader r of
          Inl resp \<Rightarrow> (resp, s)
        | Inr ttl \<Rightarrow>
          (case Put B E now s tenant ns key val (Header_Get r ''Content-Type'') ttl of
             (Inl e, s') \<Rightarrow> (writeKVErr errText e, s')
           | (Inr _, s') \<Rightarrow> (statusOnly 204, s')))) (\<lambda>resp. (resp, s))"

definition handleKVGet :: "'tx bolt \<Rightarrow> codec \<Rightarrow> (kv_error \<Rightarrow> string) \<Rightarrow> (time \<Rightarrow> string) \<Rightarrow> time \<Rightarrow> string \<Rightarrow> string
    \<Rightarrow> 'tx store handler" where
  "handleKVGet B E errText fmtTime now ns key r c s = reqTenant c (\<lambda>tenant.
     (case Get B E now s tenant ns key of
        (Inl e, s') \<Rightarrow> (writeKVErr errText e, s')
      | (Inr (val, ct, expiresAt, etag), s') \<Rightarrow>
        let m = Header_Get r ''If-None-Match'';
            tag = (if etag \<noteq> [] then [(''ETag'', etag)] else []) in
        if etag \<noteq> [] \<and> m \<noteq> [] \<and> m = etag then ((statusOnly 304)\<lparr>rs_Header := tag\<rparr>, s')
        else (\<lparr>rs_Status = 200,
               rs_Header = tag @ (if \<not> IsZero expiresAt then [(''X-Expires-At'', fmtTime expiresAt)] else []) @
                 [(''Content-Type'', if ct = [] then ''application/octet-stream'' else ct)],
               rs_Body = JNull, rs_Raw = val\<rparr>, s'))) (\<lambda>resp. (resp, s))"

definition handleKVDelete :: "'tx bolt \<Rightarrow> codec \<Rightarrow> (kv_error \<Rightarrow> string) \<Rightarrow> string \<Rightarrow> string \<Rightarrow> 'tx store handler" where
  "handleKVDelete B E errText ns key r c s = reqTenant c (\<lambda>tenant.
     (case Delete B E s tenant ns key of
        (Inl e, s') \<Rightarrow> (writeKVErr errText e, s')
      | (Inr _, s') \<Rightarrow> (statusOnly 204, s'))) (\<lambda>resp. (resp, s))"

text \<open>
  The value \<open>strconv.Atoi\<close> returns beside its error: zero for a malformed number, the
  nearest bound for one out of range.  The scan stops at the first digit that
  overflows an unsigned 64-bit integer.
\<close>

fun scanUint :: "nat \<Rightarrow> string \<Rightarrow> nat option" where
  "scanUint acc [] = Some acc"
| "scanUint acc (d # ds) =
     (if \<not> between CHR ''0'' CHR ''9'' d then None
      else let n = 10 * acc + (of_char d - 48) in if n \<ge> 2 ^ 64 then Some (2 ^ 64 - 1) else scanUint n ds)"

definition atoiValue :: "string \<Rightarrow> int" where
  "atoiValue v =
     (let neg = (v \<noteq> [] \<and> hd v = CHR ''-''); ds = (if v \<noteq> [] \<and> hd v \<in> {CHR ''-'', CHR ''+''} then tl v else v) in
      case (if ds = [] then None else scanUint 0 ds) of
        None \<Rightarrow> 0
      | Some n \<Rightarrow> if neg then max (- (2 ^ 63)) (- int n) else min (2 ^ 63 - 1) (int n))"

definition handleKVList :: "'tx bolt \<Rightarrow> codec \<Rightarrow> (kv_error \<Rightarrow> string) \<Rightarrow> time \<Rightarrow> string \<Rightarrow> 'tx store handler" where
  "handleKVList B E errText now ns r c s = reqTenant c (\<lambda>tenant.
     (let v = Query_Get r ''limit''; limit = (if v \<noteq> [] then atoiValue v else 0) in
      case ListKeys B E now s tenant ns (Query_Get r ''prefix'') limit (Query_Get r ''cursor'') of
        (Inl e, s') \<Rightarrow> (writeKVErr errText e, s')
      | (Inr (keys, next), s') \<Rightarrow>
          (writeJSON 200 (JObj [(''namespace'', JStr ns), (''keys'', JArr (map JStr keys)), (''nextCursor'', JStr next)]), s')))
     (\<lambda>resp. (resp, s))"
section \<open>Lemmas\<close>

lemma writeKVErr_status: "rs_Status (writeKVErr errText e) \<in> {400, 404, 413, 500}"
  by (cases e) (simp_all add: writeKVErr_def writeJSON_def)

lemma reqTenant_Some [simp]: "x \<noteq> [] \<Longrightarrow> reqTenant (Some x) k stop = k x"
  by (simp add: reqTenant_def TenantFrom_def)

lemma handleKVPut_204:
  assumes "handleKVPut B E errText statfs c ns k r ctx s = (resp, s')" and "rs_Status resp = 204"
  shows "\<exists>x ttl. ctx = Some x \<and> x \<noteq> [] \<and> ttlHeader r = Inr ttl \<and>
    Put B E c s x ns k (rq_Body r) (Header_Get r ''Content-Type'') ttl = (Inr (), s')"
  using assms writeKVErr_status [of errText]
  by (auto simp: handleKVPut_def reqTenant_def TenantFrom_def noTenant_def writeJSON_def readBody_def ttlHeader_def Let_def
    split: if_splits option.splits sum.splits prod.splits) (smt (verit))+

text \<open>What a handler does to the store is one call of it, for the tenant of the context.\<close>

lemma handleKVPut_op:
  assumes "handleKVPut B E errText statfs c ns k r ctx s = (resp, s')"
  shows "s' = s \<or> (\<exists>x ttl. ctx = Some x \<and> ttlHeader r = Inr ttl \<and>
    s' = kv_exec B E c (OpPut x ns k (rq_Body r) (Header_Get r ''Content-Type'') ttl) s)"
  using assms
  by (auto simp: handleKVPut_def reqTenant_def TenantFrom_def readBody_def split: if_splits option.splits sum.splits prod.splits)

lemma handleKVDelete_op:
  assumes "handleKVDelete B E errText ns k r ctx s = (resp, s')"
  shows "s' = s \<or> (\<exists>x. ctx = Some x \<and> s' = kv_exec B E c (OpDelete x ns k) s)"
  using assms by (auto simp: handleKVDelete_def reqTenant_def TenantFrom_def split: if_splits option.splits sum.splits prod.splits)
section \<open>Properties\<close>

text \<open>
  C36: A value stored over HTTP is served back.  After a PUT that was answered 204,
  a GET of the same tenant, namespace and key that runs before the record expires
  is answered 200 with exactly the bytes of the PUT, its content type and the entity
  tag of the bytes; presenting that tag is answered 304.
\<close>
theorem kv_http_roundtrip:
  assumes "kv_backend B view E" and "kv_reach B E s P c"
    and "handleKVPut B E errText statfs c ns k r (Some x) s = (resp, s')" and "rs_Status resp = 204"
    and "ttlHeader r = Inr ttl" and "c + ttl < 2 ^ 63" and "ttl \<le> 0 \<or> now < c + ttl"
  shows "let got = fst (handleKVGet B E errText fmtTime now ns k r2 (Some x) s'); tag = etagOf E (rq_Body r) in
    if Header_Get r2 ''If-None-Match'' = tag then rs_Status got = 304 \<and> rs_Raw got = []
    else rs_Status got = 200 \<and> rs_Raw got = rq_Body r \<and> (''ETag'', tag) \<in> set (rs_Header got) \<and>
      (''Content-Type'', if Header_Get r ''Content-Type'' = [] then ''application/octet-stream'' else Header_Get r ''Content-Type'')
        \<in> set (rs_Header got)"
proof -
  have x: "x \<noteq> []" and put: "Put B E c s x ns k (rq_Body r) (Header_Get r ''Content-Type'') ttl = (Inr (), s')"
    using handleKVPut_204 [OF assms(3,4)] assms(5) by auto
  have tag: "etagOf E (rq_Body r) \<noteq> []" by (simp add: etagOf_def)
  obtain s2 where "Get B E now s' x ns k =
      (Inr (rq_Body r, Header_Get r ''Content-Type'', if ttl > 0 then c + ttl else zero_time, etagOf E (rq_Body r)), s2)"
    using kv_backend.put_then_get [OF assms(1,2,6) put assms(7)] by (metis prod.collapse)
  then show ?thesis using x tag by (simp add: handleKVGet_def Let_def statusOnly_def)
qed

definition demo_put :: request where
  "demo_put = \<lparr>rq_Method = ''PUT'', rq_Path = [], rq_Header = [''X-TTL-Seconds'' \<mapsto> ''2''], rq_Query = Map.empty, rq_Body = ''v'', rq_RemoteAddr = []\<rparr>"

lemma demo_put_204: "rs_Status (fst (handleKVPut mem_bolt ref_codec (\<lambda>_. []) None 5 ''ns'' ''k'' demo_put (Some ''public'') s0)) = 204"
  by code_simp

lemma demo_put_ttl: "ttlHeader demo_put = Inr 2000000000"
  by code_simp

theorem kv_http_roundtrip_witness:
  "let s' = snd (handleKVPut mem_bolt ref_codec (\<lambda>_. []) None 5 ''ns'' ''k'' demo_put (Some ''public'') s0);
       got = fst (handleKVGet mem_bolt ref_codec (\<lambda>_. []) (\<lambda>_. []) 6 ''ns'' ''k'' demo_put (Some ''public'') s') in
   rs_Status got = 200 \<and> rs_Raw got = ''v''"
proof -
  let ?p = "handleKVPut mem_bolt ref_codec (\<lambda>_. []) None 5 ''ns'' ''k'' demo_put (Some ''public'') s0"
  have "Header_Get demo_put ''If-None-Match'' \<noteq> etagOf ref_codec (rq_Body demo_put)"
    by (simp add: Header_Get_def demo_put_def etagOf_def)
  then show ?thesis
    using kv_http_roundtrip [OF ref_kv.kv_backend_axioms reach_s0 _ demo_put_204 demo_put_ttl, where s' = "snd ?p" and now = 6 and fmtTime = "\<lambda>_. []" and ?r2.0 = demo_put]
    by (simp add: Let_def demo_put_def)
qed

text \<open>
  Tenants are isolated end to end.  A PUT or DELETE that enters through the
  authentication middlewares can change the memory of a tenant only when the key in
  the request resolves to that tenant, or, for the public tenant, when the request
  has no key, keys are not required and anonymous memory is allowed.
\<close>
theorem kv_http_isolated:
  assumes "kv_backend B view E" and "kv_reach B E s P c" and "\<forall>ttl. ttlHeader r = Inr ttl \<longrightarrow> c + ttl < 2 ^ 63"
    and "route = handleKVPut B E errText statfs c ns k \<or> route = handleKVDelete B E errText ns k"
    and "authMiddleware sha keys reqAuth (requireTenantKey memKey route) r None s = (resp, s')"
  shows "amem view E s' t = amem view E s t \<or>
    (if requestKey r = [] then t = PublicTenant \<and> \<not> reqAuth \<and> \<not> memKey else Resolve sha keys (requestKey r) = (t, True))"
proof (rule ccontr)
  assume con: "\<not> ?thesis"
  have inv: "store_inv view E s" "0 \<le> c" and d: "dir s \<noteq> []"
    using kv_backend.reach_store_inv [OF assms(1,2)] kv_reach_dir [OF assms(2)] by auto
  have "s' \<noteq> s" using con by auto
  then obtain x where run: "route r (Some x) s = (resp, s')"
      and x: "if requestKey r = [] then x = PublicTenant \<and> \<not> reqAuth \<and> \<not> memKey else Resolve sha keys (requestKey r) = (x, True)"
    using assms(5) by (auto simp: authMiddleware_def requireTenantKey_def WithTenant_def TenantFrom_def Let_def split: if_splits prod.splits)
  have "amem view E s' t = amem view E s t" if "t \<noteq> x"
    using assms(4)
  proof
    assume n: "route = handleKVPut B E errText statfs c ns k"
    then obtain ttl where "ttlHeader r = Inr ttl"
        "s' = kv_exec B E c (OpPut x ns k (rq_Body r) (Header_Get r ''Content-Type'') ttl) s"
      using handleKVPut_op [OF run [unfolded n]] \<open>s' \<noteq> s\<close> by blast
    then show ?thesis
      using kv_backend.exec_amem [OF assms(1) inv, of "OpPut x ns k (rq_Body r) (Header_Get r ''Content-Type'') ttl"] d assms(3) that
      by (cases "kv_ok B E c (OpPut x ns k (rq_Body r) (Header_Get r ''Content-Type'') ttl) s") simp_all
  next
    assume n: "route = handleKVDelete B E errText ns k"
    then have "s' = kv_exec B E c (OpDelete x ns k) s"
      using handleKVDelete_op [OF run [unfolded n], of c] \<open>s' \<noteq> s\<close> by blast
    moreover have "c < 2 ^ 63" using kv_backend.reach_store_inv [OF assms(1,2)] by simp
    ultimately show ?thesis
      using kv_backend.exec_amem [OF assms(1) inv, of "OpDelete x ns k"] d that
      by (cases "kv_ok B E c (OpDelete x ns k) s") simp_all
  qed
  then show False using con x by (cases "t = x") (auto split: if_splits)
qed

theorem kv_http_isolated_witness:
  "let s' = snd (authMiddleware demo_sha (NewKeyStore demo_sha [''a'']) False
       (requireTenantKey False (handleKVPut mem_bolt ref_codec (\<lambda>_. []) None 5 ''ns'' ''k'')) demo_put None s0) in
   amem mem_view ref_codec s' ''someone'' = amem mem_view ref_codec s0 ''someone''"
proof -
  have k: "requestKey demo_put = []" by code_simp
  have t: "ttlHeader demo_put = Inr ttl \<Longrightarrow> 5 + ttl < 2 ^ 63" for ttl using demo_put_ttl by simp
  show ?thesis
    using kv_http_isolated [OF ref_kv.kv_backend_axioms reach_s0, where r = demo_put and t = "''someone''" and
        route = "handleKVPut mem_bolt ref_codec (\<lambda>_. []) None 5 ''ns'' ''k''" and sha = demo_sha and keys = "NewKeyStore demo_sha [''a'']" and
        reqAuth = False and memKey = False and errText = "\<lambda>_. []" and statfs = None and ns = "''ns''" and k = "''k''"] k t
    by (simp add: Let_def PublicTenant_def prod_eq_iff)
qed

text \<open>The header is multiplied into nanoseconds without a check: a large one wraps to a record that never expires.\<close>

lemma ttl_header_overflow:
  "ttlHeader (demo_put\<lparr>rq_Header := [''X-TTL-Seconds'' \<mapsto> ''10000000000'']\<rparr>) = Inr (-8446744073709551616) \<and>
   IsZero (ExpiresAt (newRecord 5 v ct (-8446744073709551616)))"
  by (intro conjI, code_simp) (simp add: newRecord_def IsZero_def)

end
