(* ===== verification/HostFs.thy ===== *)
theory HostFs
  imports GoText
begin

text \<open>
  Directory trees as \<^verbatim>\<open>filepath.WalkDir\<close> sees them.  A leaf is any entry that is
  not a directory, a symbolic link included, with the size its \<^verbatim>\<open>Info\<close> reports if
  that succeeds.
\<close>

datatype fsnode = Leaf "int option" | Node "fsnode list"

fun dirSizeNode :: "fsnode \<Rightarrow> int" where
  "dirSizeNode (Leaf None) = 0"
| "dirSizeNode (Leaf (Some n)) = n"
| "dirSizeNode (Node xs) = sum_list (map dirSizeNode xs)"

end
