(* ===== verification/Volume.thy ===== *)
theory Volume
  imports HostFs GoPath
begin

text \<open>
  The volume manager of \<^verbatim>\<open>internal/memory/volume.go\<close>: named persistent
  directories, one writer at a time.  The Go map of volume pointers is an
  association list from keys to addresses in \<open>heap\<close>, so that a pointer obtained
  before a volume is deleted is still the same object afterwards.  The directory
  tree below the root is part of the state (\<open>vfs\<close>); the outcome of each system
  call, the clock, the JSON codec of \<^verbatim>\<open>meta.json\<close> and the minted uuid are
  arguments.  Definitions here; \<^verbatim>\<open>VolumeProps\<close> has the interleaving of the
  critical sections, the invariant and the properties.
\<close>

section \<open>Data\<close>

datatype vol_error =
    ErrVolNotFound | ErrExists | ErrBadName | ErrBadID | ErrBadTenant | ErrVolQuota | ErrDiskFull
  | ErrTooMany | ErrVolumeLocked | ErrBusy | ErrContainment | ErrContainmentWrap string | ErrIO string

definition hexd :: "char \<Rightarrow> bool" where
  "hexd c \<longleftrightarrow> between CHR ''0'' CHR ''9'' c \<or> between CHR ''a'' CHR ''f'' c"

definition alnum :: "char \<Rightarrow> bool" where
  "alnum c \<longleftrightarrow> between CHR ''A'' CHR ''Z'' c \<or> between CHR ''a'' CHR ''z'' c \<or> between CHR ''0'' CHR ''9'' c"

definition idPattern :: "(char \<Rightarrow> bool) list" where
  "idPattern =
     map (=) ''vol_'' @ replicate 8 hexd @ [(=) CHR ''-''] @ replicate 4 hexd @ [(=) CHR ''-''] @
     replicate 4 hexd @ [(=) CHR ''-''] @ replicate 4 hexd @ [(=) CHR ''-''] @ replicate 12 hexd"

definition idRe :: "string \<Rightarrow> bool" where
  "idRe s = list_all2 (\<lambda>p c. p c) idPattern s"

definition tenantRe :: "string \<Rightarrow> bool" where
  "tenantRe s \<longleftrightarrow> s = ''public'' \<or> 8 \<le> length s \<and> length s \<le> 64 \<and> list_all hexd s"

definition nameRe :: "string \<Rightarrow> bool" where
  "nameRe s =
     (case s of [] \<Rightarrow> False
      | c # t \<Rightarrow> alnum c \<and> length t \<le> 63 \<and>
          list_all (\<lambda>d. alnum d \<or> d = CHR '' '' \<or> d = CHR ''.'' \<or> d = CHR ''_'' \<or> d = CHR ''-'') t)"

definition orphanGrace :: int where "orphanGrace = 60 * seconds"

record meta =
  md_ID :: string
  md_Tenant :: string
  md_Name :: string
  md_CreatedAt :: int

record Volume =
  ID :: string
  Tenant :: string
  VName :: string
  CreatedAt :: int
  rwHolder :: string

record Info =
  i_ID :: string
  i_Name :: string
  i_CreatedAt :: int
  DiskBytes :: int
  AttachedRW :: bool

text \<open>
  The tree below the root.  A directory entry of a tenant carries the bytes of
  its \<^verbatim>\<open>meta.json\<close> if there is one, the contents of \<^verbatim>\<open>data\<close> if that exists, and
  the modification time \<^verbatim>\<open>os.Stat\<close> reports.
\<close>

record vol_dir =
  vd_isDir :: bool
  vd_meta :: "bytes option"
  vd_data :: "fsnode option"
  vd_mod :: "int option"

record ten_dir =
  td_isDir :: bool
  td_vols :: "(string \<times> vol_dir) list"

type_synonym vroot = "(string \<times> ten_dir) list"

record manager =
  m_Root :: string
  DiskQuota :: int
  GlobalDiskMax :: int
  MaxVolPerTenant :: int
  MinFreeBytes :: int
  vols :: "(string \<times> nat) list"
  heap :: "Volume list"
  used :: int
  vfs :: vroot

record config =
  c_Root :: string
  c_DiskQuota :: int
  c_GlobalDiskMax :: int
  c_MaxVolPerTenant :: int
  c_MinFreeBytes :: int

text \<open>What the operating system and the codec answer.\<close>

record vol_env =
  marshal :: "meta \<Rightarrow> bytes option"
  unmarshal :: "bytes \<Rightarrow> meta option"
  foldOther :: "bytes \<Rightarrow> bytes \<Rightarrow> bool"
  evalSymlinks :: "string \<Rightarrow> string option"
  statfs :: "(int \<times> int) option"
  rootReads :: bool
  tenantReads :: "string \<Rightarrow> bool"
  removeOk :: "string \<Rightarrow> string \<Rightarrow> bool"
  now :: int

definition key :: "string \<Rightarrow> string \<Rightarrow> string" where
  "key tenant vid = tenant @ ''/'' @ vid"

definition EqualFold :: "vol_env \<Rightarrow> bytes \<Rightarrow> bytes \<Rightarrow> bool" where
  "EqualFold E s t = (if is_ascii s \<and> is_ascii t then map ascii_lower s = map ascii_lower t else foldOther E s t)"

section \<open>The tree\<close>

definition get_vol :: "vroot \<Rightarrow> string \<Rightarrow> string \<Rightarrow> vol_dir option" where
  "get_vol fs t i = (case map_of fs t of None \<Rightarrow> None | Some td \<Rightarrow> map_of (td_vols td) i)"

definition del_vol :: "string \<Rightarrow> string \<Rightarrow> vroot \<Rightarrow> vroot" where
  "del_vol t i fs =
     map (\<lambda>(t', td). (t', if t' = t then td\<lparr>td_vols := filter (\<lambda>p. fst p \<noteq> i) (td_vols td)\<rparr> else td)) fs"

definition put_vol :: "string \<Rightarrow> string \<Rightarrow> vol_dir \<Rightarrow> vroot \<Rightarrow> vroot" where
  "put_vol t i vd fs =
     (let td = (case map_of fs t of None \<Rightarrow> \<lparr>td_isDir = True, td_vols = []\<rparr> | Some td \<Rightarrow> td) in
      (t, td\<lparr>td_isDir := True, td_vols := (i, vd) # filter (\<lambda>p. fst p \<noteq> i) (td_vols td)\<rparr>) # filter (\<lambda>p. fst p \<noteq> t) fs)"

definition removeAll_vol :: "vol_env \<Rightarrow> string \<Rightarrow> string \<Rightarrow> vroot \<Rightarrow> vroot" where
  "removeAll_vol E t i fs = (if removeOk E t i then del_vol t i fs else fs)"

text \<open>The walk adds the sizes in a 64-bit counter; a missing root adds nothing.\<close>

definition dirSize :: "fsnode option \<Rightarrow> int" where
  "dirSize d = (case d of None \<Rightarrow> 0 | Some nd \<Rightarrow> wrap64 (dirSizeNode nd))"

definition sizeAt :: "manager \<Rightarrow> string \<Rightarrow> string \<Rightarrow> int" where
  "sizeAt m t i = dirSize (Option.bind (get_vol (vfs m) t i) vd_data)"

definition readVolMeta :: "vol_env \<Rightarrow> vol_dir \<Rightarrow> meta option" where
  "readVolMeta E vd = Option.bind (vd_meta vd) (unmarshal E)"

definition validMeta :: "vol_env \<Rightarrow> string \<Rightarrow> string \<Rightarrow> vol_dir \<Rightarrow> bool" where
  "validMeta E t i vd =
     (case readVolMeta E vd of None \<Rightarrow> False | Some md \<Rightarrow> md_ID md = i \<and> md_Tenant md = t)"

section \<open>Start-up\<close>

definition addVolume :: "Volume \<Rightarrow> manager \<Rightarrow> manager" where
  "addVolume v m = m\<lparr>vols := map_put (key (Tenant v) (ID v)) (length (heap m)) (vols m), heap := heap m @ [v]\<rparr>"

definition volumeOf :: "meta \<Rightarrow> Volume" where
  "volumeOf md = \<lparr>ID = md_ID md, Tenant = md_Tenant md, VName = md_Name md, CreatedAt = md_CreatedAt md, rwHolder = ''''\<rparr>"

definition scanEntry :: "vol_env \<Rightarrow> string \<Rightarrow> string \<times> vol_dir \<Rightarrow> manager \<times> int \<Rightarrow> manager \<times> int" where
  "scanEntry E tenant e acc =
     (case (e, acc) of ((vid, vd), (m, tot)) \<Rightarrow>
      if \<not> vd_isDir vd \<or> \<not> idRe vid then (m\<lparr>vfs := removeAll_vol E tenant vid (vfs m)\<rparr>, tot)
      else (case readVolMeta E vd of
          None \<Rightarrow> (m\<lparr>vfs := removeAll_vol E tenant vid (vfs m)\<rparr>, tot)
        | Some md \<Rightarrow>
            if md_ID md \<noteq> vid \<or> md_Tenant md \<noteq> tenant
            then (m\<lparr>vfs := removeAll_vol E tenant vid (vfs m)\<rparr>, tot)
            else (addVolume (volumeOf md) m, wrap64 (tot + dirSize (vd_data vd)))))"

definition scanTenant :: "vol_env \<Rightarrow> string \<times> ten_dir \<Rightarrow> manager \<times> int \<Rightarrow> manager \<times> int" where
  "scanTenant E te acc =
     (case te of (tenant, td) \<Rightarrow>
      if \<not> td_isDir td \<or> \<not> tenantRe tenant then acc
      else if \<not> tenantReads E tenant then acc
      else fold (scanEntry E tenant) (td_vols td) acc)"

definition scan :: "vol_env \<Rightarrow> manager \<Rightarrow> manager" where
  "scan E m =
     (if \<not> rootReads E then m
      else (case fold (scanTenant E) (vfs m) (m, 0) of (m', tot) \<Rightarrow> m'\<lparr>used := tot\<rparr>))"

definition NewManager :: "vol_env \<Rightarrow> config \<Rightarrow> bool \<Rightarrow> vroot \<Rightarrow> (string, manager) result" where
  "NewManager E cfg mkdirOk fs =
     (if c_Root cfg = [] then Inl ''volume root required''
      else if \<not> mkdirOk then Inl ''create volume root''
      else Inr (scan E \<lparr>m_Root = c_Root cfg,
        DiskQuota = (if c_DiskQuota cfg \<le> 0 then 536870912 else c_DiskQuota cfg),
        GlobalDiskMax = (if c_GlobalDiskMax cfg \<le> 0 then 8589934592 else c_GlobalDiskMax cfg),
        MaxVolPerTenant = (if c_MaxVolPerTenant cfg \<le> 0 then 100 else c_MaxVolPerTenant cfg),
        MinFreeBytes = c_MinFreeBytes cfg, vols = [], heap = [], used = 0, vfs = fs\<rparr>))"

section \<open>Create\<close>

definition DiskFull :: "vol_env \<Rightarrow> manager \<Rightarrow> bool" where
  "DiskFull E m =
     (if used m \<ge> GlobalDiskMax m then True
      else if MinFreeBytes m \<le> 0 then False
      else (case statfs E of None \<Rightarrow> False
        | Some (bavail, bsize) \<Rightarrow> wrap64 (bavail * bsize) < MinFreeBytes m))"

definition ofTenant :: "manager \<Rightarrow> string \<Rightarrow> Volume list" where
  "ofTenant m tenant = filter (\<lambda>v. Tenant v = tenant) (map (\<lambda>(k, a). heap m ! a) (vols m))"

record create_io =
  mkdirOk :: bool
  mkdirPartial :: bool
  chmodOk :: bool
  writeOk :: bool
  renameOk :: bool

definition writeVolMeta :: "vol_env \<Rightarrow> create_io \<Rightarrow> vol_dir \<Rightarrow> meta \<Rightarrow> (string, vol_dir) result" where
  "writeVolMeta E io vd md =
     (case marshal E md of None \<Rightarrow> Inl ''json''
      | Some b \<Rightarrow> if \<not> writeOk io then Inl ''write'' else if \<not> renameOk io then Inl ''rename''
          else Inr (vd\<lparr>vd_meta := Some b\<rparr>))"

definition displayName :: "string \<Rightarrow> string" where
  "displayName nm = (let t = TrimSpace nm in if t = [] then ''memory'' else t)"

definition Create :: "vol_env \<Rightarrow> create_io \<Rightarrow> string \<Rightarrow> manager \<Rightarrow> string \<Rightarrow> string \<Rightarrow> (vol_error, Info) result \<times> manager" where
  "Create E io uuid m tenant nm0 =
     (let nm = displayName nm0 in
      if \<not> tenantRe tenant then (Inl ErrBadTenant, m)
      else if \<not> nameRe nm then (Inl ErrBadName, m)
      else if MinFreeBytes m > 0 \<and> DiskFull E m then (Inl ErrDiskFull, m)
      else if list_ex (\<lambda>v. EqualFold E (VName v) nm) (ofTenant m tenant) then (Inl ErrExists, m)
      else if int (length (ofTenant m tenant)) \<ge> MaxVolPerTenant m then (Inl ErrTooMany, m)
      else if used m \<ge> GlobalDiskMax m then (Inl ErrDiskFull, m)
      else
        let vid = ''vol_'' @ uuid;
            vd = \<lparr>vd_isDir = True, vd_meta = None, vd_data = Some (Node []), vd_mod = Some (now E)\<rparr>;
            md = \<lparr>md_ID = vid, md_Tenant = tenant, md_Name = nm, md_CreatedAt = now E\<rparr>;
            made = put_vol tenant vid vd (vfs m)
        in if \<not> mkdirOk io
           then (Inl (ErrIO ''create volume dir''),
                 if mkdirPartial io then m\<lparr>vfs := put_vol tenant vid (vd\<lparr>vd_data := None\<rparr>) (vfs m)\<rparr> else m)
           else if \<not> chmodOk io
           then (Inl (ErrIO ''chmod volume data''), m\<lparr>vfs := removeAll_vol E tenant vid made\<rparr>)
           else (case writeVolMeta E io vd md of
               Inl e \<Rightarrow> (Inl (ErrIO ''write meta''), m\<lparr>vfs := removeAll_vol E tenant vid made\<rparr>)
             | Inr vd' \<Rightarrow>
                 (Inr \<lparr>i_ID = vid, i_Name = nm, i_CreatedAt = now E, DiskBytes = 0, AttachedRW = False\<rparr>,
                  addVolume (volumeOf md) (m\<lparr>vfs := put_vol tenant vid vd' (vfs m)\<rparr>))))"

section \<open>Reads\<close>

definition lookup :: "manager \<Rightarrow> string \<Rightarrow> string \<Rightarrow> (vol_error, nat) result" where
  "lookup m tenant vid =
     (if \<not> tenantRe tenant then Inl ErrBadTenant
      else if \<not> idRe vid then Inl ErrBadID
      else case map_of (vols m) (key tenant vid) of None \<Rightarrow> Inl ErrVolNotFound | Some a \<Rightarrow> Inr a)"

definition infoOf :: "manager \<Rightarrow> Volume \<Rightarrow> Info" where
  "infoOf m v = \<lparr>i_ID = ID v, i_Name = VName v, i_CreatedAt = CreatedAt v,
     DiskBytes = sizeAt m (Tenant v) (ID v), AttachedRW = (rwHolder v \<noteq> '''')\<rparr>"

definition Get :: "manager \<Rightarrow> string \<Rightarrow> string \<Rightarrow> (vol_error, Info) result" where
  "Get m tenant vid = andThen (lookup m tenant vid) (\<lambda>a. Inr (infoOf m (heap m ! a)))"

definition ListVols :: "manager \<Rightarrow> string \<Rightarrow> (vol_error, Info list) result" where
  "ListVols m tenant =
     (if \<not> tenantRe tenant then Inl ErrBadTenant
      else Inr (sort_key i_Name (map (infoOf m) (ofTenant m tenant))))"

definition dataDir :: "manager \<Rightarrow> string \<Rightarrow> string \<Rightarrow> string" where
  "dataDir m tenant vid = Join [m_Root m, tenant, vid, ''data'']"

definition HostPath :: "vol_env \<Rightarrow> manager \<Rightarrow> string \<Rightarrow> string \<Rightarrow> (vol_error, string) result" where
  "HostPath E m tenant vid =
     andThen (lookup m tenant vid) (\<lambda>_.
       let tenantRoot = Join [m_Root m, tenant]; cand = Join [tenantRoot, vid, ''data''] in
       case evalSymlinks E tenantRoot of None \<Rightarrow> Inl (ErrContainmentWrap ''tenant root'')
       | Some realRoot \<Rightarrow>
         (case evalSymlinks E cand of None \<Rightarrow> Inl (ErrContainmentWrap '''')
          | Some realCand \<Rightarrow>
            if realCand \<noteq> realRoot \<and> \<not> HasPrefix realCand (realRoot @ ''/'') then Inl ErrContainment
            else Inr realCand))"

definition OverQuota :: "manager \<Rightarrow> string \<Rightarrow> string \<Rightarrow> (vol_error, bool \<times> int) result" where
  "OverQuota m tenant vid =
     andThen (lookup m tenant vid) (\<lambda>_. let sz = sizeAt m tenant vid in Inr (sz > DiskQuota m, sz))"

definition Count :: "manager \<Rightarrow> nat" where "Count m = length (vols m)"

section \<open>Attach, release, delete\<close>

definition setHolder :: "nat \<Rightarrow> string \<Rightarrow> manager \<Rightarrow> manager" where
  "setHolder a s m = m\<lparr>heap := (heap m)[a := (heap m ! a)\<lparr>rwHolder := s\<rparr>]\<rparr>"

text \<open>
  \<open>Attach\<close> up to the lock: the pointer and the path, or for a read-only attach
  the path alone.
\<close>

definition attachPre :: "vol_env \<Rightarrow> manager \<Rightarrow> string \<Rightarrow> string \<Rightarrow> string \<Rightarrow> bool \<Rightarrow> (vol_error, string \<times> nat option) result" where
  "attachPre E m tenant vid sid wantRW =
     andThen (lookup m tenant vid) (\<lambda>a.
     andThen (HostPath E m tenant vid) (\<lambda>hp.
       if \<not> wantRW then Inr (hp, None)
       else andThen (OverQuota m tenant vid) (\<lambda>(over, _).
         if over then Inl ErrVolQuota
         else if MinFreeBytes m > 0 \<and> rwHolder (heap m ! a) \<noteq> sid \<and> DiskFull E m then Inl ErrDiskFull
         else Inr (hp, Some a))))"

definition attachLock :: "manager \<Rightarrow> nat \<Rightarrow> string \<Rightarrow> (vol_error, manager) result" where
  "attachLock m a sid =
     (let h = rwHolder (heap m ! a) in
      if h \<noteq> '''' \<and> h \<noteq> sid then Inl ErrVolumeLocked else Inr (setHolder a sid m))"

definition Attach :: "vol_env \<Rightarrow> manager \<Rightarrow> string \<Rightarrow> string \<Rightarrow> string \<Rightarrow> bool \<Rightarrow> (vol_error, string \<times> bool) result \<times> manager" where
  "Attach E m tenant vid sid wantRW =
     (case attachPre E m tenant vid sid wantRW of
        Inl e \<Rightarrow> (Inl e, m)
      | Inr (hp, None) \<Rightarrow> (Inr (hp, False), m)
      | Inr (hp, Some a) \<Rightarrow>
          (case attachLock m a sid of Inl e \<Rightarrow> (Inl e, m) | Inr m' \<Rightarrow> (Inr (hp, True), m')))"

definition Release :: "manager \<Rightarrow> string \<Rightarrow> string \<Rightarrow> string \<Rightarrow> manager" where
  "Release m tenant vid sid =
     (case map_of (vols m) (key tenant vid) of None \<Rightarrow> m
      | Some a \<Rightarrow> if rwHolder (heap m ! a) = sid then setHolder a '''' m else m)"

definition ReleaseAll :: "manager \<Rightarrow> string \<Rightarrow> manager" where
  "ReleaseAll m sid =
     fold (\<lambda>(k, a) m'. if rwHolder (heap m' ! a) = sid then setHolder a '''' m' else m') (vols m) m"

text \<open>\<open>Delete\<close> after the lookup, up to the removal of the directory.\<close>

definition deleteLock :: "manager \<Rightarrow> string \<Rightarrow> string \<Rightarrow> nat \<Rightarrow> (vol_error, manager) result" where
  "deleteLock m tenant vid a =
     (if rwHolder (heap m ! a) \<noteq> '''' then Inl ErrBusy
      else let u = wrap64 (used m - sizeAt m tenant vid) in
        Inr (m\<lparr>vols := map_del (key tenant vid) (vols m), used := (if u < 0 then 0 else u)\<rparr>))"

definition Delete :: "vol_env \<Rightarrow> manager \<Rightarrow> string \<Rightarrow> string \<Rightarrow> vol_error option \<times> manager" where
  "Delete E m tenant vid =
     (case lookup m tenant vid of Inl e \<Rightarrow> (Some e, m)
      | Inr a \<Rightarrow>
        (case deleteLock m tenant vid a of Inl e \<Rightarrow> (Some e, m)
         | Inr m' \<Rightarrow> (if removeOk E tenant vid then None else Some (ErrIO ''remove''),
                     m'\<lparr>vfs := removeAll_vol E tenant vid (vfs m')\<rparr>)))"

section \<open>Maintenance\<close>

text \<open>The decision on one directory entry, given the keys known when the walk began.\<close>

definition sweepEntry :: "vol_env \<Rightarrow> string list \<Rightarrow> string \<Rightarrow> string \<times> vol_dir \<Rightarrow> manager \<Rightarrow> manager" where
  "sweepEntry E known tenant e m =
     (case e of (vid, vd) \<Rightarrow>
      if \<not> vd_isDir vd \<or> \<not> idRe vid then m\<lparr>vfs := removeAll_vol E tenant vid (vfs m)\<rparr>
      else if key tenant vid \<in> set known then m
      else if validMeta E tenant vid vd then m
      else if (case vd_mod vd of None \<Rightarrow> False | Some t \<Rightarrow> now E - t < orphanGrace) then m
      else m\<lparr>vfs := removeAll_vol E tenant vid (vfs m)\<rparr>)"

definition sweepTenant :: "vol_env \<Rightarrow> string list \<Rightarrow> string \<times> ten_dir \<Rightarrow> manager \<Rightarrow> manager" where
  "sweepTenant E known te m =
     (case te of (tenant, td) \<Rightarrow>
      if \<not> td_isDir td \<or> \<not> tenantRe tenant then m
      else if \<not> tenantReads E tenant then m
      else fold (sweepEntry E known tenant) (td_vols td) m)"

definition dataGone :: "manager \<Rightarrow> Volume \<Rightarrow> bool" where
  "dataGone m v = (Option.bind (get_vol (vfs m) (Tenant v) (ID v)) vd_data = None)"

definition dropGone :: "manager \<Rightarrow> manager" where
  "dropGone m = m\<lparr>vols := filter (\<lambda>(k, a). \<not> dataGone m (heap m ! a)) (vols m)\<rparr>"

definition SweepOrphans :: "vol_env \<Rightarrow> manager \<Rightarrow> manager" where
  "SweepOrphans E m =
     (if \<not> rootReads E then m
      else dropGone (fold (sweepTenant E (map fst (vols m))) (vfs m) m))"

definition recount :: "manager \<Rightarrow> int" where
  "recount m = fold (\<lambda>(k, a) tot. wrap64 (tot + sizeAt m (Tenant (heap m ! a)) (ID (heap m ! a)))) (vols m) 0"

definition Sweep :: "vol_env \<Rightarrow> manager \<Rightarrow> manager" where
  "Sweep E m = (let m' = SweepOrphans E m in m'\<lparr>used := recount m'\<rparr>)"

end
