(* ===== verification/VolumeProps.thy ===== *)
theory VolumeProps
  imports Volume
begin

text \<open>
  The volume manager under concurrency.  \<open>vstep\<close> interleaves the critical
  sections of the operations of \<^verbatim>\<open>Volume\<close>: a pointer looked up before the lock
  may be used after other requests have run, the removal of a deleted directory
  comes after the lock is dropped, and the orphan sweep works entry by entry
  with a snapshot of the index that may be out of date.  The ghost set \<open>held\<close>
  records which session was granted which volume for writing and has not
  released it.
\<close>

section \<open>The tree and the patterns\<close>

lemma get_del_vol: "get_vol (del_vol t i fs) t' i' = (if t' = t \<and> i' = i then None else get_vol fs t' i')"
proof -
  have "map_of (del_vol t i fs) t' =
      map_option (\<lambda>td. if t' = t then td\<lparr>td_vols := filter (\<lambda>p. fst p \<noteq> i) (td_vols td)\<rparr> else td) (map_of fs t')"
    by (induction fs) (auto simp: del_vol_def)
  then show ?thesis
    by (auto simp: get_vol_def map_of_filter_fst split: option.splits)
qed

lemma get_put_vol: "get_vol (put_vol t i vd fs) t' i' = (if t' = t \<and> i' = i then Some vd else get_vol fs t' i')"
  by (auto simp: get_vol_def put_vol_def Let_def map_of_filter_fst split: option.splits)

lemma get_removeAll_vol:
  "get_vol (removeAll_vol E t i fs) t' i' = (if removeOk E t i \<and> t' = t \<and> i' = i then None else get_vol fs t' i')"
  by (simp add: removeAll_vol_def get_del_vol)

lemmas get_vol_simps = get_del_vol get_put_vol get_removeAll_vol

lemma hexd_not: "\<not> hexd CHR ''/''" "\<not> hexd CHR ''.''"
  by (simp_all add: hexd_def less_eq_char_def)

lemma tenantRe_no_slash: "tenantRe t \<Longrightarrow> slash \<notin> set t"
  using hexd_not by (auto simp: tenantRe_def list_all_iff)

lemma tenantRe_name_ok: "tenantRe t \<Longrightarrow> name_ok t"
  using tenantRe_no_slash [of t] by (auto simp: name_ok_def tenantRe_def)

lemma idRe_length: "idRe s \<Longrightarrow> length s = 40"
  by (auto simp: idRe_def idPattern_def dest: list_all2_lengthD)

lemma idRe_no_slash: "idRe s \<Longrightarrow> slash \<notin> set s"
proof
  assume s: "idRe s" and "slash \<in> set s"
  then obtain n where n: "n < length s" "s ! n = slash" by (auto simp: in_set_conv_nth)
  have "\<forall>p \<in> set idPattern. \<not> p slash"
    using hexd_not by (auto simp: idPattern_def)
  moreover have "length idPattern = length s" "(idPattern ! n) (s ! n)"
    using s n by (auto simp: idRe_def list_all2_conv_all_nth)
  ultimately show False using n by (metis nth_mem)
qed

lemma idRe_name_ok: "idRe s \<Longrightarrow> name_ok s"
  using idRe_no_slash [of s] idRe_length [of s] by (auto simp: name_ok_def)

lemma key_inj: "slash \<notin> set t \<Longrightarrow> slash \<notin> set t' \<Longrightarrow> key t i = key t' i' \<longleftrightarrow> t = t' \<and> i = i'"
  unfolding key_def
  by (induction t arbitrary: t') (auto simp: append_eq_Cons_conv Cons_eq_append_conv split: list.splits,
      (case_tac t'; auto)+)

lemma key_inj_tenant: "tenantRe t \<Longrightarrow> tenantRe t' \<Longrightarrow> key t i = key t' i' \<longleftrightarrow> t = t' \<and> i = i'"
  by (simp add: key_inj tenantRe_no_slash)
text \<open>Names are unique within a directory, and only a directory has entries.\<close>

definition ten_ok :: "ten_dir \<Rightarrow> bool" where
  "ten_ok td \<longleftrightarrow> distinct (map fst (td_vols td)) \<and> (td_vols td \<noteq> [] \<longrightarrow> td_isDir td)"

definition fs_ok :: "vroot \<Rightarrow> bool" where
  "fs_ok fs \<longleftrightarrow> distinct (map fst fs) \<and> (\<forall>(t, td) \<in> set fs. ten_ok td)"

lemma fs_ok_del: "fs_ok fs \<Longrightarrow> fs_ok (del_vol t i fs)"
proof -
  assume f: "fs_ok fs"
  have e: "map fst (del_vol t i fs) = map fst fs" by (auto simp: del_vol_def)
  have "ten_ok td'" if x: "(t', td') \<in> set (del_vol t i fs)" for t' td'
  proof -
    obtain td where "(t', td) \<in> set fs" and td': "td' = (if t' = t then td\<lparr>td_vols := filter (\<lambda>p. fst p \<noteq> i) (td_vols td)\<rparr> else td)"
      using x unfolding del_vol_def by auto
    then have "ten_ok td" using f by (auto simp: fs_ok_def)
    then show ?thesis unfolding td' by (auto simp: ten_ok_def distinct_filter_fst)
  qed
  then show "fs_ok (del_vol t i fs)" using f by (auto simp: fs_ok_def e)
qed

lemma fs_ok_removeAll: "fs_ok fs \<Longrightarrow> fs_ok (removeAll_vol E t i fs)"
  by (simp add: removeAll_vol_def fs_ok_del)

lemma fs_ok_put: "fs_ok fs \<Longrightarrow> fs_ok (put_vol t i vd fs)"
  unfolding fs_ok_def ten_ok_def put_vol_def Let_def
  by (auto simp: distinct_filter_fst split: option.splits dest!: map_of_SomeD)

section \<open>Interleavings\<close>

definition same_codec :: "vol_env \<Rightarrow> vol_env \<Rightarrow> bool" where
  "same_codec C E \<longleftrightarrow> marshal E = marshal C \<and> unmarshal E = unmarshal C \<and> foldOther E = foldOther C"

text \<open>What \<^verbatim>\<open>encoding/json\<close> promises of the metadata record.\<close>

definition codec_ok :: "vol_env \<Rightarrow> bool" where
  "codec_ok C \<longleftrightarrow> (\<forall>md b. marshal C md = Some b \<longrightarrow> unmarshal C b = Some md)"

record vworld =
  mgr :: manager
  attaching :: "(nat \<times> string) set"
  deleting :: "(string \<times> string \<times> nat) set"
  deleted :: "(string \<times> string) set"
  snaps :: "string list set"
  held :: "(nat \<times> string) set"
  minted :: "string set"

definition vids :: "manager \<Rightarrow> string set" where
  "vids m = ID ` set (heap m)"

inductive vstep :: "vol_env \<Rightarrow> vworld \<Rightarrow> vworld \<Rightarrow> bool" for C where
  v_create: "same_codec C E \<Longrightarrow> idRe (''vol_'' @ u) \<Longrightarrow> ''vol_'' @ u \<notin> minted w \<Longrightarrow>
    \<forall>t'. get_vol (vfs (mgr w)) t' (''vol_'' @ u) = None \<Longrightarrow>
    Create E io u (mgr w) t nm = (r, m') \<Longrightarrow>
    vstep C w (w\<lparr>mgr := m', minted := insert (''vol_'' @ u) (minted w)\<rparr>)"
| v_attach: "attachPre E (mgr w) t i s True = Inr (hp, Some a) \<Longrightarrow> s \<noteq> '''' \<Longrightarrow>
    vstep C w (w\<lparr>attaching := insert (a, s) (attaching w)\<rparr>)"
| v_grant: "(a, s) \<in> attaching w \<Longrightarrow> attachLock (mgr w) a s = Inr m' \<Longrightarrow>
    vstep C w (w\<lparr>mgr := m', held := insert (a, s) (held w), attaching := attaching w - {(a, s)}\<rparr>)"
| v_release: "vstep C w (w\<lparr>mgr := Release (mgr w) t i s,
      held := held w - {(a, s') . s' = s \<and> map_of (vols (mgr w)) (key t i) = Some a}\<rparr>)"
| v_releaseAll: "vstep C w (w\<lparr>mgr := ReleaseAll (mgr w) s,
      held := held w - {(a, s') . s' = s \<and> a \<in> snd ` set (vols (mgr w))}\<rparr>)"
| v_delete: "lookup (mgr w) t i = Inr a \<Longrightarrow> vstep C w (w\<lparr>deleting := insert (t, i, a) (deleting w)\<rparr>)"
| v_unindex: "(t, i, a) \<in> deleting w \<Longrightarrow> deleteLock (mgr w) t i a = Inr m' \<Longrightarrow>
    vstep C w (w\<lparr>mgr := m', deleted := insert (t, i) (deleted w)\<rparr>)"
| v_remove: "(t, i) \<in> deleted w \<Longrightarrow>
    vstep C w (w\<lparr>mgr := (mgr w)\<lparr>vfs := removeAll_vol E t i (vfs (mgr w))\<rparr>\<rparr>)"
| v_snapshot: "vstep C w (w\<lparr>snaps := insert (map fst (vols (mgr w))) (snaps w)\<rparr>)"
| v_sweep: "known \<in> snaps w \<Longrightarrow> same_codec C E \<Longrightarrow> get_vol (vfs (mgr w)) t i = Some vd \<Longrightarrow> tenantRe t \<Longrightarrow>
    vstep C w (w\<lparr>mgr := sweepEntry E known t (i, vd) (mgr w)\<rparr>)"
| v_drop: "vstep C w (w\<lparr>mgr := dropGone (mgr w)\<rparr>)"
| v_recount: "vstep C w (w\<lparr>mgr := (mgr w)\<lparr>used := recount (mgr w)\<rparr>\<rparr>)"
| v_guest: "get_vol (vfs (mgr w)) t i = Some vd \<Longrightarrow> vd_data vd \<noteq> None \<Longrightarrow>
    vstep C w (w\<lparr>mgr := (mgr w)\<lparr>vfs := put_vol t i (vd\<lparr>vd_data := Some d\<rparr>) (vfs (mgr w))\<rparr>\<rparr>)"

text \<open>
  Within a tenant the names of two volumes differ even when case is ignored, and
  the number of volumes is within the cap.
\<close>

definition tenant_ok :: "vol_env \<Rightarrow> manager \<Rightarrow> bool" where
  "tenant_ok C m \<longleftrightarrow>
     (\<forall>t. int (length (ofTenant m t)) \<le> MaxVolPerTenant m \<and>
          sorted_wrt (\<lambda>x y. \<not> EqualFold C y x) (map VName (ofTenant m t)))"

inductive vreach :: "vol_env \<Rightarrow> vworld \<Rightarrow> bool" for C where
  v_start: "NewManager E cfg True fs = Inr m \<Longrightarrow> same_codec C E \<Longrightarrow> tenant_ok C m \<Longrightarrow>
    fs_ok fs \<Longrightarrow>
    vreach C \<lparr>mgr = m, attaching = {}, deleting = {}, deleted = {}, snaps = {}, held = {}, minted = vids m\<rparr>"
| v_next: "vreach C w \<Longrightarrow> vstep C w w' \<Longrightarrow> vreach C w'"

section \<open>The invariant\<close>

definition healthy :: "vol_env \<Rightarrow> manager \<Rightarrow> Volume \<Rightarrow> bool" where
  "healthy C m v \<longleftrightarrow>
     tenantRe (Tenant v) \<and> idRe (ID v) \<and>
     (\<exists>vd md. get_vol (vfs m) (Tenant v) (ID v) = Some vd \<and> vd_isDir vd \<and>
        readVolMeta C vd = Some md \<and> volumeOf md = v\<lparr>rwHolder := ''''\<rparr>)"

definition index_ok :: "manager \<Rightarrow> bool" where
  "index_ok m \<longleftrightarrow> distinct (map fst (vols m)) \<and> distinct (map (\<lambda>v. (Tenant v, ID v)) (heap m)) \<and>
     (\<forall>(k, a) \<in> set (vols m). a < length (heap m) \<and> k = key (Tenant (heap m ! a)) (ID (heap m ! a)))"

definition vol_inv :: "vol_env \<Rightarrow> manager \<Rightarrow> bool" where
  "vol_inv C m \<longleftrightarrow> index_ok m \<and> (\<forall>(k, a) \<in> set (vols m). healthy C m (heap m ! a))"

definition world_inv :: "vol_env \<Rightarrow> vworld \<Rightarrow> bool" where
  "world_inv C w \<longleftrightarrow> vol_inv C (mgr w) \<and> tenant_ok C (mgr w) \<and> vids (mgr w) \<subseteq> minted w \<and>
     (\<forall>(a, s) \<in> attaching w. a < length (heap (mgr w)) \<and> s \<noteq> '''') \<and>
     (\<forall>(a, s) \<in> held w. a < length (heap (mgr w)) \<and> s \<noteq> '''' \<and> rwHolder (heap (mgr w) ! a) = s) \<and>
     (\<forall>(t, i, a) \<in> deleting w. tenantRe t \<and> a < length (heap (mgr w)) \<and>
         Tenant (heap (mgr w) ! a) = t \<and> ID (heap (mgr w) ! a) = i) \<and>
     (\<forall>(t, i) \<in> deleted w. tenantRe t \<and> i \<in> minted w \<and> key t i \<notin> fst ` set (vols (mgr w)))"
section \<open>Adding a volume\<close>

definition entries :: "manager \<Rightarrow> Volume set" where
  "entries m = (\<lambda>(k, a). heap m ! a) ` set (vols m)"

definition fresh_pair :: "string \<Rightarrow> string \<Rightarrow> manager \<Rightarrow> bool" where
  "fresh_pair t i m \<longleftrightarrow> (t, i) \<notin> (\<lambda>v. (Tenant v, ID v)) ` set (heap m)"

lemma vol_invD:
  assumes "vol_inv C m" and "(k, a) \<in> set (vols m)"
  shows "a < length (heap m)" and "k = key (Tenant (heap m ! a)) (ID (heap m ! a))"
    and "healthy C m (heap m ! a)" and "tenantRe (Tenant (heap m ! a))" and "idRe (ID (heap m ! a))"
  using assms by (auto simp: vol_inv_def index_ok_def healthy_def)

lemma healthy_cong: "get_vol (vfs m') (Tenant v) (ID v) = get_vol (vfs m) (Tenant v) (ID v) \<Longrightarrow> healthy C m' v = healthy C m v"
  by (simp add: healthy_def)

lemma fresh_key:
  assumes "vol_inv C m" and "fresh_pair t i m" and "tenantRe t"
  shows "key t i \<notin> fst ` set (vols m)"
proof
  assume "key t i \<in> fst ` set (vols m)"
  then obtain a where a: "(key t i, a) \<in> set (vols m)" by auto
  have "key t i = key (Tenant (heap m ! a)) (ID (heap m ! a))" "tenantRe (Tenant (heap m ! a))"
    using vol_invD [OF assms(1) a] by auto
  then have "t = Tenant (heap m ! a)" "i = ID (heap m ! a)" using assms(3) by (auto simp: key_inj_tenant)
  then show False using vol_invD(1) [OF assms(1) a] assms(2) by (auto simp: fresh_pair_def)
qed

lemma addVolume_fresh:
  assumes "vol_inv C m" and "fresh_pair (Tenant v) (ID v) m" and "tenantRe (Tenant v)"
  shows "vols (addVolume v m) = (key (Tenant v) (ID v), length (heap m)) # vols m"
    and "heap (addVolume v m) = heap m @ [v]"
    and "vfs (addVolume v m) = vfs m"
  using fresh_key [OF assms] by (simp_all add: addVolume_def map_put_fresh)

lemma vol_inv_add:
  assumes inv: "vol_inv C m" and fr: "fresh_pair (Tenant v) (ID v) m" and h: "healthy C m v"
  shows "vol_inv C (addVolume v m)" and "entries (addVolume v m) = insert v (entries m)"
proof -
  have t: "tenantRe (Tenant v)" using h by (simp add: healthy_def)
  note A = addVolume_fresh [OF inv fr t] and k = fresh_key [OF inv fr t]
  have old: "(heap m @ [v]) ! a = heap m ! a" if "(j, a) \<in> set (vols m)" for j a
    using vol_invD(1) [OF inv that] by (simp add: nth_append)
  have hc: "healthy C (addVolume v m) u = healthy C m u" for u
    by (rule healthy_cong) (simp add: A)
  have "index_ok (addVolume v m)"
    using inv k fr old unfolding vol_inv_def index_ok_def A fresh_pair_def by (fastforce simp: image_iff)
  then show "vol_inv C (addVolume v m)"
    using inv h old unfolding vol_inv_def A hc by (fastforce simp: A)
  show "entries (addVolume v m) = insert v (entries m)"
    using old unfolding entries_def A by (force simp: image_iff)
qed

section \<open>Start-up\<close>

definition flat :: "vol_env \<Rightarrow> vroot \<Rightarrow> (string \<times> string \<times> vol_dir) list" where
  "flat E fs = concat (map (\<lambda>(t, td). if td_isDir td \<and> tenantRe t \<and> tenantReads E t
     then map (\<lambda>(i, vd). (t, i, vd)) (td_vols td) else []) fs)"

lemma fold_scanTenant: "fold (scanTenant E) fs acc = fold (\<lambda>(t, i, vd). scanEntry E t (i, vd)) (flat E fs) acc"
proof (induction fs arbitrary: acc)
  case (Cons te fs)
  obtain t td where te: "te = (t, td)" by force
  have "fold (scanEntry E t) xs acc' = fold (\<lambda>(t, i, vd). scanEntry E t (i, vd)) (map (\<lambda>(i, vd). (t, i, vd)) xs) acc'" for xs acc'
    by (induction xs arbitrary: acc') (auto split: prod.splits)
  then show ?case using Cons by (simp add: te flat_def scanTenant_def)
qed (simp add: flat_def)

definition loadable :: "vol_env \<Rightarrow> string \<times> string \<times> vol_dir \<Rightarrow> bool" where
  "loadable E x = (case x of (t, i, vd) \<Rightarrow> vd_isDir vd \<and> idRe i \<and> validMeta E t i vd)"

definition loaded :: "vol_env \<Rightarrow> string \<times> string \<times> vol_dir \<Rightarrow> Volume" where
  "loaded E x = (case x of (t, i, vd) \<Rightarrow> volumeOf (the (readVolMeta E vd)))"

lemma scanEntry_cases:
  "scanEntry E t (i, vd) (m, tot) =
     (if loadable E (t, i, vd) then (addVolume (loaded E (t, i, vd)) m, wrap64 (tot + dirSize (vd_data vd)))
      else (m\<lparr>vfs := removeAll_vol E t i (vfs m)\<rparr>, tot))"
  by (auto simp: scanEntry_def loadable_def loaded_def validMeta_def split: option.splits)

lemma loaded_healthy:
  assumes "loadable E (t, i, vd)" and "tenantRe t" and "get_vol (vfs m) t i = Some vd"
  shows "healthy E m (loaded E (t, i, vd))" and "Tenant (loaded E (t, i, vd)) = t" and "ID (loaded E (t, i, vd)) = i"
  using assms by (auto simp: healthy_def loadable_def loaded_def validMeta_def volumeOf_def split: option.splits)

text \<open>Changing the tree at a place no indexed volume occupies.\<close>

lemma vol_inv_elsewhere:
  assumes "vol_inv E m"
    and "\<And>k a. (k, a) \<in> set (vols m) \<Longrightarrow> (Tenant (heap m ! a), ID (heap m ! a)) \<noteq> (t, i)"
    and "\<And>t' i'. (t', i') \<noteq> (t, i) \<Longrightarrow> get_vol fs' t' i' = get_vol (vfs m) t' i'"
  shows "vol_inv E (m\<lparr>vfs := fs'\<rparr>)"
proof -
  have "healthy E (m\<lparr>vfs := fs'\<rparr>) (heap m ! a) = healthy E m (heap m ! a)" if "(k, a) \<in> set (vols m)" for k a
    by (rule healthy_cong) (use assms(2) [OF that] assms(3) in auto)
  then show ?thesis using assms(1) by (auto simp: vol_inv_def index_ok_def)
qed

lemma fresh_elsewhere:
  assumes "vol_inv E m" and "fresh_pair t i m" and "(k, a) \<in> set (vols m)"
  shows "(Tenant (heap m ! a), ID (heap m ! a)) \<noteq> (t, i)"
proof -
  have "heap m ! a \<in> set (heap m)" using vol_invD(1) [OF assms(1,3)] by simp
  then show ?thesis using assms(2) by (auto simp: fresh_pair_def)
qed

lemma vol_inv_remove:
  assumes "vol_inv E m" and "fresh_pair t i m"
  shows "vol_inv E (m\<lparr>vfs := removeAll_vol F t i (vfs m)\<rparr>)"
  by (rule vol_inv_elsewhere [OF assms(1) fresh_elsewhere [OF assms]]) (auto simp: get_removeAll_vol)
definition pairs_of :: "(string \<times> string \<times> vol_dir) list \<Rightarrow> (string \<times> string) list" where
  "pairs_of xs = map (\<lambda>(t, i, vd). (t, i)) xs"

definition scan_ready :: "(string \<times> string \<times> vol_dir) list \<Rightarrow> manager \<Rightarrow> bool" where
  "scan_ready xs m \<longleftrightarrow> distinct (pairs_of xs) \<and>
     (\<forall>(t, i, vd) \<in> set xs. tenantRe t \<and> get_vol (vfs m) t i = Some vd \<and> fresh_pair t i m)"

lemma scan_ready_step:
  assumes "scan_ready ((t, i, vd) # xs) m" and "vol_inv E m"
  shows "scan_ready xs (fst (scanEntry E t (i, vd) (m, tot)))"
proof -
  have r: "tenantRe t" "get_vol (vfs m) t i = Some vd" "fresh_pair t i m" "(t, i) \<notin> set (pairs_of xs)"
    and rest: "distinct (pairs_of xs)" "\<And>t' i' vd'. (t', i', vd') \<in> set xs \<Longrightarrow>
      tenantRe t' \<and> get_vol (vfs m) t' i' = Some vd' \<and> fresh_pair t' i' m"
    using assms(1) by (auto simp: scan_ready_def pairs_of_def)
  have ne: "(t', i') \<noteq> (t, i)" if "(t', i', vd') \<in> set xs" for t' i' vd'
    using r(4) that by (force simp: pairs_of_def)
  show ?thesis
  proof (cases "loadable E (t, i, vd)")
    case True
    note l = loaded_healthy [OF True r(1,2)]
    have A: "heap (addVolume (loaded E (t, i, vd)) m) = heap m @ [loaded E (t, i, vd)]"
      "vfs (addVolume (loaded E (t, i, vd)) m) = vfs m"
      using addVolume_fresh [OF assms(2)] l r by auto
    show ?thesis using True rest ne l A
      by (fastforce simp: scanEntry_cases scan_ready_def fresh_pair_def)
  next
    case False
    then show ?thesis using rest ne
      by (auto simp: scanEntry_cases scan_ready_def fresh_pair_def get_removeAll_vol)
  qed
qed

lemma scan_step_inv:
  assumes "scan_ready ((t, i, vd) # xs) m" and "vol_inv E m"
  shows "vol_inv E (fst (scanEntry E t (i, vd) (m, tot)))"
    and "entries (fst (scanEntry E t (i, vd) (m, tot))) =
      entries m \<union> (if loadable E (t, i, vd) then {loaded E (t, i, vd)} else {})"
proof -
  have r: "tenantRe t" "get_vol (vfs m) t i = Some vd" "fresh_pair t i m"
    using assms(1) by (auto simp: scan_ready_def)
  note l = loaded_healthy [OF _ r(1,2), of E]
  show "vol_inv E (fst (scanEntry E t (i, vd) (m, tot)))"
    using vol_inv_add(1) [OF assms(2)] vol_inv_remove [OF assms(2) r(3)] l r by (simp add: scanEntry_cases)
  show "entries (fst (scanEntry E t (i, vd) (m, tot))) =
      entries m \<union> (if loadable E (t, i, vd) then {loaded E (t, i, vd)} else {})"
    using vol_inv_add(2) [OF assms(2)] l r by (simp add: scanEntry_cases) (simp add: entries_def)
qed

lemma scan_fold:
  "scan_ready xs m \<Longrightarrow> vol_inv E m \<Longrightarrow> fold (\<lambda>(t, i, vd). scanEntry E t (i, vd)) xs (m, tot) = (m', tot') \<Longrightarrow>
   vol_inv E m' \<and> entries m' = entries m \<union> loaded E ` {x \<in> set xs. loadable E x}"
proof (induction xs arbitrary: m tot)
  case (Cons x xs)
  obtain t i vd where x: "x = (t, i, vd)" by (cases x)
  obtain m1 tot1 where s: "scanEntry E t (i, vd) (m, tot) = (m1, tot1)" by force
  have "scan_ready xs m1" "vol_inv E m1"
    "entries m1 = entries m \<union> (if loadable E (t, i, vd) then {loaded E (t, i, vd)} else {})"
    using scan_ready_step [of t i vd xs m E tot] scan_step_inv [of t i vd xs m E tot] Cons.prems x s by simp_all
  then show ?case using Cons.IH [of m1 tot1] Cons.prems x s by (auto split: if_splits)
qed auto

lemma flat_Cons: "flat E ((t, td) # fs) =
    (if td_isDir td \<and> tenantRe t \<and> tenantReads E t then map (\<lambda>(i, vd). (t, i, vd)) (td_vols td) else []) @ flat E fs"
  by (simp add: flat_def)

lemma in_flat: "(t, i, vd) \<in> set (flat E fs) \<longleftrightarrow>
    (\<exists>td. (t, td) \<in> set fs \<and> td_isDir td \<and> tenantRe t \<and> tenantReads E t \<and> (i, vd) \<in> set (td_vols td))"
  by (induction fs) (auto simp: flat_Cons, simp_all add: flat_def)

lemma flat_get:
  assumes "fs_ok fs"
  shows "(t, i, vd) \<in> set (flat E fs) \<longleftrightarrow>
    tenantRe t \<and> tenantReads E t \<and> get_vol fs t i = Some vd \<and> td_isDir (the (map_of fs t))"
proof -
  have "(t, td) \<in> set fs \<longleftrightarrow> map_of fs t = Some td" for td
    using assms by (simp add: fs_ok_def map_of_eq_Some_iff)
  moreover have "(i, vd) \<in> set (td_vols td) \<longleftrightarrow> map_of (td_vols td) i = Some vd" if "(t, td) \<in> set fs" for td
    using assms that by (auto simp: fs_ok_def ten_ok_def map_of_eq_Some_iff)
  ultimately show ?thesis by (auto simp: in_flat get_vol_def split: option.splits)
qed

lemma flat_distinct: "fs_ok fs \<Longrightarrow> distinct (pairs_of (flat E fs))"
proof (induction fs)
  case (Cons te fs)
  obtain t td where te: "te = (t, td)" by force
  have d: "distinct (pairs_of (flat E fs))" using Cons by (simp add: fs_ok_def)
  have "t \<notin> fst ` set fs" using Cons.prems by (simp add: fs_ok_def te)
  then have no: "(t, i) \<notin> set (pairs_of (flat E fs))" for i
    by (force simp: pairs_of_def in_flat)
  have "pairs_of (map (\<lambda>(i, vd). (t, i, vd)) xs) = map (Pair t) (map fst xs)" for xs
    by (induction xs) (auto simp: pairs_of_def)
  moreover have "distinct (map fst (td_vols td))" using Cons.prems by (simp add: fs_ok_def ten_ok_def te)
  ultimately have new: "distinct (pairs_of (map (\<lambda>(i, vd). (t, i, vd)) (td_vols td)))"
    "set (pairs_of (map (\<lambda>(i, vd). (t, i, vd)) (td_vols td))) \<inter> set (pairs_of (flat E fs)) = {}"
    using no by (auto simp: distinct_map inj_on_def)
  have app: "pairs_of (xs @ ys) = pairs_of xs @ pairs_of ys" for xs ys by (simp add: pairs_of_def)
  have nil: "pairs_of [] = []" by (simp add: pairs_of_def)
  show ?case unfolding te flat_Cons app distinct_append using d new nil
    by (cases "td_isDir td \<and> tenantRe t \<and> tenantReads E t") (simp_all only: if_True if_False, simp_all)
qed (simp add: flat_def pairs_of_def)

lemma NewManager_scan:
  assumes "NewManager E cfg True fs = Inr m" and "fs_ok fs" and "rootReads E"
  shows "vol_inv E m" and "entries m = loaded E ` {x \<in> set (flat E fs). loadable E x}"
proof -
  define m0 where "m0 = \<lparr>m_Root = c_Root cfg,
        DiskQuota = (if c_DiskQuota cfg \<le> 0 then 536870912 else c_DiskQuota cfg),
        GlobalDiskMax = (if c_GlobalDiskMax cfg \<le> 0 then 8589934592 else c_GlobalDiskMax cfg),
        MaxVolPerTenant = (if c_MaxVolPerTenant cfg \<le> 0 then 100 else c_MaxVolPerTenant cfg),
        MinFreeBytes = c_MinFreeBytes cfg, vols = [], heap = [], used = 0, vfs = fs\<rparr>"
  have m: "m = scan E m0" using assms(1) by (simp add: NewManager_def m0_def split: if_splits)
  obtain m' tot where f: "fold (scanTenant E) fs (m0, 0) = (m', tot)" by force
  have v0: "vol_inv E m0" by (simp add: vol_inv_def index_ok_def m0_def)
  have rdy: "scan_ready (flat E fs) m0"
    using flat_distinct [OF assms(2)] flat_get [OF assms(2)]
    by (auto simp: scan_ready_def m0_def fresh_pair_def)
  have "vol_inv E m' \<and> entries m' = entries m0 \<union> loaded E ` {x \<in> set (flat E fs). loadable E x}"
    using scan_fold [OF rdy v0] f by (simp add: fold_scanTenant)
  moreover have "vfs m0 = fs" "entries m0 = {}" by (simp_all add: m0_def entries_def)
  ultimately show "vol_inv E m" "entries m = loaded E ` {x \<in> set (flat E fs). loadable E x}"
    using m f assms(3) by (simp_all add: scan_def vol_inv_def index_ok_def healthy_def entries_def)
qed

lemma NewManager_unread:
  assumes "NewManager E cfg True fs = Inr m" and "\<not> rootReads E"
  shows "vol_inv E m"
  using assms by (auto simp: NewManager_def scan_def vol_inv_def index_ok_def split: if_splits)
section \<open>Preservation\<close>

definition strip :: "Volume \<Rightarrow> Volume" where
  "strip v = v\<lparr>rwHolder := ''''\<rparr>"

lemma strip_sel [simp]: "Tenant (strip v) = Tenant v" "ID (strip v) = ID v" "VName (strip v) = VName v"
  by (simp_all add: strip_def)

lemma strip_eqD: "strip v = strip u \<Longrightarrow> Tenant v = Tenant u \<and> ID v = ID u \<and> VName v = VName u"
  by (metis strip_sel)

text \<open>Managers that differ in who holds a volume, and in the byte counter.\<close>

definition same_volumes :: "manager \<Rightarrow> manager \<Rightarrow> bool" where
  "same_volumes m m' \<longleftrightarrow> map strip (heap m') = map strip (heap m) \<and> vols m' = vols m \<and> vfs m' = vfs m \<and>
     MaxVolPerTenant m' = MaxVolPerTenant m"

lemma same_volumesD:
  assumes "same_volumes m m'"
  shows "length (heap m') = length (heap m)" and "a < length (heap m) \<Longrightarrow> strip (heap m' ! a) = strip (heap m ! a)"
proof -
  have e: "map strip (heap m') = map strip (heap m)" using assms by (simp add: same_volumes_def)
  show l: "length (heap m') = length (heap m)" using arg_cong [OF e, of length] by simp
  show "a < length (heap m) \<Longrightarrow> strip (heap m' ! a) = strip (heap m ! a)"
    using arg_cong [OF e, of "\<lambda>xs. xs ! a"] l by simp
qed

lemma same_volumes_key:
  assumes "same_volumes m m'" and "a < length (heap m)"
  shows "Tenant (heap m' ! a) = Tenant (heap m ! a)" "ID (heap m' ! a) = ID (heap m ! a)"
    "VName (heap m' ! a) = VName (heap m ! a)"
  using strip_eqD [OF same_volumesD(2) [OF assms]] by auto

lemma same_volumes_heap:
  assumes "same_volumes m m'"
  shows "vids m' = vids m" and "map (\<lambda>v. (Tenant v, ID v)) (heap m') = map (\<lambda>v. (Tenant v, ID v)) (heap m)"
proof -
  have e: "map strip (heap m') = map strip (heap m)" using assms by (simp add: same_volumes_def)
  show "vids m' = vids m"
    using arg_cong [OF e, of "\<lambda>xs. ID ` set xs"] by (simp add: vids_def image_image)
  show "map (\<lambda>v. (Tenant v, ID v)) (heap m') = map (\<lambda>v. (Tenant v, ID v)) (heap m)"
    using arg_cong [OF e, of "map (\<lambda>v. (Tenant v, ID v))"] by (simp add: comp_def)
qed

lemma healthy_strip:
  assumes "strip u = strip v" and "vfs m' = vfs m"
  shows "healthy C m' u = healthy C m v"
  using assms strip_eqD [OF assms(1)] by (simp add: healthy_def strip_def)

lemma vol_inv_same:
  assumes "same_volumes m m'" and "vol_inv C m"
  shows "vol_inv C m'"
proof -
  have v: "vols m' = vols m" "vfs m' = vfs m" using assms(1) by (simp_all add: same_volumes_def)
  have "healthy C m' (heap m' ! a)" if "(k, a) \<in> set (vols m)" for k a
    using vol_invD [OF assms(2) that] healthy_strip [OF same_volumesD(2) [OF assms(1)] v(2)] by blast
  moreover have "index_ok m'"
    using assms(2) same_volumes_heap(2) [OF assms(1)] same_volumesD(1) [OF assms(1)]
    by (auto simp: vol_inv_def index_ok_def v same_volumes_key [OF assms(1)])
  ultimately show ?thesis by (auto simp: vol_inv_def v)
qed

lemma tenant_ok_same:
  assumes "same_volumes m m'" and "vol_inv C m" and "tenant_ok C m"
  shows "tenant_ok C m'"
proof -
  have v: "vols m' = vols m" "MaxVolPerTenant m' = MaxVolPerTenant m" using assms(1) by (simp_all add: same_volumes_def)
  have st: "map strip (map (\<lambda>(k, a). heap m' ! a) (vols m)) = map strip (map (\<lambda>(k, a). heap m ! a) (vols m))"
    using vol_invD(1) [OF assms(2)] same_volumesD(2) [OF assms(1)] by auto
  have "map strip (ofTenant m' t) = map strip (ofTenant m t)" for t
    using arg_cong [OF st, of "filter (\<lambda>v. Tenant v = t)"] by (simp add: ofTenant_def v filter_map comp_def)
  then have "length (ofTenant m' t) = length (ofTenant m t) \<and> map VName (ofTenant m' t) = map VName (ofTenant m t)" for t
    using arg_cong [of "map strip (ofTenant m' t)" _ length] arg_cong [of "map strip (ofTenant m' t)" _ "map VName"]
    by (metis (no_types, lifting) length_map map_map comp_apply map_cong strip_sel(3))
  then show ?thesis using assms(3) by (simp add: tenant_ok_def v)
qed

lemma same_volumes_setHolder: "same_volumes m (setHolder a s m)"
  by (cases "a < length (heap m)")
     (auto simp: same_volumes_def setHolder_def map_update strip_def intro: nth_equalityI simp: nth_list_update)

lemma same_volumes_trans: "same_volumes m m' \<Longrightarrow> same_volumes m' m'' \<Longrightarrow> same_volumes m m''"
  by (simp add: same_volumes_def)

lemma holder_setHolder:
  "a < length (heap m) \<Longrightarrow> rwHolder (heap (setHolder b s m) ! a) = (if a = b then s else rwHolder (heap m ! a))"
  by (simp add: setHolder_def nth_list_update)

lemma releaseAll_fold:
  "let m' = fold (\<lambda>(k, a) m'. if rwHolder (heap m' ! a) = s then setHolder a '''' m' else m') xs m in
   same_volumes m m' \<and>
   (\<forall>a < length (heap m). rwHolder (heap m' ! a) =
      (if a \<in> snd ` set xs \<and> rwHolder (heap m ! a) = s then '''' else rwHolder (heap m ! a)))"
proof (induction xs arbitrary: m)
  case (Cons x xs)
  obtain k b where x: "x = (k, b)" by force
  define m1 where "m1 = (if rwHolder (heap m ! b) = s then setHolder b '''' m else m)"
  have s1: "same_volumes m m1" using same_volumes_setHolder by (simp add: m1_def same_volumes_def)
  have h1: "rwHolder (heap m1 ! a) = (if a = b \<and> rwHolder (heap m ! a) = s then '''' else rwHolder (heap m ! a))"
    if "a < length (heap m)" for a
    using that by (auto simp: m1_def holder_setHolder)
  show ?case
    using Cons.IH [of m1] s1 h1 same_volumesD(1) [OF s1]
    by (auto simp: x Let_def m1_def [symmetric] intro: same_volumes_trans)
qed (simp add: same_volumes_def)

lemma same_volumes_Release: "same_volumes m (Release m t i s)"
  using same_volumes_setHolder by (auto simp: Release_def same_volumes_def split: option.splits)

lemma holder_Release:
  "a < length (heap m) \<Longrightarrow> rwHolder (heap (Release m t i s) ! a) =
     (if map_of (vols m) (key t i) = Some a \<and> rwHolder (heap m ! a) = s then '''' else rwHolder (heap m ! a))"
  by (auto simp: Release_def holder_setHolder split: option.splits)
lemma same_volumes_used [simp]: "same_volumes m (m\<lparr>used := n\<rparr>)"
  by (simp add: same_volumes_def)

lemma vol_inv_filter:
  assumes "vol_inv C m"
  shows "vol_inv C (m\<lparr>vols := filter P (vols m)\<rparr>)"
  using assms by (auto simp: vol_inv_def index_ok_def healthy_def distinct_map_filter)

lemma ofTenant_map: "ofTenant m t = map (\<lambda>(k, a). heap m ! a) (filter (\<lambda>(k, a). Tenant (heap m ! a) = t) (vols m))"
  by (simp add: ofTenant_def filter_map comp_def split_def)

lemma tenant_ok_filter:
  assumes "tenant_ok C m"
  shows "tenant_ok C (m\<lparr>vols := filter P (vols m)\<rparr>)"
  unfolding tenant_ok_def
proof (intro allI conjI)
  fix t
  let ?m = "m\<lparr>vols := filter P (vols m)\<rparr>"
  have f: "filter (\<lambda>(k, a). Tenant (heap m ! a) = t) (filter P (vols m)) =
      filter P (filter (\<lambda>(k, a). Tenant (heap m ! a) = t) (vols m))" (is "_ = filter P ?xs")
    by (simp add: conj_commute)
  have l: "int (length (ofTenant m t)) \<le> MaxVolPerTenant m"
    and s: "sorted_wrt (\<lambda>x y. \<not> EqualFold C y x) (map VName (ofTenant m t))"
    using assms by (simp_all add: tenant_ok_def)
  have o: "ofTenant ?m t = map (\<lambda>(k, a). heap m ! a) (filter P ?xs)"
    unfolding f [symmetric] ofTenant_map by simp
  have o': "ofTenant m t = map (\<lambda>(k, a). heap m ! a) ?xs" by (rule ofTenant_map)
  show "int (length (ofTenant ?m t)) \<le> MaxVolPerTenant ?m"
    using l length_filter_le [of P ?xs] unfolding o o' length_map by simp
  show "sorted_wrt (\<lambda>x y. \<not> EqualFold C y x) (map VName (ofTenant ?m t))"
    using s unfolding o o' sorted_wrt_map by (rule sorted_wrt_filter)
qed

lemma ofTenant_add:
  assumes "vol_inv C m" and "fresh_pair (Tenant v) (ID v) m" and "tenantRe (Tenant v)"
  shows "ofTenant (addVolume v m) t = (if Tenant v = t then [v] else []) @ ofTenant m t"
proof -
  have "(heap m @ [v]) ! a = heap m ! a" if "(k, a) \<in> set (vols m)" for k a
    using vol_invD(1) [OF assms(1) that] by (simp add: nth_append)
  then have "map (\<lambda>(k, a). (heap m @ [v]) ! a) (vols m) = map (\<lambda>(k, a). heap m ! a) (vols m)" by auto
  then show ?thesis unfolding ofTenant_def addVolume_fresh [OF assms] by (simp del: map_eq_conv)
qed

lemma same_codec_simps:
  "same_codec C E \<Longrightarrow> marshal E = marshal C" "same_codec C E \<Longrightarrow> unmarshal E = unmarshal C"
  "same_codec C E \<Longrightarrow> foldOther E = foldOther C"
  "same_codec C E \<Longrightarrow> readVolMeta E = readVolMeta C" "same_codec C E \<Longrightarrow> EqualFold E = EqualFold C"
  "same_codec C E \<Longrightarrow> healthy E = healthy C" "same_codec C E \<Longrightarrow> vol_inv E = vol_inv C"
  by (simp_all add: same_codec_def readVolMeta_def [abs_def] EqualFold_def [abs_def] healthy_def [abs_def] vol_inv_def [abs_def])

text \<open>A sweep decision never touches the directory of an indexed volume, whatever snapshot it works from.\<close>

lemma sweepEntry_cases:
  "sweepEntry E known t (i, vd) m = m \<or>
   sweepEntry E known t (i, vd) m = m\<lparr>vfs := removeAll_vol E t i (vfs m)\<rparr> \<and> \<not> (vd_isDir vd \<and> idRe i \<and> validMeta E t i vd)"
  by (auto simp: sweepEntry_def)

lemma volumeOf_eq: "volumeOf md = v\<lparr>rwHolder := ''''\<rparr> \<Longrightarrow> md_ID md = ID v \<and> md_Tenant md = Tenant v"
  by (cases v) (simp add: volumeOf_def)

lemma healthy_valid:
  assumes "healthy C m v" and "same_codec C E" and "get_vol (vfs m) (Tenant v) (ID v) = Some vd"
  shows "vd_isDir vd \<and> idRe (ID v) \<and> validMeta E (Tenant v) (ID v) vd"
proof -
  obtain md where "vd_isDir vd" "idRe (ID v)" "readVolMeta C vd = Some md" "volumeOf md = v\<lparr>rwHolder := ''''\<rparr>"
    using assms by (auto simp: healthy_def)
  then show ?thesis
    using same_codec_simps(4) [OF assms(2)] volumeOf_eq [of md v] by (simp add: validMeta_def)
qed

lemma vol_inv_sweepEntry:
  assumes inv: "vol_inv C m" and E: "same_codec C E" and g: "get_vol (vfs m) t i = Some vd"
  shows "vol_inv C (sweepEntry E known t (i, vd) m)"
proof -
  consider "sweepEntry E known t (i, vd) m = m"
    | "sweepEntry E known t (i, vd) m = m\<lparr>vfs := removeAll_vol E t i (vfs m)\<rparr>"
      "\<not> (vd_isDir vd \<and> idRe i \<and> validMeta E t i vd)"
    using sweepEntry_cases by blast
  then show ?thesis
  proof cases
    case 2
    have "(Tenant (heap m ! a), ID (heap m ! a)) \<noteq> (t, i)" if "(k, a) \<in> set (vols m)" for k a
      using healthy_valid [OF vol_invD(3) [OF inv that] E] g 2(2) by auto
    then have "vol_inv C (m\<lparr>vfs := removeAll_vol E t i (vfs m)\<rparr>)"
      by (intro vol_inv_elsewhere [OF inv, of t i]) (auto simp: get_removeAll_vol)
    then show ?thesis by (simp add: 2(1))
  qed (simp add: inv)
qed

lemma sweepEntry_fields:
  "vols (sweepEntry E known t e m) = vols m" "heap (sweepEntry E known t e m) = heap m"
  "MaxVolPerTenant (sweepEntry E known t e m) = MaxVolPerTenant m"
  using sweepEntry_cases [of E known t "fst e" "snd e" m] by auto

lemma tenant_ok_cong: "vols m' = vols m \<Longrightarrow> heap m' = heap m \<Longrightarrow> MaxVolPerTenant m' = MaxVolPerTenant m \<Longrightarrow> tenant_ok C m' = tenant_ok C m"
  by (simp add: tenant_ok_def ofTenant_def)

lemma vol_inv_guest:
  assumes "vol_inv C m" and "get_vol (vfs m) t i = Some vd"
  shows "vol_inv C (m\<lparr>vfs := put_vol t i (vd\<lparr>vd_data := d\<rparr>) (vfs m)\<rparr>)"
  using assms unfolding vol_inv_def index_ok_def healthy_def readVolMeta_def
  by (fastforce simp: get_put_vol)

lemma vids_simps: "vids (m\<lparr>vfs := f\<rparr>) = vids m" "vids (m\<lparr>vols := x\<rparr>) = vids m" "vids (m\<lparr>used := n\<rparr>) = vids m"
  by (simp_all add: vids_def)
lemma Create_cases:
  assumes "Create E io u m t nm0 = (r, m')"
  obtains (same) e where "r = Inl e" "m' = m"
  | (debris) e fs' where "r = Inl e" "m' = m\<lparr>vfs := fs'\<rparr>"
      "\<And>t' i'. (t', i') \<noteq> (t, ''vol_'' @ u) \<Longrightarrow> get_vol fs' t' i' = get_vol (vfs m) t' i'"
      "fs_ok (vfs m) \<Longrightarrow> fs_ok fs'"
  | (made) b md fs' where "md = \<lparr>md_ID = ''vol_'' @ u, md_Tenant = t, md_Name = displayName nm0, md_CreatedAt = now E\<rparr>"
      "tenantRe t" "marshal E md = Some b" "int (length (ofTenant m t)) < MaxVolPerTenant m"
      "\<forall>v \<in> set (ofTenant m t). \<not> EqualFold E (VName v) (displayName nm0)"
      "fs' = put_vol t (''vol_'' @ u) \<lparr>vd_isDir = True, vd_meta = Some b, vd_data = Some (Node []), vd_mod = Some (now E)\<rparr> (vfs m)"
      "m' = addVolume (volumeOf md) (m\<lparr>vfs := fs'\<rparr>)"
      "r = Inr \<lparr>i_ID = ''vol_'' @ u, i_Name = displayName nm0, i_CreatedAt = now E, DiskBytes = 0, AttachedRW = False\<rparr>"
proof (cases "\<not> tenantRe t \<or> \<not> nameRe (displayName nm0) \<or> MinFreeBytes m > 0 \<and> DiskFull E m \<or>
    list_ex (\<lambda>v. EqualFold E (VName v) (displayName nm0)) (ofTenant m t) \<or>
    int (length (ofTenant m t)) \<ge> MaxVolPerTenant m \<or> used m \<ge> GlobalDiskMax m")
  case True
  then have "\<exists>e. r = Inl e \<and> m' = m"
    using assms unfolding Create_def Let_def by (auto split: if_splits)
  then show thesis using same by blast
next
  case ok: False
  let ?vid = "''vol_'' @ u"
  let ?vd = "\<lparr>vd_isDir = True, vd_meta = None, vd_data = Some (Node []), vd_mod = Some (now E)\<rparr>"
  let ?md = "\<lparr>md_ID = ?vid, md_Tenant = t, md_Name = displayName nm0, md_CreatedAt = now E\<rparr>"
  show thesis
  proof (cases "\<exists>b. writeVolMeta E io ?vd ?md = Inr b \<and> mkdirOk io \<and> chmodOk io")
    case True
    then obtain b where "marshal E ?md = Some b" "writeVolMeta E io ?vd ?md = Inr (?vd\<lparr>vd_meta := Some b\<rparr>)"
      "mkdirOk io" "chmodOk io"
      by (auto simp: writeVolMeta_def split: option.splits if_splits)
    then show thesis using made [OF refl _ _ _ _ refl, of b] ok assms by (auto simp: Create_def Let_def list_ex_iff)
  next
    case False
    then have "(\<exists>e. r = Inl e) \<and> (m' = m \<or> (\<exists>x. m' = m\<lparr>vfs := put_vol t ?vid x (vfs m)\<rparr>) \<or>
        (\<exists>x. m' = m\<lparr>vfs := removeAll_vol E t ?vid (put_vol t ?vid x (vfs m))\<rparr>))"
      using ok assms unfolding Create_def Let_def by (auto split: if_splits sum.splits)
    then obtain e where r: "r = Inl e" and "m' = m \<or> (\<exists>x. m' = m\<lparr>vfs := put_vol t ?vid x (vfs m)\<rparr>) \<or>
        (\<exists>x. m' = m\<lparr>vfs := removeAll_vol E t ?vid (put_vol t ?vid x (vfs m))\<rparr>)" by blast
    from this(2) show thesis
    proof (elim disjE exE)
      fix x assume "m' = m\<lparr>vfs := put_vol t ?vid x (vfs m)\<rparr>"
      then show thesis by (rule debris [OF r]) (auto simp: get_vol_simps fs_ok_put)
    next
      fix x assume "m' = m\<lparr>vfs := removeAll_vol E t ?vid (put_vol t ?vid x (vfs m))\<rparr>"
      then show thesis by (rule debris [OF r]) (auto simp: get_vol_simps fs_ok_put fs_ok_removeAll)
    qed (rule same [OF r])
  qed
qed

lemma vol_inv_create:
  assumes inv: "vol_inv C m" "tenant_ok C m" and C: "codec_ok C" "same_codec C E"
    and fr: "idRe (''vol_'' @ u)" "''vol_'' @ u \<notin> vids m"
    and c: "Create E io u m t nm0 = (r, m')"
  shows "vol_inv C m' \<and> tenant_ok C m' \<and> vids m' \<subseteq> insert (''vol_'' @ u) (vids m) \<and>
    (\<exists>hs. heap m' = heap m @ hs) \<and> fst ` set (vols m') \<subseteq> insert (key t (''vol_'' @ u)) (fst ` set (vols m)) \<and>
    (vols m' \<noteq> vols m \<longrightarrow> tenantRe t)"
proof -
  have fp: "fresh_pair t' (''vol_'' @ u) m" for t' using fr(2) by (auto simp: fresh_pair_def vids_def)
  have else: "vol_inv C (m\<lparr>vfs := fs'\<rparr>)"
    if "\<And>t' i'. (t', i') \<noteq> (t, ''vol_'' @ u) \<Longrightarrow> get_vol fs' t' i' = get_vol (vfs m) t' i'" for fs'
    by (rule vol_inv_elsewhere [OF inv(1) fresh_elsewhere [OF inv(1) fp [of t]]]) (use that in blast)+
  from c show ?thesis
  proof (cases rule: Create_cases)
    case same
    then show ?thesis using inv by auto
  next
    case (debris e fs')
    then show ?thesis using inv else tenant_ok_cong [of m' m C] by (auto simp: vids_def)
  next
    case (made b md fs')
    let ?v = "volumeOf md" and ?m = "m\<lparr>vfs := fs'\<rparr>"
    have v: "Tenant ?v = t" "ID ?v = ''vol_'' @ u" "VName ?v = displayName nm0"
      using made(1) by (simp_all add: volumeOf_def)
    have m1: "vol_inv C ?m" by (rule else) (auto simp: made(6) get_put_vol)
    have f1: "fresh_pair (Tenant ?v) (ID ?v) ?m" using fp v by (simp add: fresh_pair_def)
    have "unmarshal C b = Some md" using C made(3) by (simp add: codec_ok_def same_codec_def)
    then have h: "healthy C ?m ?v"
      using made(2,6) fr(1) v by (simp add: healthy_def get_put_vol readVolMeta_def) (simp add: volumeOf_def)
    have t: "tenantRe (Tenant ?v)" using made(2) v by simp
    note A = addVolume_fresh [OF m1 f1 t] and O = ofTenant_add [OF m1 f1 t]
    have Om: "ofTenant ?m = ofTenant m" by (rule ext) (simp add: ofTenant_def)
    have mx: "MaxVolPerTenant (addVolume ?v ?m) = MaxVolPerTenant m" by (simp add: addVolume_def)
    have "tenant_ok C m'"
      using inv(2) made(4,5) v unfolding tenant_ok_def made(7) O Om mx
      by (auto simp: same_codec_simps(5) [OF C(2)])
    then show ?thesis using vol_inv_add(1) [OF m1 f1 h] made(2,7) A v by (auto simp: vids_def)
  qed
qed

lemma world_create:
  assumes w: "world_inv C w" and C: "codec_ok C" "same_codec C E"
    and fr: "idRe (''vol_'' @ u)" "''vol_'' @ u \<notin> minted w"
    and c: "Create E io u (mgr w) t nm = (r, m')"
  shows "world_inv C (w\<lparr>mgr := m', minted := insert (''vol_'' @ u) (minted w)\<rparr>)"
proof -
  have inv: "vol_inv C (mgr w)" "tenant_ok C (mgr w)" and sub: "vids (mgr w) \<subseteq> minted w"
    using w by (simp_all add: world_inv_def)
  have n: "''vol_'' @ u \<notin> vids (mgr w)" using fr(2) sub by auto
  note K = vol_inv_create [OF inv C fr(1) n c]
  then obtain hs where hs: "heap m' = heap (mgr w) @ hs" by auto
  have old: "a < length (heap (mgr w)) \<Longrightarrow> a < length (heap m') \<and> heap m' ! a = heap (mgr w) ! a" for a
    by (simp add: hs nth_append)
  have del: "key t' i' \<notin> fst ` set (vols m')" if "(t', i') \<in> deleted w" for t' i'
  proof -
    have d: "tenantRe t'" "i' \<in> minted w" "key t' i' \<notin> fst ` set (vols (mgr w))"
      using w that by (auto simp: world_inv_def)
    have "vols m' = vols (mgr w) \<or> key t' i' \<noteq> key t (''vol_'' @ u)"
      using K d(1,2) fr(2) key_inj_tenant [of t' t] by metis
    then show ?thesis using K d(3) by auto
  qed
  show ?thesis
    using w K old del unfolding world_inv_def by auto
qed

lemma world_unindex:
  assumes w: "world_inv C w" and d: "(t, i, a) \<in> deleting w" and l: "deleteLock (mgr w) t i a = Inr m'"
  shows "world_inv C (w\<lparr>mgr := m', deleted := insert (t, i) (deleted w)\<rparr>)"
proof -
  obtain n where m': "m' = (mgr w)\<lparr>vols := filter (\<lambda>p. fst p \<noteq> key t i) (vols (mgr w))\<rparr>\<lparr>used := n\<rparr>"
    using l by (auto simp: deleteLock_def Let_def map_del_def split: if_splits)
  let ?m = "(mgr w)\<lparr>vols := filter (\<lambda>p. fst p \<noteq> key t i) (vols (mgr w))\<rparr>"
  have v: "vol_inv C ?m" "tenant_ok C ?m"
    using w vol_inv_filter tenant_ok_filter by (auto simp: world_inv_def)
  have "vol_inv C m'" "tenant_ok C m'"
    unfolding m' using vol_inv_same [OF same_volumes_used v(1)] tenant_ok_same [OF same_volumes_used v] by auto
  moreover have "tenantRe t" "a < length (heap (mgr w))" "ID (heap (mgr w) ! a) = i" "vids (mgr w) \<subseteq> minted w"
    using w d unfolding world_inv_def by auto
  moreover from this have "i \<in> minted w" using nth_mem [of a "heap (mgr w)"] by (auto simp: vids_def)
  ultimately show ?thesis using w unfolding world_inv_def m' by (auto simp: vids_simps)
qed
lemma world_same:
  assumes w: "world_inv C w" and s: "same_volumes (mgr w) m'"
    and h: "\<And>a s. (a, s) \<in> H \<Longrightarrow> a < length (heap (mgr w)) \<and> s \<noteq> '''' \<and> rwHolder (heap m' ! a) = s"
    and at: "A \<subseteq> attaching w"
  shows "world_inv C (w\<lparr>mgr := m', held := H, attaching := A\<rparr>)"
proof -
  have v: "vol_inv C (mgr w)" "tenant_ok C (mgr w)" using w by (simp_all add: world_inv_def)
  have e: "vols m' = vols (mgr w)" "vids m' = vids (mgr w)" "length (heap m') = length (heap (mgr w))"
    using s same_volumes_heap(1) [OF s] same_volumesD(1) [OF s] by (simp_all add: same_volumes_def)
  have d: "\<forall>(t, i, a) \<in> deleting w. tenantRe t \<and> a < length (heap (mgr w)) \<and>
      Tenant (heap m' ! a) = t \<and> ID (heap m' ! a) = i"
    using w same_volumes_key [OF s] by (auto simp: world_inv_def)
  show ?thesis
    using w h at vol_inv_same [OF s v(1)] tenant_ok_same [OF s v] d by (auto simp: world_inv_def e)
qed

lemma world_fs:
  assumes "world_inv C w" and "vol_inv C m'" and "vols m' = vols (mgr w)" "heap m' = heap (mgr w)"
    "MaxVolPerTenant m' = MaxVolPerTenant (mgr w)"
  shows "world_inv C (w\<lparr>mgr := m'\<rparr>)"
  using assms tenant_ok_cong [of m' "mgr w" C] by (simp add: world_inv_def vids_def)

lemma lookup_Inr:
  assumes "lookup m t i = Inr a"
  shows "tenantRe t" "idRe i" "(key t i, a) \<in> set (vols m)" "map_of (vols m) (key t i) = Some a"
  using assms by (auto simp: lookup_def split: if_splits option.splits dest: map_of_SomeD)

lemma lookup_volume:
  assumes "vol_inv C m" and "lookup m t i = Inr a"
  shows "a < length (heap m)" "Tenant (heap m ! a) = t" "ID (heap m ! a) = i"
  using vol_invD [OF assms(1) lookup_Inr(3) [OF assms(2)]] lookup_Inr(1) [OF assms(2)]
  by (auto simp: key_inj_tenant)

lemma attachPre_lookup: "attachPre E m t i s rw = Inr (hp, Some a) \<Longrightarrow> lookup m t i = Inr a"
  by (auto simp: attachPre_def andThen_Inr_iff split: if_splits prod.splits)

lemma vstep_inv:
  assumes C: "codec_ok C" and w: "world_inv C w" and s: "vstep C w w'"
  shows "world_inv C w'"
  using s
proof cases
  case (v_create E u io t nm r m')
  then show ?thesis using world_create [OF w C] by simp
next
  case (v_attach E t i s hp a)
  have "a < length (heap (mgr w))"
    using w lookup_volume [OF _ attachPre_lookup [OF v_attach(2)]] by (auto simp: world_inv_def)
  then show ?thesis using w v_attach by (auto simp: world_inv_def)
next
  case (v_grant a s m')
  have a: "a < length (heap (mgr w))" "s \<noteq> ''''" using w v_grant(2) by (auto simp: world_inv_def)
  have m': "m' = setHolder a s (mgr w)" "rwHolder (heap (mgr w) ! a) = '''' \<or> rwHolder (heap (mgr w) ! a) = s"
    using v_grant(3) by (auto simp: attachLock_def Let_def split: if_splits)
  have "b < length (heap (mgr w)) \<and> s' \<noteq> '''' \<and> rwHolder (heap m' ! b) = s'" if "(b, s') \<in> insert (a, s) (held w)" for b s'
  proof -
    have b: "b < length (heap (mgr w))" "s' \<noteq> ''''" "(b, s') = (a, s) \<or> rwHolder (heap (mgr w) ! b) = s'"
      using that w a by (auto simp: world_inv_def)
    then show ?thesis using m' a by (auto simp: holder_setHolder)
  qed
  then have "world_inv C (w\<lparr>mgr := m', held := insert (a, s) (held w), attaching := attaching w - {(a, s)}\<rparr>)"
    using m' by (intro world_same [OF w]) (auto simp: same_volumes_setHolder)
  then show ?thesis by (simp add: v_grant(1))
next
  case (v_release s t i)
  let ?H = "held w - {(a, s') . s' = s \<and> map_of (vols (mgr w)) (key t i) = Some a}"
  have "world_inv C (w\<lparr>mgr := Release (mgr w) t i s, held := ?H, attaching := attaching w\<rparr>)"
    by (rule world_same [OF w]) (use w in \<open>auto simp: same_volumes_Release world_inv_def holder_Release\<close>)
  then show ?thesis by (simp add: v_release)
next
  case (v_releaseAll s)
  let ?H = "held w - {(a, s') . s' = s \<and> a \<in> snd ` set (vols (mgr w))}"
  note R = releaseAll_fold [of s "vols (mgr w)" "mgr w", unfolded Let_def, folded ReleaseAll_def]
  have "world_inv C (w\<lparr>mgr := ReleaseAll (mgr w) s, held := ?H, attaching := attaching w\<rparr>)"
    by (rule world_same [OF w]) (use w R in \<open>auto simp: world_inv_def\<close>)
  then show ?thesis by (simp add: v_releaseAll)
next
  case (v_delete t i a)
  then show ?thesis
    using w lookup_volume [OF _ v_delete(2)] lookup_Inr [OF v_delete(2)] by (auto simp: world_inv_def)
next
  case (v_unindex t i a m')
  then show ?thesis using world_unindex [OF w] by simp
next
  case (v_remove t i E)
  have v: "vol_inv C (mgr w)" using w by (simp add: world_inv_def)
  have n: "(Tenant (heap (mgr w) ! a), ID (heap (mgr w) ! a)) \<noteq> (t, i)" if "(k, a) \<in> set (vols (mgr w))" for k a
  proof -
    have "key t i \<notin> fst ` set (vols (mgr w))" using w v_remove(2) by (auto simp: world_inv_def)
    moreover have "k \<in> fst ` set (vols (mgr w))" using image_eqI [OF _ that, of k fst] by simp
    ultimately show ?thesis using vol_invD(2) [OF v that] by auto
  qed
  have "vol_inv C ((mgr w)\<lparr>vfs := removeAll_vol E t i (vfs (mgr w))\<rparr>)"
    by (rule vol_inv_elsewhere [OF v n]) (auto simp: get_removeAll_vol)
  then show ?thesis using v_remove(1) world_fs [OF w] by simp
next
  case v_snapshot
  then show ?thesis using w by (simp add: world_inv_def)
next
  case (v_sweep known E t i vd)
  have "vol_inv C (mgr w)" using w by (simp add: world_inv_def)
  from vol_inv_sweepEntry [OF this v_sweep(3,4)] show ?thesis
    using v_sweep(1) world_fs [OF w] by (simp add: sweepEntry_fields)
next
  case v_drop
  have d: "vol_inv C (dropGone (mgr w))" "tenant_ok C (dropGone (mgr w))" "heap (dropGone (mgr w)) = heap (mgr w)"
      "fst ` set (vols (dropGone (mgr w))) \<subseteq> fst ` set (vols (mgr w))"
    using w vol_inv_filter [of C "mgr w"] tenant_ok_filter [of C "mgr w"] by (auto simp: world_inv_def dropGone_def)
  have "\<forall>(t, i) \<in> deleted w. tenantRe t \<and> i \<in> minted w \<and> key t i \<notin> fst ` set (vols (dropGone (mgr w)))"
  proof clarify
    fix t i assume "(t, i) \<in> deleted w"
    then have o: "tenantRe t" "i \<in> minted w" "key t i \<notin> fst ` set (vols (mgr w))"
      using w by (auto simp: world_inv_def)
    then show "tenantRe t \<and> i \<in> minted w \<and> key t i \<notin> fst ` set (vols (dropGone (mgr w)))" using d(4) by blast
  qed
  then show ?thesis using w d(1,2) unfolding v_drop by (simp add: world_inv_def d(3) vids_def)
next
  case v_recount
  have "world_inv C (w\<lparr>mgr := (mgr w)\<lparr>used := recount (mgr w)\<rparr>, held := held w, attaching := attaching w\<rparr>)"
    by (rule world_same [OF w]) (use w in \<open>auto simp: world_inv_def\<close>)
  then show ?thesis by (simp add: v_recount)
next
  case (v_guest t i vd d)
  have "vol_inv C (mgr w)" using w by (simp add: world_inv_def)
  from vol_inv_guest [OF this v_guest(2)] show ?thesis using v_guest(1) world_fs [OF w] by simp
qed

lemma vreach_inv:
  assumes "codec_ok C"
  shows "vreach C w \<Longrightarrow> world_inv C w"
proof (induction rule: vreach.induct)
  case (v_start E cfg fs m)
  have "vol_inv E m"
    using NewManager_scan(1) [OF v_start(1)] NewManager_unread [OF v_start(1)] v_start(4) by blast
  then show ?case using v_start same_codec_simps(7) [OF v_start(2)] by (simp add: world_inv_def)
next
  case (v_next w w')
  then show ?case using vstep_inv [OF assms] by blast
qed
lemma fs_ok_scan:
  "fs_ok (vfs m) \<Longrightarrow> fs_ok (vfs (fst (fold (\<lambda>(t, i, vd). scanEntry E t (i, vd)) xs (m, tot))))"
proof (induction xs arbitrary: m tot)
  case (Cons x xs)
  obtain t i vd where x: "x = (t, i, vd)" by (cases x)
  obtain m1 tot1 where s: "scanEntry E t (i, vd) (m, tot) = (m1, tot1)" by force
  have "fs_ok (vfs m1)"
    using s Cons.prems by (auto simp: scanEntry_cases addVolume_def fs_ok_removeAll split: if_splits)
  then show ?case using Cons.IH s x by simp
qed simp

lemma fs_ok_New:
  assumes "NewManager E cfg True fs = Inr m" and "fs_ok fs"
  shows "fs_ok (vfs m)"
proof -
  obtain m0 where m0: "m = scan E m0" "vfs m0 = fs"
    using assms(1) by (fastforce simp: NewManager_def split: if_splits)
  obtain m' tot where f: "fold (scanTenant E) fs (m0, 0) = (m', tot)" by force
  have "fs_ok (vfs m')" using fs_ok_scan [of m0 E "flat E fs" 0] f m0 assms(2) by (simp add: fold_scanTenant)
  then show ?thesis using m0 f assms(2) by (simp add: scan_def)
qed

lemma fs_ok_Create:
  assumes "Create E io u m t nm = (r, m')" and "fs_ok (vfs m)"
  shows "fs_ok (vfs m')"
  using assms(1)
proof (cases rule: Create_cases)
  case (made b md fs')
  then show ?thesis using assms(2) by (simp add: addVolume_def fs_ok_put)
qed (use assms(2) in auto)

lemma fs_ok_sweepEntry: "fs_ok (vfs m) \<Longrightarrow> fs_ok (vfs (sweepEntry E known t e m))"
  using sweepEntry_cases [of E known t "fst e" "snd e" m] by (auto simp: fs_ok_removeAll)

lemma vfs_simps:
  "vfs (Release m t i s) = vfs m" "vfs (ReleaseAll m s) = vfs m" "vfs (setHolder a s m) = vfs m" "vfs (dropGone m) = vfs m"
  using releaseAll_fold [of s "vols m" m, unfolded Let_def, folded ReleaseAll_def] same_volumes_Release [of m t i s]
  by (auto simp: same_volumes_def setHolder_def dropGone_def)

lemma vreach_fs: "vreach C w \<Longrightarrow> fs_ok (vfs (mgr w))"
proof (induction rule: vreach.induct)
  case (v_next w w')
  from v_next(2) show ?case using v_next(3)
    by cases (auto simp: fs_ok_Create fs_ok_removeAll fs_ok_put fs_ok_sweepEntry vfs_simps attachLock_def deleteLock_def Let_def
        split: if_splits)
qed (simp add: fs_ok_New)

end
