(* ===== verification/VolumeTheorems.thy ===== *)
theory VolumeTheorems
  imports VolumeProps "HOL-Library.Code_Target_Nat"
begin

text \<open>
  The properties of the volume manager: one writer at a time under every
  interleaving, the shape of the index, what a restart finds on disk, where the
  host path lies, what Create and the orphan sweep do.
\<close>

section \<open>Lemmas\<close>

lemma held_holder:
  assumes "codec_ok C" and "vreach C w" and "(a, s) \<in> held w"
  shows "rwHolder (heap (mgr w) ! a) = s" and "s \<noteq> ''''"
  using vreach_inv [OF assms(1,2)] assms(3) by (auto simp: world_inv_def)

lemma Attach_locked:
  assumes "lookup m t i = Inr a" and "rwHolder (heap m ! a) = s" and "s \<noteq> ''''" and "s' \<noteq> s"
  shows "\<exists>e. Attach E m t i s' True = (Inl e, m)"
proof (cases "attachPre E m t i s' True")
  case (Inr p)
  obtain hp ao where p: "p = (hp, ao)" by force
  have "ao = Some a"
    using Inr p assms(1) by (auto simp: attachPre_def andThen_Inr_iff split: if_splits prod.splits)
  then show ?thesis using Inr p assms by (auto simp: Attach_def attachLock_def)
qed (simp add: Attach_def)

lemma entries_healthy: "vol_inv C m \<Longrightarrow> v \<in> entries m \<Longrightarrow> healthy C m v"
  by (auto simp: vol_inv_def entries_def)

lemma entries_key:
  assumes "vol_inv C m" and "key t i \<in> fst ` set (vols m)" and "tenantRe t"
  shows "\<exists>v \<in> entries m. Tenant v = t \<and> ID v = i"
proof -
  obtain a where a: "(key t i, a) \<in> set (vols m)" using assms(2) by auto
  then show ?thesis using vol_invD [OF assms(1) a] assms(3) by (force simp: entries_def key_inj_tenant)
qed

lemma healthy_flat:
  assumes "healthy C m v" and "fs_ok (vfs m)" and "same_codec C E" and "\<forall>t. tenantReads E t"
  shows "\<exists>x \<in> set (flat E (vfs m)). loadable E x \<and> loaded E x = strip v"
proof -
  obtain vd md where g: "tenantRe (Tenant v)" "idRe (ID v)" "get_vol (vfs m) (Tenant v) (ID v) = Some vd"
      "vd_isDir vd" "readVolMeta C vd = Some md" "volumeOf md = strip v"
    using assms(1) by (auto simp: healthy_def strip_def)
  have "td_isDir (the (map_of (vfs m) (Tenant v)))"
    using g(3) assms(2) by (fastforce simp: get_vol_def fs_ok_def ten_ok_def split: option.splits dest: map_of_SomeD)
  then have "(Tenant v, ID v, vd) \<in> set (flat E (vfs m))"
    using flat_get [OF assms(2)] g assms(4) by blast
  moreover have "loadable E (Tenant v, ID v, vd)"
    using healthy_valid [OF assms(1,3) g(3)] by (simp add: loadable_def)
  moreover have "loaded E (Tenant v, ID v, vd) = strip v"
    using g(5,6) by (simp add: loaded_def same_codec_simps(4) [OF assms(3)])
  ultimately show ?thesis by blast
qed

lemma loaded_entry:
  assumes inv: "vol_inv C m" and f: "fs_ok (vfs m)" and E: "same_codec C E"
    and x: "(t, i, vd) \<in> set (flat E (vfs m))" "loadable E (t, i, vd)"
    and k: "key t i \<in> fst ` set (vols m)"
  shows "loaded E (t, i, vd) \<in> strip ` entries m"
proof -
  have g: "tenantRe t" "get_vol (vfs m) t i = Some vd" using flat_get [OF f] x(1) by auto
  obtain v where v: "v \<in> entries m" "Tenant v = t" "ID v = i" using entries_key [OF inv k g(1)] by auto
  have "volumeOf (the (readVolMeta C vd)) = strip v"
    using entries_healthy [OF inv v(1)] g(2) v(2,3) by (auto simp: healthy_def strip_def)
  then show ?thesis using v(1) by (auto simp: loaded_def same_codec_simps(4) [OF E])
qed

lemma fold_sweepTenant:
  "fold (sweepTenant E known) fs m = fold (\<lambda>(t, i, vd). sweepEntry E known t (i, vd)) (flat E fs) m"
proof (induction fs arbitrary: m)
  case (Cons te fs)
  obtain t td where te: "te = (t, td)" by force
  have "fold (sweepEntry E known t) xs m' = fold (\<lambda>(t, i, vd). sweepEntry E known t (i, vd)) (map (\<lambda>(i, vd). (t, i, vd)) xs) m'" for xs m'
    by (induction xs arbitrary: m') (auto split: prod.splits)
  then show ?case using Cons by (simp add: te flat_Cons sweepTenant_def)
qed (simp add: flat_def)

lemma sweep_fold:
  assumes "\<forall>vd. (t0, i0, vd) \<in> set xs \<longrightarrow> vd_isDir vd \<and> idRe i0 \<and> validMeta E t0 i0 vd"
  shows "get_vol (vfs (fold (\<lambda>(t, i, vd). sweepEntry E known t (i, vd)) xs m)) t0 i0 = get_vol (vfs m) t0 i0 \<and>
    vols (fold (\<lambda>(t, i, vd). sweepEntry E known t (i, vd)) xs m) = vols m \<and>
    heap (fold (\<lambda>(t, i, vd). sweepEntry E known t (i, vd)) xs m) = heap m"
  using assms
proof (induction xs arbitrary: m)
  case (Cons x xs)
  obtain t i vd where x: "x = (t, i, vd)" by (cases x)
  have "get_vol (vfs (sweepEntry E known t (i, vd) m)) t0 i0 = get_vol (vfs m) t0 i0"
    using sweepEntry_cases [of E known t i vd m] Cons.prems x by (auto simp: get_removeAll_vol)
  moreover have "\<forall>vd. (t0, i0, vd) \<in> set xs \<longrightarrow> vd_isDir vd \<and> idRe i0 \<and> validMeta E t0 i0 vd" using Cons.prems by simp
  ultimately show ?case using Cons.IH [of "sweepEntry E known t (i, vd) m"] by (simp add: x sweepEntry_fields)
qed simp

section \<open>A small world for the witnesses\<close>

definition demo_uuid :: string where "demo_uuid = ''0a1b2c3d-0000-4000-8000-00000000000a''"
definition demo_vid :: string where "demo_vid = ''vol_'' @ demo_uuid"

definition demo_meta :: meta where
  "demo_meta = \<lparr>md_ID = demo_vid, md_Tenant = ''public'', md_Name = ''memory'', md_CreatedAt = 7\<rparr>"

definition demo_env :: vol_env where
  "demo_env = \<lparr>marshal = (\<lambda>md. if md = demo_meta then Some ''m'' else None),
     unmarshal = (\<lambda>b. if b = ''m'' then Some demo_meta else None), foldOther = (\<lambda>_ _. False),
     evalSymlinks = Some, statfs = None, rootReads = True, tenantReads = (\<lambda>_. True), removeOk = (\<lambda>_ _. True), now = 7\<rparr>"

definition demo_cfg :: config where
  "demo_cfg = \<lparr>c_Root = ''/v'', c_DiskQuota = 0, c_GlobalDiskMax = 0, c_MaxVolPerTenant = 0, c_MinFreeBytes = 0\<rparr>"

definition demo_io :: create_io where
  "demo_io = \<lparr>mkdirOk = True, mkdirPartial = False, chmodOk = True, writeOk = True, renameOk = True\<rparr>"

definition demo_start :: manager where
  "demo_start = \<lparr>m_Root = ''/v'', DiskQuota = 536870912, GlobalDiskMax = 8589934592, MaxVolPerTenant = 100,
     MinFreeBytes = 0, vols = [], heap = [], used = 0, vfs = []\<rparr>"

definition demo_one :: manager where "demo_one = snd (Create demo_env demo_io demo_uuid demo_start ''public'' '''')"

lemma demo_idRe: "idRe (''vol_'' @ demo_uuid)"
  by code_simp

lemma demo_codec: "codec_ok demo_env"
  by (simp add: codec_ok_def demo_env_def)

lemma demo_same: "same_codec demo_env demo_env"
  by (simp add: same_codec_def)

lemma demo_new: "NewManager demo_env demo_cfg True [] = Inr demo_start"
  by code_simp

definition demo_w0 :: vworld where
  "demo_w0 = \<lparr>mgr = demo_start, attaching = {}, deleting = {}, deleted = {}, snaps = {}, held = {}, minted = vids demo_start\<rparr>"

lemma demo_reach0: "vreach demo_env demo_w0"
  unfolding demo_w0_def
  by (rule v_start [OF demo_new demo_same]) (simp_all add: tenant_ok_def ofTenant_def demo_start_def fs_ok_def)

lemma demo_created:
  "Create demo_env demo_io demo_uuid demo_start ''public'' '''' =
     (Inr \<lparr>i_ID = ''vol_'' @ demo_uuid, i_Name = ''memory'', i_CreatedAt = 7, DiskBytes = 0, AttachedRW = False\<rparr>, demo_one)"
proof -
  have "fst (Create demo_env demo_io demo_uuid demo_start ''public'' '''') =
     Inr \<lparr>i_ID = ''vol_'' @ demo_uuid, i_Name = ''memory'', i_CreatedAt = 7, DiskBytes = 0, AttachedRW = False\<rparr>"
    by code_simp
  then show ?thesis by (simp add: demo_one_def prod_eq_iff)
qed

definition demo_w1 :: vworld where
  "demo_w1 = demo_w0\<lparr>mgr := demo_one, minted := insert (''vol_'' @ demo_uuid) (minted demo_w0)\<rparr>"

lemma demo_reach1: "vreach demo_env demo_w1"
  unfolding demo_w1_def
proof (rule v_next [OF demo_reach0], rule v_create [OF demo_same demo_idRe])
  show "''vol_'' @ demo_uuid \<notin> minted demo_w0" by (simp add: demo_w0_def vids_def demo_start_def)
  show "\<forall>t'. get_vol (vfs (mgr demo_w0)) t' (''vol_'' @ demo_uuid) = None"
    by (simp add: demo_w0_def demo_start_def get_vol_def)
  show "Create demo_env demo_io demo_uuid (mgr demo_w0) ''public'' '''' =
     (Inr \<lparr>i_ID = ''vol_'' @ demo_uuid, i_Name = ''memory'', i_CreatedAt = 7, DiskBytes = 0, AttachedRW = False\<rparr>, demo_one)"
    using demo_created by (simp add: demo_w0_def)
qed

definition demo_w2 :: vworld where
  "demo_w2 = demo_w1\<lparr>mgr := setHolder 0 ''s1'' demo_one, held := {(0, ''s1'')}, attaching := {}\<rparr>"

lemma demo_lookup: "lookup demo_one ''public'' (''vol_'' @ demo_uuid) = Inr 0"
  by code_simp

lemma demo_reach2: "vreach demo_env demo_w2"
proof -
  have p: "attachPre demo_env demo_one ''public'' (''vol_'' @ demo_uuid) ''s1'' True =
      Inr (''/v/public/vol_0a1b2c3d-0000-4000-8000-00000000000a/data'', Some 0)" by code_simp
  have "vreach demo_env (demo_w1\<lparr>attaching := insert (0, ''s1'') (attaching demo_w1)\<rparr>)" (is "vreach _ ?w")
    by (rule v_next [OF demo_reach1], rule v_attach) (use p in \<open>auto simp: demo_w1_def\<close>)
  moreover have "attachLock demo_one 0 ''s1'' = Inr (setHolder 0 ''s1'' demo_one)"
  proof -
    have "rwHolder (heap demo_one ! 0) = ''''" by code_simp
    then show ?thesis by (simp add: attachLock_def)
  qed
  ultimately have "vreach demo_env (?w\<lparr>mgr := setHolder 0 ''s1'' demo_one, held := insert (0, ''s1'') (held ?w),
      attaching := attaching ?w - {(0, ''s1'')}\<rparr>)"
    by (intro v_next [OF _ v_grant [of 0 "''s1''"]]) (auto simp: demo_w1_def)
  then show ?thesis by (simp add: demo_w2_def demo_w1_def demo_w0_def)
qed

section \<open>Properties\<close>

text \<open>
  C5: A volume has one writer.  In every reachable state, whatever lookups,
  deletions and sweeps are in flight, a volume granted to one session for writing
  is granted to no other: another session's read-write attach fails, and Delete
  answers busy, both without changing anything, until the holder releases it.
\<close>
theorem volume_single_writer:
  assumes "codec_ok C" and "vreach C w" and "(a, s) \<in> held w"
  shows "(\<forall>s'. (a, s') \<in> held w \<longrightarrow> s' = s) \<and>
    (\<forall>E t i. lookup (mgr w) t i = Inr a \<longrightarrow>
       Delete E (mgr w) t i = (Some ErrBusy, mgr w) \<and>
       (\<forall>s'. s' \<noteq> s \<longrightarrow> (\<exists>e. Attach E (mgr w) t i s' True = (Inl e, mgr w))))"
proof (intro conjI allI impI)
  note h = held_holder [OF assms]
  show "s' = s" if "(a, s') \<in> held w" for s' using held_holder(1) [OF assms(1,2) that] h by simp
  fix E t i assume l: "lookup (mgr w) t i = Inr a"
  show "Delete E (mgr w) t i = (Some ErrBusy, mgr w)" using l h by (simp add: Delete_def deleteLock_def)
  show "\<exists>e. Attach E (mgr w) t i s' True = (Inl e, mgr w)" if "s' \<noteq> s" for s'
    using Attach_locked [OF l h that] .
qed

theorem volume_single_writer_witness:
  "\<exists>w :: vworld. (0, ''s1'') \<in> held w \<and> (\<forall>s'. (0, s') \<in> held w \<longrightarrow> s' = ''s1'') \<and>
     lookup (mgr w) ''public'' (''vol_'' @ demo_uuid) = Inr 0 \<and>
     Delete demo_env (mgr w) ''public'' (''vol_'' @ demo_uuid) = (Some ErrBusy, mgr w)"
proof -
  have h: "(0, ''s1'') \<in> held demo_w2" by (simp add: demo_w2_def)
  have l: "lookup (mgr demo_w2) ''public'' (''vol_'' @ demo_uuid) = Inr 0"
    by code_simp
  show ?thesis using volume_single_writer [OF demo_codec demo_reach2 h] h l by blast
qed





text \<open>
  C38: Containment.  The path handed to the bind mount is the resolved data
  directory of a volume in the caller's index, equal to or below the resolved
  directory of that tenant; and the unresolved path is the root followed by
  exactly the tenant, the id and \<^verbatim>\<open>data\<close>.
\<close>
theorem volume_host_path:
  assumes "HostPath E m t i = Inr p" and "m_Root m \<noteq> ''''"
  shows "\<exists>a r. lookup m t i = Inr a \<and> evalSymlinks E (Join [m_Root m, t]) = Some r \<and>
    evalSymlinks E (Join [Join [m_Root m, t], i, ''data'']) = Some p \<and> below r p \<and>
    comps (Join [Join [m_Root m, t], i, ''data'']) = comps (m_Root m) @ [t, i, ''data'']"
proof -
  obtain a where l: "lookup m t i = Inr a" using assms(1) by (auto simp: HostPath_def andThen_Inr_iff)
  have n: "name_ok t" "name_ok i" "name_ok ''data''"
    using lookup_Inr [OF l] tenantRe_name_ok idRe_name_ok by (auto simp: name_ok_def)
  have j: "comps (Join [m_Root m, t]) = comps (m_Root m) @ [t]" "Join [m_Root m, t] \<noteq> []"
    using comps_Join_names(1) [of "m_Root m" "[t]"] n assms(2) by (auto simp: Join_two)
  have "comps (Join [Join [m_Root m, t], i, ''data'']) = comps (m_Root m) @ [t, i, ''data'']"
    using comps_Join_names(1) [of "Join [m_Root m, t]" "[i, ''data'']"] n j by simp
  moreover obtain r where "evalSymlinks E (Join [m_Root m, t]) = Some r"
      "evalSymlinks E (Join [Join [m_Root m, t], i, ''data'']) = Some p" "p = r \<or> HasPrefix p (r @ ''/'')"
    using assms(1) l by (auto simp: HostPath_def Let_def split: option.splits if_splits)
  ultimately show ?thesis using l by (auto simp: below_def HasPrefix_def)
qed

theorem volume_host_path_witness:
  "\<exists>a r. lookup demo_one ''public'' (''vol_'' @ demo_uuid) = Inr a \<and>
     evalSymlinks demo_env (Join [''/v'', ''public'']) = Some r \<and>
     below r ''/v/public/vol_0a1b2c3d-0000-4000-8000-00000000000a/data''"
proof -
  have "HostPath demo_env demo_one ''public'' (''vol_'' @ demo_uuid) =
      Inr ''/v/public/vol_0a1b2c3d-0000-4000-8000-00000000000a/data''" and "m_Root demo_one = ''/v''" by code_simp+
  then show ?thesis using volume_host_path [of demo_env demo_one "''public''" "''vol_'' @ demo_uuid"] by auto
qed
text \<open>
  A volume that Create returns can be read back at once under its id, empty
  and unattached, and Create changes what Get answers for no other tenant or id.
\<close>
theorem volume_create:
  assumes "codec_ok C" and "vreach C w" and "same_codec C E" and "idRe (''vol_'' @ u)" and "''vol_'' @ u \<notin> minted w"
    and "Create E io u (mgr w) t nm = (Inr info, m')"
  shows "i_ID info = ''vol_'' @ u \<and> Get m' t (''vol_'' @ u) = Inr info \<and>
    (\<forall>t' i'. (t', i') \<noteq> (t, ''vol_'' @ u) \<longrightarrow> Get m' t' i' = Get (mgr w) t' i')"
proof -
  have v: "vol_inv C (mgr w)" "vids (mgr w) \<subseteq> minted w"
    using vreach_inv [OF assms(1,2)] by (simp_all add: world_inv_def)
  from assms(6) show ?thesis
  proof (cases rule: Create_cases)
    case (made b md fs')
    let ?v = "volumeOf md" and ?m = "(mgr w)\<lparr>vfs := fs'\<rparr>"
    have vs: "Tenant ?v = t" "ID ?v = ''vol_'' @ u" "VName ?v = displayName nm" "CreatedAt ?v = now E" "rwHolder ?v = ''''"
      using made(1) by (simp_all add: volumeOf_def)
    have fr: "fresh_pair t' (''vol_'' @ u) (mgr w)" for t' using v(2) assms(5) by (auto simp: fresh_pair_def vids_def)
    have k: "key t (''vol_'' @ u) \<notin> fst ` set (vols (mgr w))" by (rule fresh_key [OF v(1) fr made(2)])
    have V: "vols m' = (key t (''vol_'' @ u), length (heap (mgr w))) # vols (mgr w)" "heap m' = heap (mgr w) @ [?v]" "vfs m' = fs'"
      using k made(7) vs by (simp_all add: addVolume_def map_put_fresh)
    have sz: "sizeAt m' t' i' = (if (t', i') = (t, ''vol_'' @ u) then 0 else sizeAt (mgr w) t' i')" for t' i'
      by (auto simp: sizeAt_def V made(6) get_put_vol dirSize_def wrap64_def)
    have "Get m' t (''vol_'' @ u) = Inr info"
      using made(2,8) assms(4) vs sz by (simp add: Get_def lookup_def V infoOf_def)
    moreover have "Get m' t' i' = Get (mgr w) t' i'" if ne: "(t', i') \<noteq> (t, ''vol_'' @ u)" for t' i'
    proof (cases "lookup (mgr w) t' i'")
      case (Inl e)
      have "lookup m' t' i' = Inl e"
        using Inl ne key_inj_tenant [OF made(2), of t' "''vol_'' @ u" i'] by (auto simp: lookup_def V split: if_splits)
      then show ?thesis using Inl by (simp add: Get_def)
    next
      case (Inr a)
      note L = lookup_Inr [OF Inr] and A = lookup_volume [OF v(1) Inr]
      have "lookup m' t' i' = Inr a"
        using L ne key_inj_tenant [OF made(2) L(1), of "''vol_'' @ u" i'] by (auto simp: lookup_def V)
      moreover have "heap m' ! a = heap (mgr w) ! a" using A(1) by (simp add: V nth_append)
      ultimately show ?thesis using Inr A ne by (auto simp: Get_def infoOf_def sz)
    qed
    ultimately show ?thesis using made(8) by simp
  qed (use assms(6) in simp_all)
qed

theorem volume_create_witness:
  "\<exists>info. Create demo_env demo_io demo_uuid (mgr demo_w0) ''public'' '''' = (Inr info, demo_one) \<and>
     Get demo_one ''public'' (''vol_'' @ demo_uuid) = Inr info"
proof -
  have n: "''vol_'' @ demo_uuid \<notin> minted demo_w0" by (simp add: demo_w0_def vids_def demo_start_def)
  have c: "Create demo_env demo_io demo_uuid (mgr demo_w0) ''public'' '''' =
     (Inr \<lparr>i_ID = ''vol_'' @ demo_uuid, i_Name = ''memory'', i_CreatedAt = 7, DiskBytes = 0, AttachedRW = False\<rparr>, demo_one)"
    using demo_created by (simp add: demo_w0_def)
  show ?thesis using volume_create [OF demo_codec demo_reach0 demo_same demo_idRe n c] c by blast
qed

text \<open>
  The orphan sweep never harms a healthy volume: in a reachable state an
  indexed volume whose data directory exists is still indexed after the sweep,
  with its directory unchanged.
\<close>
theorem volume_sweep_keeps:
  assumes "codec_ok C" and "vreach C w" and "same_codec C E" and "lookup (mgr w) t i = Inr a"
    and "get_vol (vfs (mgr w)) t i = Some vd" and "vd_data vd \<noteq> None"
  shows "lookup (Sweep E (mgr w)) t i = Inr a \<and> get_vol (vfs (Sweep E (mgr w))) t i = Some vd"
proof -
  have v: "vol_inv C (mgr w)" using vreach_inv [OF assms(1,2)] by (simp add: world_inv_def)
  note f = vreach_fs [OF assms(2)] and A = lookup_volume [OF v assms(4)] and L = lookup_Inr [OF assms(4)]
  have h: "healthy C (mgr w) (heap (mgr w) ! a)" by (rule vol_invD(3) [OF v L(3)])
  have "vd' = vd" if "(t, i, vd') \<in> set (flat E (vfs (mgr w)))" for vd'
    using flat_get [OF f] that assms(5) by auto
  then have "\<forall>vd. (t, i, vd) \<in> set (flat E (vfs (mgr w))) \<longrightarrow> vd_isDir vd \<and> idRe i \<and> validMeta E t i vd"
    using healthy_valid [OF h assms(3)] A assms(5) by auto
  from sweep_fold [OF this, of "map fst (vols (mgr w))" "mgr w"]
  obtain m1 where m1: "fold (sweepTenant E (map fst (vols (mgr w)))) (vfs (mgr w)) (mgr w) = m1"
      "get_vol (vfs m1) t i = Some vd" "vols m1 = vols (mgr w)" "heap m1 = heap (mgr w)"
    by (simp add: fold_sweepTenant assms(5))
  have d: "distinct (map fst (vols (mgr w)))" using v by (simp add: vol_inv_def index_ok_def)
  have "\<not> dataGone m1 (heap (mgr w) ! a)" using A m1(2) assms(6) by (simp add: dataGone_def)
  then have "(key t i, a) \<in> set (vols (dropGone m1))" using L(3) m1 by (auto simp: dropGone_def)
  then have "map_of (vols (dropGone m1)) (key t i) = Some a"
    using d m1 by (intro map_of_is_SomeI) (auto simp: dropGone_def distinct_map_filter)
  then show ?thesis
    using assms(4,5) L m1 by (simp add: Sweep_def SweepOrphans_def Let_def lookup_def vfs_simps)
qed

theorem volume_sweep_keeps_witness:
  "lookup (Sweep demo_env (mgr demo_w1)) ''public'' (''vol_'' @ demo_uuid) = Inr 0"
proof -
  have l: "lookup (mgr demo_w1) ''public'' (''vol_'' @ demo_uuid) = Inr 0"
    using demo_lookup by (simp add: demo_w1_def)
  have g: "get_vol (vfs (mgr demo_w1)) ''public'' (''vol_'' @ demo_uuid) =
      Some \<lparr>vd_isDir = True, vd_meta = Some ''m'', vd_data = Some (Node []), vd_mod = Some 7\<rparr>" by code_simp
  show ?thesis using volume_sweep_keeps [OF demo_codec demo_reach1 demo_same l g] by simp
qed

end
