(* ===== verification/VolumesApi.thy ===== *)
theory VolumesApi
  imports MemoryApi VolumeTheorems
begin

text \<open>
  The HTTP surface of the volume manager, \<^verbatim>\<open>internal/api/volumes.go\<close>.  The volume
  id of the path, the decoder of the body, the minted uuid and the answers of the
  host are arguments; the decoder sees the first four kilobytes of the body.
\<close>

section \<open>Decoding\<close>

datatype 'a decoded = Decoded 'a | NoJSON | BadJSON string

section \<open>Responses\<close>

definition infoJSON :: "(int \<Rightarrow> string) \<Rightarrow> Volume.Info \<Rightarrow> json" where
  "infoJSON fmtTime i = JObj [(''id'', JStr (Volume.Info.i_ID i)), (''name'', JStr (Volume.Info.i_Name i)),
     (''createdAt'', JStr (fmtTime (Volume.Info.i_CreatedAt i))), (''diskBytes'', JInt (DiskBytes i)), (''attachedRw'', JBool (AttachedRW i))]"

definition writeVolErr :: "(vol_error \<Rightarrow> string) \<Rightarrow> vol_error \<Rightarrow> response" where
  "writeVolErr errText e =
     (case e of
        ErrVolNotFound \<Rightarrow> writeJSON 404 (jerror ''volume_not_found'')
      | ErrExists \<Rightarrow> writeJSON 409 (jerror ''volume_name_exists'')
      | ErrVolumeLocked \<Rightarrow> writeJSON 409 (JObj [(''error'', JStr ''volume_locked''), (''detail'', JStr ''attached read-write by another session'')])
      | ErrBusy \<Rightarrow> writeJSON 409 (JObj [(''error'', JStr ''volume_busy''), (''detail'', JStr ''attached; detach or destroy the session first'')])
      | ErrVolQuota \<Rightarrow> writeJSON 413 (JObj [(''error'', JStr ''volume_quota_exceeded''), (''detail'', JStr ''delete the volume or write a smaller replacement'')])
      | ErrDiskFull \<Rightarrow> writeJSON 507 (JObj [(''error'', JStr ''storage_full''), (''detail'', JStr ''volume storage ceiling reached'')])
      | ErrTooMany \<Rightarrow> writeJSON 429 (jerror ''too_many_volumes'')
      | ErrBadName \<Rightarrow> writeJSON 400 (jerror ''invalid_name'')
      | ErrBadID \<Rightarrow> writeJSON 400 (jerror ''invalid_request'')
      | ErrBadTenant \<Rightarrow> writeJSON 400 (jerror ''invalid_request'')
      | ErrContainment \<Rightarrow> writeJSON 400 (jerror ''invalid_request'')
      | ErrContainmentWrap _ \<Rightarrow> writeJSON 400 (jerror ''invalid_request'')
      | ErrIO _ \<Rightarrow> writeJSON 500 (JObj [(''error'', JStr ''internal''), (''detail'', JStr (errText e))]))"

section \<open>Handlers\<close>

definition handleCreateVolume :: "vol_env \<Rightarrow> create_io \<Rightarrow> string \<Rightarrow> (vol_error \<Rightarrow> string) \<Rightarrow> (int \<Rightarrow> string) \<Rightarrow> (bytes \<Rightarrow> string decoded)
    \<Rightarrow> Volume.manager handler" where
  "handleCreateVolume V io uuid errText fmtTime decode r c m = reqTenant c (\<lambda>tenant.
     let create = (\<lambda>nm. case Volume.Create V io uuid m tenant nm of
         (Inl e, m') \<Rightarrow> (writeVolErr errText e, m')
       | (Inr info, m') \<Rightarrow> (writeJSON 201 (infoJSON fmtTime info), m')) in
     (case decode (take 4096 (rq_Body r)) of
        BadJSON e \<Rightarrow> (writeJSON 400 (JObj [(''error'', JStr ''invalid_json''), (''detail'', JStr e)]), m)
      | NoJSON \<Rightarrow> create []
      | Decoded nm \<Rightarrow> create nm)) (\<lambda>resp. (resp, m))"

definition handleListVolumes :: "(vol_error \<Rightarrow> string) \<Rightarrow> (int \<Rightarrow> string) \<Rightarrow> Volume.manager handler" where
  "handleListVolumes errText fmtTime r c m = reqTenant c (\<lambda>tenant.
     (case ListVols m tenant of
        Inl e \<Rightarrow> (writeVolErr errText e, m)
      | Inr vs \<Rightarrow> (writeJSON 200 (JObj [(''volumes'', JArr (map (infoJSON fmtTime) vs))]), m))) (\<lambda>resp. (resp, m))"

definition handleGetVolume :: "(vol_error \<Rightarrow> string) \<Rightarrow> (int \<Rightarrow> string) \<Rightarrow> string \<Rightarrow> Volume.manager handler" where
  "handleGetVolume errText fmtTime vid r c m = reqTenant c (\<lambda>tenant.
     (case Volume.Get m tenant vid of
        Inl e \<Rightarrow> (writeVolErr errText e, m)
      | Inr info \<Rightarrow> (writeJSON 200 (infoJSON fmtTime info), m))) (\<lambda>resp. (resp, m))"

definition handleDeleteVolume :: "vol_env \<Rightarrow> (vol_error \<Rightarrow> string) \<Rightarrow> string \<Rightarrow> Volume.manager handler" where
  "handleDeleteVolume V errText vid r c m = reqTenant c (\<lambda>tenant.
     (case Volume.Delete V m tenant vid of
        (Some e, m') \<Rightarrow> (writeVolErr errText e, m')
      | (None, m') \<Rightarrow> (statusOnly 204, m'))) (\<lambda>resp. (resp, m))"

end
