(* ===== verification/Sched.thy ===== *)
theory Sched
  imports Prelude
begin

text \<open>
  The concurrency gate of \<^verbatim>\<open>internal/sched/semaphore.go\<close>.  The weighted semaphore
  of \<^verbatim>\<open>golang.org/x/sync\<close> is a parameter; the locale \<open>weighted_sem\<close> states its
  documented behaviour, and the counter semaphore interprets it.  The slot
  discipline of the callers is a step relation: a slot is released only by a
  holder.  Under it the gauge, the holders and the semaphore agree and never pass
  the configured ceiling, and no release panics.
\<close>

section \<open>The semaphore\<close>

record 's weighted =
  NewWeighted :: "int \<Rightarrow> 's"
  w_Acquire :: "bool \<Rightarrow> 's \<Rightarrow> 's option"
  w_Release :: "'s \<Rightarrow> 's option"

text \<open>
  \<open>w_Acquire ctxDone\<close> is one call with weight 1: \<open>None\<close> when the context ends
  before a slot frees.  \<open>w_Release\<close> is \<open>None\<close> when it panics.
\<close>

locale weighted_sem =
  fixes S :: "'s weighted" and held :: "'s \<Rightarrow> int" and cap :: "'s \<Rightarrow> int"
  assumes New_held [sem_laws]: "held (NewWeighted S n) = 0"
    and New_cap [sem_laws]: "cap (NewWeighted S n) = n"
    and Acquire_ok: "w_Acquire S d s = Some s' \<Longrightarrow> held s' = held s + 1 \<and> cap s' = cap s \<and> held s < cap s"
    and Acquire_free: "held s < cap s \<Longrightarrow> \<exists>s'. w_Acquire S False s = Some s'"
    and Release_held: "held s > 0 \<Longrightarrow> \<exists>s'. w_Release S s = Some s' \<and> held s' = held s - 1 \<and> cap s' = cap s"
    and Release_panic: "held s \<le> 0 \<Longrightarrow> w_Release S s = None"

section \<open>The limiter\<close>

record 's Limiter =
  l_sem :: 's
  l_max :: int
  l_inUse :: int

definition New :: "'s weighted \<Rightarrow> int \<Rightarrow> 's Limiter" where
  "New S m = (let m' = (if m < 1 then 1 else m) in \<lparr>l_sem = NewWeighted S m', l_max = m', l_inUse = 0\<rparr>)"

definition Acquire :: "'s weighted \<Rightarrow> bool \<Rightarrow> 's Limiter \<Rightarrow> bool \<times> 's Limiter" where
  "Acquire S ctxDone l =
     (case w_Acquire S ctxDone (l_sem l) of
        Some s' \<Rightarrow> (True, l\<lparr>l_sem := s', l_inUse := l_inUse l + 1\<rparr>)
      | None \<Rightarrow> (False, l))"

definition Release :: "'s weighted \<Rightarrow> 's Limiter \<Rightarrow> 's Limiter option" where
  "Release S l = (case w_Release S (l_sem l) of None \<Rightarrow> None | Some s' \<Rightarrow> Some (l\<lparr>l_sem := s', l_inUse := l_inUse l - 1\<rparr>))"

definition Max :: "'s Limiter \<Rightarrow> int" where "Max l = l_max l"
definition InUse :: "'s Limiter \<Rightarrow> int" where "InUse l = l_inUse l"

section \<open>Callers\<close>

text \<open>\<open>n\<close> counts the callers that hold a slot; \<open>None\<close> as the limiter is a panic.\<close>

inductive lim_reach :: "'s weighted \<Rightarrow> int \<Rightarrow> 's Limiter option \<Rightarrow> int \<Rightarrow> bool" for S :: "'s weighted" and m :: int where
  lim_new: "lim_reach S m (Some (New S m)) 0"
| lim_acquire: "lim_reach S m (Some l) n \<Longrightarrow> Acquire S d l = (True, l') \<Longrightarrow> lim_reach S m (Some l') (n + 1)"
| lim_timeout: "lim_reach S m (Some l) n \<Longrightarrow> Acquire S d l = (False, l') \<Longrightarrow> lim_reach S m (Some l') n"
| lim_release: "lim_reach S m (Some l) n \<Longrightarrow> n > 0 \<Longrightarrow> lim_reach S m (Release S l) (n - 1)"

context weighted_sem
begin

lemma reach_gauge:
  "lim_reach S m l n \<Longrightarrow> \<exists>k. l = Some k \<and> held (l_sem k) = n \<and> l_inUse k = n \<and> 0 \<le> n \<and> n \<le> l_max k \<and>
    l_max k = (if m < 1 then 1 else m) \<and> cap (l_sem k) = l_max k"
proof (induction rule: lim_reach.induct)
  case lim_new
  then show ?case by (simp add: New_def Let_def New_held New_cap)
next
  case (lim_acquire l n d l')
  obtain s' where s': "w_Acquire S d (l_sem l) = Some s'" "l' = l\<lparr>l_sem := s', l_inUse := l_inUse l + 1\<rparr>"
    using lim_acquire.hyps(2) by (auto simp: Acquire_def split: option.splits)
  then show ?case using lim_acquire.IH Acquire_ok [OF s'(1)] by simp
next
  case (lim_timeout l n d l')
  then show ?case by (auto simp: Acquire_def split: option.splits)
next
  case (lim_release l n)
  then obtain s' where "w_Release S (l_sem l) = Some s'" "held s' = held (l_sem l) - 1" "cap s' = cap (l_sem l)"
    using Release_held [of "l_sem l"] by auto
  then show ?case using lim_release by (simp add: Release_def)
qed

lemma reach_acquire_free:
  assumes "lim_reach S m (Some l) n" and "n < (if m < 1 then 1 else m)"
  shows "\<exists>l'. Acquire S False l = (True, l')"
  using reach_gauge [OF assms(1)] assms(2) Acquire_free [of "l_sem l"] by (auto simp: Acquire_def)

end

section \<open>The counter semaphore\<close>

definition counter :: "(int \<times> int) weighted" where
  "counter = \<lparr>NewWeighted = (\<lambda>n. (0, n)),
     w_Acquire = (\<lambda>d (h, c). if h < c \<and> \<not> d then Some (h + 1, c) else None),
     w_Release = (\<lambda>(h, c). if h > 0 then Some (h - 1, c) else None)\<rparr>"

interpretation cnt: weighted_sem counter fst snd
  by unfold_locales (auto simp: counter_def split: if_splits)

section \<open>Properties\<close>

text \<open>
  As long as only holders release, the in-use gauge, the number of holders and
  the semaphore agree, lie between zero and the configured ceiling (at least one),
  and no call panics; with a free slot and a live context an acquire succeeds.
\<close>
theorem limiter_gauge:
  assumes "weighted_sem S held cap" and "lim_reach S m l n"
  shows "\<exists>k. l = Some k \<and> InUse k = n \<and> held (l_sem k) = n \<and> 0 \<le> n \<and> n \<le> Max k \<and> Max k = (if m < 1 then 1 else m) \<and>
    (n < Max k \<longrightarrow> fst (Acquire S False k))"
proof -
  obtain k where k: "l = Some k" "held (l_sem k) = n" "l_inUse k = n" "0 \<le> n" "n \<le> l_max k" "l_max k = (if m < 1 then 1 else m)"
    using weighted_sem.reach_gauge [OF assms] by blast
  moreover have "fst (Acquire S False k)" if "n < l_max k"
    using weighted_sem.reach_acquire_free [OF assms(1), of m k n] assms(2) k that by auto
  ultimately show ?thesis by (auto simp: InUse_def Max_def)
qed

theorem limiter_gauge_witness:
  "\<exists>k. Some k = Some (snd (Acquire counter False (New counter 2))) \<and> InUse k = 1 \<and> 1 \<le> Max k \<and> fst (Acquire counter False k)"
proof -
  have acq: "Acquire counter False (New counter 2) = (True, snd (Acquire counter False (New counter 2)))"
    by (simp add: Acquire_def New_def counter_def)
  show ?thesis
    using limiter_gauge [OF cnt.weighted_sem_axioms lim_acquire [OF lim_new acq]] by auto
qed

end
