(* ===== verification/Executor.thy ===== *)
theory Executor
  imports GoText GoPath Codec
begin

text \<open>
  The data of \<^verbatim>\<open>internal/executor/executor.go\<close> and the helpers of
  \<^verbatim>\<open>internal/executor/gvisor.go\<close>: file names and encodings, shell quoting, the
  capped output writer and the pump that feeds it.
\<close>

section \<open>Data\<close>

record lang_id =
  l_Name :: string
  l_Version :: string

record File =
  f_Name :: string
  f_Content :: string
  f_Encoding :: string

record Mount =
  HostPath :: string
  Target :: string
  RW :: bool

record Limits =
  MemoryBytes :: int
  CPUs :: float64
  Pids :: int
  OutputBytes :: int
  WallTimeMs :: int
  CompileTimeMs :: int

record Spec =
  Lang :: lang_id
  Image :: string
  Compile :: "string list"
  Run :: "string list"
  Workdir :: string
  Env :: "(string \<times> string) list"
  ScratchExec :: bool
  ScratchMB :: int
  Mounts :: "Mount list"
  Files :: "File list"
  Stdin :: string
  Argv :: "string list"
  s_Limits :: Limits
  Network :: bool

record Result =
  Stdout :: string
  Stderr :: string
  ExitCode :: int
  TimedOut :: bool
  OOMKilled :: bool
  Truncated :: bool
  DurationMs :: int
  CompileOutput :: string
  r_Network :: bool

definition zero_Result :: Result where
  "zero_Result = \<lparr>Stdout = [], Stderr = [], ExitCode = 0, TimedOut = False, OOMKilled = False, Truncated = False,
     DurationMs = 0, CompileOutput = [], r_Network = False\<rparr>"

section \<open>File names and contents\<close>

definition sanitizeName :: "string \<Rightarrow> string" where
  "sanitizeName name0 =
     (let name = TrimSpace name0 in
      if name = [] then []
      else let base = Base name in
        if base = ''.'' \<or> base = ''..'' \<or> (\<exists>c \<in> set base. c = slash \<or> c = CHR 0x5C) then [] else base)"

definition b64std_value :: "char \<Rightarrow> nat option" where
  "b64std_value c =
     (if between CHR ''A'' CHR ''Z'' c then Some (of_char c - 65)
      else if between CHR ''a'' CHR ''z'' c then Some (of_char c - 71)
      else if between CHR ''0'' CHR ''9'' c then Some (of_char c + 4)
      else if c = CHR ''+'' then Some 62 else if c = CHR ''/'' then Some 63 else None)"

definition b64std_digit :: "nat \<Rightarrow> char" where
  "b64std_digit n =
     (if n < 26 then char_of (n + 65) else if n < 52 then char_of (n + 71)
      else if n < 62 then char_of (n - 4) else if n = 62 then CHR ''+'' else CHR ''/'')"

text \<open>\<open>base64.StdEncoding\<close>: padded quanta; line breaks are skipped when decoding.\<close>

fun std_encode :: "nat list \<Rightarrow> string" where
  "std_encode [] = []"
| "std_encode [a] = [b64std_digit (a div 4), b64std_digit (a mod 4 * 16), CHR ''='', CHR ''='']"
| "std_encode [a, b] = [b64std_digit (a div 4), b64std_digit (a mod 4 * 16 + b div 16), b64std_digit (b mod 16 * 4), CHR ''='']"
| "std_encode (a # b # c # r) =
     b64std_digit (a div 4) # b64std_digit (a mod 4 * 16 + b div 16) # b64std_digit (b mod 16 * 4 + c div 64) #
     b64std_digit (c mod 64) # std_encode r"

fun std_decode :: "string \<Rightarrow> nat list option" where
  "std_decode [] = Some []"
| "std_decode (a # b # c # d # r) =
     (case (b64std_value a, b64std_value b) of
        (Some x, Some y) \<Rightarrow>
          (case (b64std_value c, b64std_value d) of
             (Some z, Some w) \<Rightarrow>
               map_option (\<lambda>t. (x * 4 + y div 16) # (y mod 16 * 16 + z div 4) # (z mod 4 * 64 + w) # t) (std_decode r)
           | (Some z, None) \<Rightarrow> if d = CHR ''='' \<and> r = [] then Some [x * 4 + y div 16, y mod 16 * 16 + z div 4] else None
           | _ \<Rightarrow> if c = CHR ''='' \<and> d = CHR ''='' \<and> r = [] then Some [x * 4 + y div 16] else None)
      | _ \<Rightarrow> None)"
| "std_decode _ = None"

definition Std_EncodeToString :: "bytes \<Rightarrow> string" where
  "Std_EncodeToString bs = std_encode (map of_char bs)"

definition Std_DecodeString :: "string \<Rightarrow> bytes option" where
  "Std_DecodeString s = map_option (map char_of) (std_decode (filter (\<lambda>c. c \<noteq> char_of (10 :: nat) \<and> c \<noteq> char_of (13 :: nat)) s))"

definition hex_value :: "char \<Rightarrow> nat option" where
  "hex_value c =
     (if between CHR ''0'' CHR ''9'' c then Some (of_char c - 48)
      else if between CHR ''a'' CHR ''f'' c then Some (of_char c - 87)
      else if between CHR ''A'' CHR ''F'' c then Some (of_char c - 55) else None)"

fun Hex_DecodeString :: "string \<Rightarrow> bytes option" where
  "Hex_DecodeString [] = Some []"
| "Hex_DecodeString [c] = None"
| "Hex_DecodeString (a # b # r) =
     (case (hex_value a, hex_value b) of
        (Some x, Some y) \<Rightarrow> map_option (\<lambda>t. char_of (16 * x + y) # t) (Hex_DecodeString r)
      | _ \<Rightarrow> None)"

definition decodeFile :: "(bytes \<Rightarrow> bytes) \<Rightarrow> File \<Rightarrow> bytes option" where
  "decodeFile uni f =
     (let e = ToLower uni (f_Encoding f) in
      if e = [] \<or> e = ''utf8'' \<or> e = ''utf-8'' then Some (f_Content f)
      else if e = ''base64'' then Std_DecodeString (f_Content f)
      else if e = ''hex'' then Hex_DecodeString (f_Content f)
      else None)"

section \<open>Shell quoting\<close>

abbreviation quote :: char where "quote \<equiv> CHR 0x27"
abbreviation backslash :: char where "backslash \<equiv> CHR 0x5C"

fun replace_quotes :: "string \<Rightarrow> string" where
  "replace_quotes [] = []"
| "replace_quotes (c # s) = (if c = quote then [quote, backslash, quote, quote] @ replace_quotes s else c # replace_quotes s)"

definition shQuote :: "string \<Rightarrow> string" where
  "shQuote s = quote # replace_quotes s @ [quote]"

fun join_sp :: "string list \<Rightarrow> string" where
  "join_sp [] = []"
| "join_sp [w] = w"
| "join_sp (w # ws) = w @ '' '' @ join_sp ws"

definition shJoin :: "string list \<Rightarrow> string" where
  "shJoin parts = join_sp (map shQuote parts)"

section \<open>Capped output\<close>

record capWriter =
  cw_buf :: bytes
  cw_limit :: int
  cw_n :: int
  cw_truncated :: bool

definition new_capWriter :: "int \<Rightarrow> capWriter" where
  "new_capWriter l = \<lparr>cw_buf = [], cw_limit = l, n = 0, cw_truncated = False\<rparr>"

definition cap_Write :: "capWriter \<Rightarrow> bytes \<Rightarrow> capWriter" where
  "cap_Write w p =
     (if cw_n w \<ge> cw_limit w then w\<lparr>cw_truncated := True\<rparr>
      else let room = cw_limit w - cw_n w in
        if int (length p) > room then w\<lparr>cw_buf := cw_buf w @ take (nat room) p, cw_n := cw_limit w, cw_truncated := True\<rparr>
        else w\<lparr>cw_buf := cw_buf w @ p, cw_n := cw_n w + int (length p)\<rparr>)"

text \<open>One read of the pump; \<open>sent\<close> is what the live sink received so far.\<close>

definition pump_chunk :: "bool \<Rightarrow> bytes \<Rightarrow> capWriter \<times> bytes \<Rightarrow> capWriter \<times> bytes" where
  "pump_chunk hasSink p st =
     (case st of (w, sent) \<Rightarrow>
        if p = [] then st
        else let room = cw_limit w - cw_n w;
                 sent' = (if hasSink \<and> room > 0
                   then sent @ take (if int (length p) > room then nat room else length p) p else sent) in
          (cap_Write w p, sent'))"

definition pump :: "bool \<Rightarrow> bytes list \<Rightarrow> capWriter \<Rightarrow> capWriter \<times> bytes" where
  "pump hasSink reads w = fold (pump_chunk hasSink) reads (w, [])"

section \<open>Lemmas: capped output\<close>

definition cap_ok :: "int \<Rightarrow> bytes \<Rightarrow> capWriter \<Rightarrow> bool" where
  "cap_ok l s w \<longleftrightarrow> cw_limit w = l \<and> cw_buf w = take (nat l) s \<and> cw_n w = min l (int (length s)) \<and>
     (cw_truncated w \<longleftrightarrow> int (length s) > l)"

lemma cap_Write_ok:
  assumes "cap_ok l s w" and "p \<noteq> []" and "0 < l"
  shows "cap_ok l (s @ p) (cap_Write w p)"
proof (cases "int (length s) \<ge> l")
  case True
  then have "cw_n w \<ge> cw_limit w" "nat l \<le> length s" using assms(1) by (auto simp: cap_ok_def)
  then show ?thesis using assms True by (auto simp: cap_ok_def cap_Write_def)
next
  case False
  then have w: "cw_n w = int (length s)" "cw_limit w = l" "cw_buf w = s" "\<not> cw_truncated w"
    using assms(1) by (auto simp: cap_ok_def)
  have "take (nat l) (s @ p) = s @ take (nat (l - int (length s))) p" using False by (simp add: nat_diff_distrib)
  then show ?thesis using False w by (auto simp: cap_ok_def cap_Write_def Let_def)
qed

lemma pump_chunk_ok:
  assumes "cap_ok l s w" and "0 < l" and "hasSink \<longrightarrow> sent = take (nat l) s"
  shows "cap_ok l (s @ p) (fst (pump_chunk hasSink p (w, sent))) \<and>
    (hasSink \<longrightarrow> snd (pump_chunk hasSink p (w, sent)) = take (nat l) (s @ p))"
proof (cases "p = []")
  case True
  then show ?thesis using assms by (simp add: pump_chunk_def)
next
  case False
  have w: "cw_limit w = l" "cw_n w = min l (int (length s))" using assms(1) by (auto simp: cap_ok_def)
  have "snd (pump_chunk hasSink p (w, sent)) = take (nat l) (s @ p)" if hasSink
  proof (cases "int (length s) \<ge> l")
    case True
    then show ?thesis using False w assms(3) that by (simp add: pump_chunk_def Let_def)
  next
    case lt: False
    have "take (nat l) s = s" using lt by simp
    then show ?thesis using False w assms(3) that lt
      by (auto simp: pump_chunk_def Let_def nat_diff_distrib)
  qed
  then show ?thesis using cap_Write_ok [OF assms(1) False assms(2)] False by (simp add: pump_chunk_def Let_def)
qed

lemma pump_fold_ok:
  "cap_ok l s w \<Longrightarrow> 0 < l \<Longrightarrow> hasSink \<longrightarrow> sent = take (nat l) s \<Longrightarrow>
    cap_ok l (s @ concat reads) (fst (fold (pump_chunk hasSink) reads (w, sent))) \<and>
    (hasSink \<longrightarrow> snd (fold (pump_chunk hasSink) reads (w, sent)) = take (nat l) (s @ concat reads))"
proof (induction reads arbitrary: s w sent)
  case (Cons p reads)
  obtain w1 sent1 where st: "pump_chunk hasSink p (w, sent) = (w1, sent1)" by fastforce
  have c: "cap_ok l (s @ p) w1" "hasSink \<longrightarrow> sent1 = take (nat l) (s @ p)"
    using pump_chunk_ok [OF Cons.prems, of p] st by auto
  show ?case using Cons.IH [OF c(1) Cons.prems(2) c(2)] st by auto
qed simp

lemma pump_result:
  assumes "0 < l"
  shows "cw_buf (fst (pump hasSink reads (new_capWriter l))) = take (nat l) (concat reads)"
    and "cw_truncated (fst (pump hasSink reads (new_capWriter l))) \<longleftrightarrow> int (length (concat reads)) > l"
    and "hasSink \<Longrightarrow> snd (pump hasSink reads (new_capWriter l)) = take (nat l) (concat reads)"
proof -
  have "cap_ok l [] (new_capWriter l)" using assms by (simp add: cap_ok_def new_capWriter_def)
  from pump_fold_ok [OF this assms, of hasSink "[]" reads]
  show "cw_buf (fst (pump hasSink reads (new_capWriter l))) = take (nat l) (concat reads)"
    "cw_truncated (fst (pump hasSink reads (new_capWriter l))) \<longleftrightarrow> int (length (concat reads)) > l"
    "hasSink \<Longrightarrow> snd (pump hasSink reads (new_capWriter l)) = take (nat l) (concat reads)"
    by (auto simp: pump_def cap_ok_def)
qed

section \<open>Lemmas: shell words\<close>

text \<open>
  The token splitting of the POSIX shell for blanks, semicolons, single quotes and
  backslashes: \<open>None\<close> for an open quote or a trailing backslash.  Every other
  character, the double quotes around the positional parameters included, stays in
  its word.  The accumulator is \<open>None\<close> between words.
\<close>

datatype sh_token = Word string | Semi

definition flush :: "string option \<Rightarrow> sh_token list" where
  "flush acc = (case acc of None \<Rightarrow> [] | Some w \<Rightarrow> [Word w])"

fun sh_tokens :: "string option \<Rightarrow> string \<Rightarrow> sh_token list option"
  and sh_quoted :: "string \<Rightarrow> string \<Rightarrow> sh_token list option" where
  "sh_tokens acc [] = Some (flush acc)"
| "sh_tokens acc (c # s) =
     (if c = CHR '' '' then map_option ((@) (flush acc)) (sh_tokens None s)
      else if c = CHR '';'' then map_option ((@) (flush acc @ [Semi])) (sh_tokens None s)
      else if c = quote then sh_quoted (case acc of None \<Rightarrow> [] | Some w \<Rightarrow> w) s
      else if c = backslash then
        (case s of [] \<Rightarrow> None | d # s' \<Rightarrow> sh_tokens (Some ((case acc of None \<Rightarrow> [] | Some w \<Rightarrow> w) @ [d])) s')
      else sh_tokens (Some ((case acc of None \<Rightarrow> [] | Some w \<Rightarrow> w) @ [c])) s)"
| "sh_quoted w [] = None"
| "sh_quoted w (c # s) = (if c = quote then sh_tokens (Some w) s else sh_quoted (w @ [c]) s)"

lemma sh_quoted_replace: "sh_quoted w (replace_quotes s @ quote # t) = sh_tokens (Some (w @ s)) t"
  by (induction s arbitrary: w) auto

lemma sh_tokens_shQuote: "sh_tokens None (shQuote s @ t) = sh_tokens (Some s) t"
  by (simp add: shQuote_def sh_quoted_replace)

lemma sh_tokens_shJoin:
  "ws \<noteq> [] \<Longrightarrow> c = CHR '' '' \<or> c = CHR '';'' \<Longrightarrow>
    sh_tokens None (shJoin ws @ c # t) = map_option ((@) (map Word ws)) (sh_tokens None (c # t))"
proof (induction ws rule: join_sp.induct)
  case (2 w)
  then show ?case by (cases "sh_tokens None t") (auto simp: shJoin_def sh_tokens_shQuote flush_def)
next
  case (3 w v vs)
  have "sh_tokens None (shJoin (w # v # vs) @ c # t) = sh_tokens (Some w) (CHR '' '' # shJoin (v # vs) @ c # t)"
    by (simp add: shJoin_def sh_tokens_shQuote)
  also have "\<dots> = map_option ((#) (Word w)) (sh_tokens None (shJoin (v # vs) @ c # t))"
    by (cases "sh_tokens None (shJoin (v # vs) @ c # t)") (simp_all add: flush_def)
  finally show ?case using 3 by (cases "sh_tokens None (c # t)") simp_all
qed simp

section \<open>Lemmas: names and encodings\<close>

lemma Base_name: "Base s \<noteq> [] \<and> (slash \<in> set (Base s) \<longrightarrow> Base s = ''/'')"
proof -
  have "slash \<notin> set (takeWhile (\<lambda>c. c \<noteq> slash) t)" for t by (induction t) auto
  then show ?thesis by (simp add: Base_def Let_def)
qed

lemma sanitizeName_ok: "sanitizeName s = [] \<or> name_ok (sanitizeName s) \<and> backslash \<notin> set (sanitizeName s)"
  using Base_name [of "TrimSpace s"] by (auto simp: sanitizeName_def Let_def name_ok_def)

lemma b64std_value_digit: "n < 64 \<Longrightarrow> b64std_value (b64std_digit n) = Some n"
  by (auto simp: b64std_value_def b64std_digit_def less_eq_char_def)

lemma std_roundtrip: "\<forall>b \<in> set bs. b < 256 \<Longrightarrow> std_decode (std_encode bs) = Some bs"
proof (induction bs rule: std_encode.induct)
  case (2 a)
  then have "a div 4 < 64" "a mod 4 * 16 < 64" by auto
  then show ?case using 2 by (simp add: b64std_value_digit b64std_value_def [of "CHR ''=''"] less_eq_char_def)
next
  case (3 a b)
  then have "a div 4 < 64" "a mod 4 * 16 + b div 16 < 64" "b mod 16 * 4 < 64" by auto
  moreover have "(a mod 4 * 16 + b div 16) div 16 = a mod 4" "(a mod 4 * 16 + b div 16) mod 16 = b div 16" using 3 by auto
  ultimately show ?case using 3 by (simp add: b64std_value_digit b64std_value_def [of "CHR ''=''"] less_eq_char_def)
next
  case (4 a b c r)
  then have "a div 4 < 64" "a mod 4 * 16 + b div 16 < 64" "b mod 16 * 4 + c div 64 < 64" "c mod 64 < 64" by auto
  moreover have "(a mod 4 * 16 + b div 16) div 16 = a mod 4" "(a mod 4 * 16 + b div 16) mod 16 = b div 16"
    "(b mod 16 * 4 + c div 64) div 4 = b mod 16" "(b mod 16 * 4 + c div 64) mod 4 = c div 64"
    using 4(2) by auto
  ultimately show ?case using 4 by (simp add: b64std_value_digit)
qed simp

end
