(* ===== verification/Registry.thy ===== *)
theory Registry
  imports Executor
begin

text \<open>
  The language catalogue of \<^verbatim>\<open>internal/registry/registry.go\<close>.  Reading the file and
  parsing YAML are arguments (\<open>file\<close>, \<open>yaml\<close>); the indexing loop, the
  resolution of a name and version, the default limits and the assembly of a
  \<open>Spec\<close> are modelled as written.
\<close>

section \<open>Data\<close>

record RegistryLimits =
  rl_MemoryBytes :: int
  rl_CPUs :: string
  rl_PidsLimit :: int
  rl_WallTimeSec :: int
  rl_CompileTimeSec :: int
  rl_OutputBytes :: int

record Language =
  r_Name :: string
  r_Version :: string
  r_Aliases :: "string list"
  r_Image :: string
  r_SourceFile :: string
  r_Compile :: "string list"
  r_Run :: "string list"
  r_Workdir :: string
  r_Env :: "(string \<times> string) list"
  r_ScratchExec :: bool
  r_ScratchMB :: int
  r_Limits :: RegistryLimits

record Registry =
  byKey :: "string \<rightharpoonup> Language"
  all :: "Language list"

datatype reg_error = ReadRegistry | ParseRegistry | NoLanguages | BadEntry nat

section \<open>Loading\<close>

definition withDefaults :: "Language \<Rightarrow> Language" where
  "withDefaults l = (if r_Workdir l = [] then l\<lparr>r_Workdir := ''/box''\<rparr> else l)"

definition entryKeys :: "(bytes \<Rightarrow> bytes) \<Rightarrow> Language \<Rightarrow> string list" where
  "entryKeys uni l = concat (map (\<lambda>k. [ToLower uni k, ToLower uni k @ ''@'' @ r_Version l]) (r_Name l # r_Aliases l))"

definition indexEntry :: "(bytes \<Rightarrow> bytes) \<Rightarrow> Language \<Rightarrow> (string \<rightharpoonup> Language) \<Rightarrow> (string \<rightharpoonup> Language)" where
  "indexEntry uni l m = fold (\<lambda>k m. m(k \<mapsto> l)) (entryKeys uni l) m"

fun loadEntries :: "(bytes \<Rightarrow> bytes) \<Rightarrow> nat \<Rightarrow> Language list \<Rightarrow> Registry \<Rightarrow> (reg_error, Registry) result" where
  "loadEntries uni i [] r = Inr r"
| "loadEntries uni i (l0 # ls) r =
     (let l = withDefaults l0 in
      if r_Name l = [] \<or> r_Image l = [] \<or> r_Run l = [] then Inl (BadEntry i)
      else loadEntries uni (Suc i) ls \<lparr>byKey = indexEntry uni l (byKey r), all = all r @ [l]\<rparr>)"

definition Load :: "(bytes \<Rightarrow> bytes) \<Rightarrow> (bytes \<Rightarrow> Language list option) \<Rightarrow> bytes option \<Rightarrow> (reg_error, Registry) result" where
  "Load uni yaml file =
     (case file of None \<Rightarrow> Inl ReadRegistry
      | Some data \<Rightarrow>
        (case yaml data of None \<Rightarrow> Inl ParseRegistry
         | Some langs \<Rightarrow>
           if langs = [] then Inl NoLanguages
           else loadEntries uni 0 langs \<lparr>byKey = Map.empty, all = []\<rparr>))"

definition Reload :: "(bytes \<Rightarrow> bytes) \<Rightarrow> (bytes \<Rightarrow> Language list option) \<Rightarrow> bytes option \<Rightarrow> Registry \<Rightarrow> reg_error option \<times> Registry" where
  "Reload uni yaml file r =
     (case Load uni yaml file of Inl e \<Rightarrow> (Some e, r) | Inr nr \<Rightarrow> (None, r\<lparr>byKey := byKey nr, all := all nr\<rparr>))"

section \<open>Resolution\<close>

definition ResolveLang :: "(bytes \<Rightarrow> bytes) \<Rightarrow> Registry \<Rightarrow> string \<Rightarrow> string \<Rightarrow> Language option" where
  "ResolveLang uni r name0 version =
     (let name = ToLower uni (TrimSpace name0) in
      if version \<noteq> [] \<and> byKey r (name @ ''@'' @ TrimSpace version) \<noteq> None then byKey r (name @ ''@'' @ TrimSpace version)
      else byKey r name)"

definition All :: "Registry \<Rightarrow> Language list" where "All r = all r"

definition nonzero :: "int \<Rightarrow> int \<Rightarrow> int" where "nonzero v def = (if v \<le> 0 then def else v)"

text \<open>\<open>ParseFloat\<close> is \<open>strconv.ParseFloat(_, 64)\<close> with its error dropped (zero then).\<close>

definition DefaultLimits :: "(string \<Rightarrow> float64) \<Rightarrow> Language \<Rightarrow> Limits" where
  "DefaultLimits ParseFloat l =
     (let cpus0 = ParseFloat (rl_CPUs (r_Limits l)); cpus = (if fle cpus0 (Fin 0) then Fin 1 else cpus0) in
      \<lparr>MemoryBytes = nonzero (rl_MemoryBytes (r_Limits l)) 268435456, CPUs = cpus, Pids = nonzero (rl_PidsLimit (r_Limits l)) 128,
       OutputBytes = nonzero (rl_OutputBytes (r_Limits l)) 65536,
       WallTimeMs = wrap64 (nonzero (rl_WallTimeSec (r_Limits l)) 10 * 1000),
       CompileTimeMs = wrap64 (rl_CompileTimeSec (r_Limits l) * 1000)\<rparr>)"

definition BuildSpec :: "Language \<Rightarrow> File list \<Rightarrow> string \<Rightarrow> string list \<Rightarrow> Limits \<Rightarrow> bool \<Rightarrow> Spec" where
  "BuildSpec l files stdin argv limits network =
     \<lparr>Lang = \<lparr>l_Name = r_Name l, l_Version = r_Version l\<rparr>, Image = r_Image l, Compile = r_Compile l, Run = r_Run l,
      Workdir = r_Workdir l, Env = r_Env l, ScratchExec = r_ScratchExec l, ScratchMB = r_ScratchMB l, Mounts = [],
      Files = files, Stdin = stdin, Argv = argv, s_Limits = limits, Network = network\<rparr>"

section \<open>Lemmas\<close>

lemma fold_upd_same: "fold (\<lambda>k m. m(k \<mapsto> l)) ks m x = (if x \<in> set ks then Some l else m x)"
  by (induction ks arbitrary: m) auto

lemma indexEntry_eq: "indexEntry uni l m x = (if x \<in> set (entryKeys uni l) then Some l else m x)"
  by (simp add: indexEntry_def fold_upd_same)

definition entry_ok :: "Language \<Rightarrow> bool" where
  "entry_ok l \<longleftrightarrow> r_Name l \<noteq> [] \<and> r_Image l \<noteq> [] \<and> r_Run l \<noteq> [] \<and> r_Workdir l \<noteq> []"

definition reg_ok :: "(bytes \<Rightarrow> bytes) \<Rightarrow> Registry \<Rightarrow> bool" where
  "reg_ok uni r \<longleftrightarrow> (\<forall>l \<in> set (all r). entry_ok l) \<and>
     byKey r = (\<lambda>k. List.find (\<lambda>l. k \<in> set (entryKeys uni l)) (rev (all r)))"

lemma loadEntries_ok:
  "loadEntries uni i ls r = Inr r' \<Longrightarrow> reg_ok uni r \<Longrightarrow> reg_ok uni r' \<and> all r' = all r @ map withDefaults ls"
proof (induction uni i ls r rule: loadEntries.induct)
  case (2 uni i l0 ls r)
  let ?l = "withDefaults l0"
  have ok: "\<not> (r_Name ?l = [] \<or> r_Image ?l = [] \<or> r_Run ?l = [])" using 2(2) by (auto simp: Let_def split: if_splits)
  then have "entry_ok ?l" by (auto simp: entry_ok_def withDefaults_def)
  then have "reg_ok uni \<lparr>byKey = indexEntry uni ?l (byKey r), all = all r @ [?l]\<rparr>"
    using 2(3) by (auto simp: reg_ok_def indexEntry_eq fun_eq_iff)
  then show ?case using 2(1) [OF refl ok] 2(2) ok by (simp add: Let_def split: if_splits)
qed simp

lemma Load_ok: "Load uni yaml file = Inr r \<Longrightarrow> reg_ok uni r \<and> (\<exists>data ls. file = Some data \<and> yaml data = Some ls \<and> all r = map withDefaults ls)"
  using loadEntries_ok [of uni 0 _ "\<lparr>byKey = Map.empty, all = []\<rparr>" r]
  by (auto simp: Load_def reg_ok_def split: option.splits if_splits)

section \<open>Properties\<close>

text \<open>
  A catalogue that loads is consistent: a name or alias, with or without a
  version, resolves to the last entry that claims that key and to nothing else, and
  every language it resolves to has a name, an image, a run command and a working
  directory.
\<close>
theorem registry_resolves:
  assumes "Load uni yaml file = Inr r"
  shows "(\<forall>name version l. ResolveLang uni r name version = Some l \<longrightarrow>
      l \<in> set (All r) \<and> r_Name l \<noteq> [] \<and> r_Image l \<noteq> [] \<and> r_Run l \<noteq> [] \<and> r_Workdir l \<noteq> []) \<and>
    byKey r = (\<lambda>k. List.find (\<lambda>l. k \<in> set (entryKeys uni l)) (rev (All r)))"
proof -
  have ok: "reg_ok uni r" using Load_ok [OF assms] by blast
  have find: "l \<in> set (all r)" if "byKey r k = Some l" for k l
    using ok that by (auto simp: reg_ok_def find_Some_iff) (metis nth_mem length_rev set_rev)
  have "l \<in> set (all r) \<and> entry_ok l" if "ResolveLang uni r name version = Some l" for name version l
    using that find ok by (auto simp: ResolveLang_def Let_def reg_ok_def split: if_splits)
  then show ?thesis using ok by (auto simp: All_def entry_ok_def reg_ok_def)
qed

definition demo_lang :: Language where
  "demo_lang = \<lparr>r_Name = ''Python'', r_Version = ''3'', r_Aliases = [''py''], r_Image = ''img'', r_SourceFile = ''m.py'', r_Compile = [],
     r_Run = [''python''], r_Workdir = [], r_Env = [], r_ScratchExec = False, r_ScratchMB = 0,
     r_Limits = \<lparr>rl_MemoryBytes = 0, rl_CPUs = [], rl_PidsLimit = 0, rl_WallTimeSec = 0, rl_CompileTimeSec = 0, rl_OutputBytes = 0\<rparr>\<rparr>"

theorem registry_resolves_witness:
  "\<exists>r. Load id (\<lambda>_. Some [demo_lang]) (Some []) = Inr r \<and>
    byKey r = (\<lambda>k. List.find (\<lambda>l. k \<in> set (entryKeys id l)) (rev (All r)))"
proof -
  obtain r where r: "Load id (\<lambda>_. Some [demo_lang]) (Some []) = Inr r"
    by (simp add: Load_def demo_lang_def withDefaults_def Let_def)
  show ?thesis using registry_resolves [OF r] r by blast
qed

text \<open>
  A failed reload keeps the catalogue in use, and a successful one replaces it
  as a whole.
\<close>
theorem registry_reload:
  "(case Load uni yaml file of
      Inl e \<Rightarrow> Reload uni yaml file r = (Some e, r)
    | Inr nr \<Rightarrow> fst (Reload uni yaml file r) = None \<and> byKey (snd (Reload uni yaml file r)) = byKey nr \<and> All (snd (Reload uni yaml file r)) = All nr)"
  by (simp add: Reload_def All_def split: sum.splits)

text \<open>
  An unknown version is not an error: it resolves like the bare name, so a
  request can run another version than the one it asked for.
\<close>
theorem unknown_version_falls_back:
  "byKey r (ToLower uni (TrimSpace name) @ ''@'' @ TrimSpace version) = None \<longrightarrow>
    ResolveLang uni r name version = ResolveLang uni r name []"
  by (simp add: ResolveLang_def Let_def)

theorem unknown_version_falls_back_witness:
  "ResolveLang id \<lparr>byKey = [''py'' \<mapsto> demo_lang, ''py@3'' \<mapsto> demo_lang], all = [demo_lang]\<rparr> ''py'' ''2'' = Some demo_lang"
proof -
  have t: "TrimSpace ''py'' = ''py''" "TrimSpace ''2'' = ''2''" "ToLower id ''py'' = ''py''" by code_simp+
  show ?thesis
    using unknown_version_falls_back [of "\<lparr>byKey = [''py'' \<mapsto> demo_lang, ''py@3'' \<mapsto> demo_lang], all = [demo_lang]\<rparr>" id "''py''" "''2''"] t
    by (simp add: ResolveLang_def)
qed

end
