(* ===== verification/ExecuteApi.thy ===== *)
theory ExecuteApi
  imports Auth Sched Registry
begin

text \<open>
  The one-shot endpoint: \<^verbatim>\<open>internal/api/execute.go\<close>, the local runner of
  \<^verbatim>\<open>internal/api/metrics.go\<close> and the queue drivers of \<^verbatim>\<open>internal/queue\<close>.  The
  executor behind the interface is the argument \<open>exec\<close>: what it returns for a
  specification, with the output chunks it handed to a live sink.  The broker's
  transport is the JSON round trip of a job and of its result envelope.
\<close>

section \<open>Limits\<close>

definition maxMemoryBytes :: int where "maxMemoryBytes = 536870912"
definition maxOutputBytes :: int where "maxOutputBytes = 262144"
definition maxWallTimeMs :: int where "maxWallTimeMs = 20000"
definition maxPids :: int where "maxPids = 256"
definition maxCPUs :: float64 where "maxCPUs = Fin 2"
definition maxBodyBytes :: int where "maxBodyBytes = 262144"

record limitsOverride =
  o_MemoryBytes :: "int option"
  o_CPUs :: "float64 option"
  o_Pids :: "int option"
  o_OutputBytes :: "int option"
  o_WallTimeMs :: "int option"

definition clamp64 :: "int \<Rightarrow> int \<Rightarrow> int \<Rightarrow> int" where
  "clamp64 v lo hi = (if v < lo then lo else if v > hi then hi else v)"

definition clampInt :: "int \<Rightarrow> int \<Rightarrow> int \<Rightarrow> int" where
  "clampInt v lo hi = (if v < lo then lo else if v > hi then hi else v)"

definition override :: "'a option \<Rightarrow> 'a \<Rightarrow> 'a" where
  "override v d = (case v of None \<Rightarrow> d | Some x \<Rightarrow> x)"

definition clampLimits :: "Limits \<Rightarrow> limitsOverride option \<Rightarrow> Limits" where
  "clampLimits def o' =
     (let l = (case o' of None \<Rightarrow> def
        | Some v \<Rightarrow> def\<lparr>MemoryBytes := override (o_MemoryBytes v) (MemoryBytes def), CPUs := override (o_CPUs v) (CPUs def),
            Pids := override (o_Pids v) (Pids def), OutputBytes := override (o_OutputBytes v) (OutputBytes def),
            WallTimeMs := override (o_WallTimeMs v) (WallTimeMs def)\<rparr>);
          c1 = (if flt (CPUs l) (Fin (1 / 10)) then Fin (1 / 10) else CPUs l);
          c2 = (if flt maxCPUs c1 then maxCPUs else c1)
      in l\<lparr>MemoryBytes := clamp64 (MemoryBytes l) 8388608 maxMemoryBytes,
           OutputBytes := clamp64 (OutputBytes l) 1024 maxOutputBytes,
           Pids := clampInt (Pids l) 1 maxPids, WallTimeMs := clampInt (WallTimeMs l) 100 maxWallTimeMs, CPUs := c2\<rparr>)"

section \<open>Requests and specifications\<close>

record execRequest =
  q_Language :: string
  q_Version :: string
  q_Code :: string
  q_Files :: "File list"
  q_Stdin :: string
  q_Args :: "string list"
  q_Limits :: "limitsOverride option"
  q_Network :: bool

definition buildSpec :: "(string \<Rightarrow> float64) \<Rightarrow> Language \<Rightarrow> execRequest \<Rightarrow> Spec option" where
  "buildSpec ParseFloat lang req =
     (let files = (if q_Files req = [] \<and> q_Code req \<noteq> []
        then [\<lparr>f_Name = r_SourceFile lang, f_Content = q_Code req, f_Encoding = []\<rparr>] else q_Files req) in
      if files = [] then None
      else Some (BuildSpec lang files (q_Stdin req) (q_Args req) (clampLimits (DefaultLimits ParseFloat lang) (q_Limits req)) (q_Network req)))"

definition toRunResult :: "Result \<Rightarrow> json" where
  "toRunResult res = JObj [(''stdout'', JStr (Stdout res)), (''stderr'', JStr (Stderr res)), (''exitCode'', JInt (ExitCode res)),
     (''timedOut'', JBool (TimedOut res)), (''oomKilled'', JBool (OOMKilled res)), (''truncated'', JBool (Truncated res)),
     (''durationMs'', JInt (DurationMs res)), (''network'', JBool (r_Network res))]"

definition wantsSSE :: "request \<Rightarrow> bool" where
  "wantsSSE r \<longleftrightarrow> sublist ''text/event-stream'' (Header_Get r ''Accept'') \<or> Query_Get r ''stream'' = ''1''"

section \<open>Errors, the local runner and the queue\<close>

datatype api_error = errCapacity | ErrText string

definition errString :: "api_error \<Rightarrow> string" where
  "errString e = (case e of errCapacity \<Rightarrow> ''no free execution slot'' | ErrText s \<Rightarrow> s)"

record 's server =
  Sema :: "'s Limiter"
  execTotal :: "(string \<times> int) list"

definition ExecTotal :: "string \<Rightarrow> 's server \<Rightarrow> 's server" where
  "ExecTotal status st =
     st\<lparr>execTotal := map_put status (wrap64 ((case map_of (execTotal st) status of None \<Rightarrow> 0 | Some n \<Rightarrow> n) + 1)) (execTotal st)\<rparr>"

text \<open>A release that panics leaves \<open>None\<close>; the deferred call of every path is this one.\<close>

definition releaseSema :: "'s weighted \<Rightarrow> 's server \<Rightarrow> 's server option" where
  "releaseSema S st = map_option (\<lambda>l. st\<lparr>Sema := l\<rparr>) (Release S (Sema st))"

definition localRun :: "'s weighted \<Rightarrow> bool \<Rightarrow> (Spec \<Rightarrow> Result \<times> string option) \<Rightarrow> Spec \<Rightarrow> 's server
    \<Rightarrow> ((Result \<times> api_error option) \<times> 's server) option" where
  "localRun S ctxDone exec spec st =
     (case Acquire S ctxDone (Sema st) of
        (False, l) \<Rightarrow> Some ((zero_Result, Some errCapacity), st\<lparr>Sema := l\<rparr>)
      | (True, l) \<Rightarrow>
          map_option (\<lambda>st'. ((fst (exec spec), map_option ErrText (snd (exec spec))), st')) (releaseSema S (st\<lparr>Sema := l\<rparr>)))"

datatype driver = InProc | Valkey

record resultEnvelope =
  v_Result :: Result
  v_Err :: string

definition process :: "Result \<times> api_error option \<Rightarrow> resultEnvelope" where
  "process r = \<lparr>v_Result = fst r, v_Err = (case snd r of None \<Rightarrow> [] | Some e \<Rightarrow> errString e)\<rparr>"

definition openEnvelope :: "resultEnvelope \<Rightarrow> Result \<times> api_error option" where
  "openEnvelope rr = (v_Result rr, if v_Err rr \<noteq> [] then Some (ErrText (v_Err rr)) else None)"

definition Submit :: "driver \<Rightarrow> 's weighted \<Rightarrow> bool \<Rightarrow> (Spec \<Rightarrow> Result \<times> string option) \<Rightarrow> Spec \<Rightarrow> 's server
    \<Rightarrow> ((Result \<times> api_error option) \<times> 's server) option" where
  "Submit d S ctxDone exec spec st =
     (case d of
        InProc \<Rightarrow> localRun S ctxDone exec spec st
      | Valkey \<Rightarrow> map_option (\<lambda>(r, st'). (openEnvelope (process r), st')) (localRun S ctxDone exec spec st))"

section \<open>The handler\<close>

definition StatusOK :: int where "StatusOK = 200"
definition StatusBadRequest :: int where "StatusBadRequest = 400"
definition StatusInternalServerError :: int where "StatusInternalServerError = 500"

definition capacityResponse :: response where
  "capacityResponse = (writeJSON StatusTooManyRequests (JObj [(''error'', JStr ''capacity''), (''detail'', JStr ''no free execution slot'')]))
     \<lparr>rs_Header := [(''Retry-After'', ''1''), (''Content-Type'', ''application/json'')]\<rparr>"

definition netWarning :: string where
  "netWarning = ''network requested but currently unavailable (egress firewall not verified); ran with network OFF''"

definition sse_event :: "string \<Rightarrow> json \<Rightarrow> json" where
  "sse_event name payload = JObj [(''event'', JStr name), (''data'', payload)]"

definition executeSSE :: "bool \<Rightarrow> (Spec \<Rightarrow> (bool \<times> bytes) list) \<Rightarrow> (Spec \<Rightarrow> Result \<times> string option) \<Rightarrow> string \<Rightarrow> string \<Rightarrow> string \<Rightarrow> Spec
    \<Rightarrow> 's server \<Rightarrow> response \<times> 's server" where
  "executeSSE flusher chunks exec backend name version spec st =
     (if \<not> flusher then (writeJSON StatusInternalServerError (jerror ''streaming_unsupported''), st)
      else
        let live = map (\<lambda>(isErr, b). sse_event (if isErr then ''stderr'' else ''stdout'') (JObj [(''chunk'', JStr b)])) (chunks spec);
            resp = (\<lambda>evs. \<lparr>rs_Status = StatusOK, rs_Header = [(''Content-Type'', ''text/event-stream''), (''Cache-Control'', ''no-cache''),
              (''Connection'', ''keep-alive''), (''X-Accel-Buffering'', ''no'')], rs_Body = JArr (live @ evs), rs_Raw = []\<rparr>) in
        case exec spec of
          (_, Some e) \<Rightarrow> (resp [sse_event ''error'' (jerror e)], ExecTotal ''error'' st)
        | (res, None) \<Rightarrow>
            (resp [sse_event ''done'' (JObj ([(''language'', JStr name), (''version'', JStr version), (''backend'', JStr backend),
               (''run'', toRunResult res)] @
               (if Network spec \<and> \<not> r_Network res then [(''warning'', JStr netWarning)] else [])))], ExecTotal ''ok'' st))"

text \<open>\<open>None\<close> is a panic in the handler; \<open>fmtq\<close> is the quoting of the format verb \<open>%q\<close>.\<close>

definition handleExecute :: "(string \<Rightarrow> string) \<Rightarrow> (bytes \<Rightarrow> bytes) \<Rightarrow> (string \<Rightarrow> float64) \<Rightarrow> (bytes \<Rightarrow> execRequest + string) \<Rightarrow> Registry \<Rightarrow> driver \<Rightarrow> 's weighted
    \<Rightarrow> bool \<Rightarrow> bool \<Rightarrow> (Spec \<Rightarrow> (bool \<times> bytes) list) \<Rightarrow> (Spec \<Rightarrow> Result \<times> string option) \<Rightarrow> string \<Rightarrow> request \<Rightarrow> 's server
    \<Rightarrow> (response \<times> 's server) option" where
  "handleExecute fmtq uni ParseFloat decode reg d S ctxDone flusher chunks exec backend r st =
     (case decode (rq_Body r) of
        Inr e \<Rightarrow> Some (writeJSON StatusBadRequest (JObj [(''error'', JStr ''invalid_json''), (''detail'', JStr e)]), st)
      | Inl req \<Rightarrow>
        if TrimSpace (q_Language req) = [] then Some (writeJSON StatusBadRequest (jerror ''language_required''), st)
        else case ResolveLang uni reg (q_Language req) (q_Version req) of
          None \<Rightarrow> Some (writeJSON StatusBadRequest (JObj [(''error'', JStr ''unknown_language''),
            (''detail'', JStr (fmtq (q_Language req) @ '' is not a known runtime; see GET /runtimes''))]), st)
        | Some lang \<Rightarrow>
          (case buildSpec ParseFloat lang req of
             None \<Rightarrow> Some (writeJSON StatusBadRequest (JObj [(''error'', JStr ''no_source''), (''detail'', JStr ''provide `code` or `files`'')]), st)
           | Some spec \<Rightarrow>
             if wantsSSE r then
               (case Acquire S ctxDone (Sema st) of
                  (False, l) \<Rightarrow> Some (capacityResponse, st\<lparr>Sema := l\<rparr>)
                | (True, l) \<Rightarrow>
                    (case executeSSE flusher chunks exec backend (r_Name lang) (r_Version lang) spec (st\<lparr>Sema := l\<rparr>) of
                       (resp, st') \<Rightarrow> map_option (Pair resp) (releaseSema S st')))
             else
               (case Submit d S ctxDone exec spec st of
                  None \<Rightarrow> None
                | Some ((res, Some e), st') \<Rightarrow>
                    if e = errCapacity then Some (capacityResponse, ExecTotal ''rejected'' st')
                    else Some (writeJSON StatusInternalServerError (JObj [(''error'', JStr ''execution_failed''), (''detail'', JStr (errString e))]),
                               ExecTotal ''error'' st')
                | Some ((res, None), st') \<Rightarrow>
                    Some (writeJSON StatusOK (JObj ([(''language'', JStr (r_Name lang)), (''version'', JStr (r_Version lang)),
                        (''backend'', JStr backend), (''run'', toRunResult res)] @
                        (if Network spec \<and> \<not> r_Network res then [(''warning'', JStr netWarning)] else []))),
                      ExecTotal ''ok'' st'))))"

section \<open>Lemmas\<close>

context weighted_sem
begin

definition slots :: "'s server \<Rightarrow> int \<times> int" where
  "slots st = (held (l_sem (Sema st)), l_inUse (Sema st))"

lemma slots_ExecTotal [simp]: "slots (ExecTotal x st) = slots st"
  by (simp add: slots_def ExecTotal_def)

lemma acquire_release:
  assumes "Acquire S d (Sema st) = (True, l)" and "0 \<le> held (l_sem (Sema st))" and "Sema st2 = l"
  shows "\<exists>st'. releaseSema S st2 = Some st' \<and> slots st' = slots st"
proof -
  obtain s' where s': "w_Acquire S d (l_sem (Sema st)) = Some s'" "l = (Sema st)\<lparr>l_sem := s', l_inUse := l_inUse (Sema st) + 1\<rparr>"
    using assms(1) by (auto simp: Acquire_def split: option.splits)
  then have h: "held s' = held (l_sem (Sema st)) + 1" using Acquire_ok by blast
  then obtain s2 where "w_Release S s' = Some s2" "held s2 = held s' - 1" using Release_held [of s'] assms(2) by auto
  then show ?thesis using s'(2) h assms(3) by (auto simp: releaseSema_def Release_def slots_def)
qed

lemma acquire_fail: "Acquire S d (Sema st) = (False, l) \<Longrightarrow> slots (st\<lparr>Sema := l\<rparr>) = slots st"
  by (auto simp: Acquire_def slots_def split: option.splits)

lemma localRun_slots:
  assumes "0 \<le> held (l_sem (Sema st))"
  shows "\<exists>r st'. localRun S d exec spec st = Some (r, st') \<and> slots st' = slots st \<and>
    (snd r = Some errCapacity \<longleftrightarrow> \<not> fst (Acquire S d (Sema st)))"
proof -
  obtain ok l where a: "Acquire S d (Sema st) = (ok, l)" by fastforce
  show ?thesis
  proof (cases ok)
    case True
    then show ?thesis using acquire_release [of d st l "st\<lparr>Sema := l\<rparr>"] a assms by (auto simp: localRun_def)
  next
    case False
    then show ?thesis using acquire_fail a by (simp add: localRun_def)
  qed
qed

lemma Submit_slots:
  assumes "0 \<le> held (l_sem (Sema st))"
  shows "\<exists>r st'. Submit dr S d exec spec st = Some (r, st') \<and> slots st' = slots st"
  using localRun_slots [OF assms, of d exec spec] by (cases dr) (auto simp: Submit_def)

lemma executeSSE_Sema: "executeSSE f c x b n v spec st = (resp, st') \<Longrightarrow> Sema st' = Sema st"
  by (auto simp: executeSSE_def ExecTotal_def Let_def split: if_splits prod.splits option.splits)

lemma handleExecute_slots:
  assumes "0 \<le> held (l_sem (Sema st))"
  shows "\<exists>resp st'. handleExecute fmtq uni pf dec reg dr S d fl ch exec b r st = Some (resp, st') \<and> slots st' = slots st"
proof (cases "\<exists>req lang spec. dec (rq_Body r) = Inl req \<and> TrimSpace (q_Language req) \<noteq> [] \<and>
    ResolveLang uni reg (q_Language req) (q_Version req) = Some lang \<and> buildSpec pf lang req = Some spec")
  case False
  then show ?thesis by (auto simp: handleExecute_def split: sum.splits option.splits)
next
  case True
  then obtain req lang spec where h: "dec (rq_Body r) = Inl req" "TrimSpace (q_Language req) \<noteq> []"
    "ResolveLang uni reg (q_Language req) (q_Version req) = Some lang" "buildSpec pf lang req = Some spec" by blast
  show ?thesis
  proof (cases "wantsSSE r")
    case sse: True
    obtain ok l where a: "Acquire S d (Sema st) = (ok, l)" by fastforce
    show ?thesis
    proof (cases ok)
      case True
      obtain resp st1 where e: "executeSSE fl ch exec b (r_Name lang) (r_Version lang) spec (st\<lparr>Sema := l\<rparr>) = (resp, st1)" by fastforce
      then have "Sema st1 = l" using executeSSE_Sema by fastforce
      then show ?thesis using acquire_release [of d st l st1] a True assms h sse e by (auto simp: handleExecute_def)
    next
      case False
      then show ?thesis using acquire_fail a h sse by (simp add: handleExecute_def)
    qed
  next
    case False
    obtain res err st1 where "Submit dr S d exec spec st = Some ((res, err), st1)" "slots st1 = slots st"
      using Submit_slots [OF assms, of dr d exec spec] by auto
    then show ?thesis using h False by (cases err) (auto simp: handleExecute_def)
  qed
qed

end

lemma clamp_bounds: "lo \<le> hi \<Longrightarrow> lo \<le> clamp64 v lo hi \<and> clamp64 v lo hi \<le> hi" "lo \<le> hi \<Longrightarrow> lo \<le> clampInt v lo hi \<and> clampInt v lo hi \<le> hi"
  by (auto simp: clamp64_def clampInt_def)

section \<open>Properties\<close>

text \<open>
  Whatever the registry's defaults and the caller's overrides, the limits of an
  execution lie within the hard ceilings.
\<close>
theorem limits_within_ceilings:
  "let l = clampLimits def o' in
    8388608 \<le> MemoryBytes l \<and> MemoryBytes l \<le> maxMemoryBytes \<and> 1024 \<le> OutputBytes l \<and> OutputBytes l \<le> maxOutputBytes \<and>
    1 \<le> Pids l \<and> Pids l \<le> maxPids \<and> 100 \<le> WallTimeMs l \<and> WallTimeMs l \<le> maxWallTimeMs \<and>
    (CPUs l = NaN \<or> fle (Fin (1 / 10)) (CPUs l) \<and> fle (CPUs l) maxCPUs)"
proof -
  define c where "c = CPUs (case o' of None \<Rightarrow> def | Some v \<Rightarrow> def\<lparr>CPUs := override (o_CPUs v) (CPUs def)\<rparr>)"
  have "CPUs (clampLimits def o') = (let c1 = (if flt c (Fin (1 / 10)) then Fin (1 / 10) else c) in if flt maxCPUs c1 then maxCPUs else c1)"
    by (cases o') (simp_all add: clampLimits_def c_def Let_def)
  then have "CPUs (clampLimits def o') = NaN \<or> fle (Fin (1 / 10)) (CPUs (clampLimits def o')) \<and> fle (CPUs (clampLimits def o')) maxCPUs"
    by (cases c) (auto simp: flt_def maxCPUs_def Let_def)
  then show ?thesis
    using clamp_bounds(1) [of 8388608 maxMemoryBytes] clamp_bounds(1) [of 1024 maxOutputBytes]
      clamp_bounds(2) [of 1 maxPids] clamp_bounds(2) [of 100 maxWallTimeMs]
    by (simp add: clampLimits_def Let_def maxMemoryBytes_def maxOutputBytes_def maxPids_def maxWallTimeMs_def)
qed

text \<open>
  What an execution launches comes from the catalogue, not from the caller: the
  image, the compile and run commands, the working directory, the environment and
  the scratch settings are those of the resolved language, there are no extra
  mounts, and the limits are clamped.
\<close>
theorem spec_from_registry:
  assumes "buildSpec pf lang req = Some spec"
  shows "Image spec = r_Image lang \<and> Compile spec = r_Compile lang \<and> Run spec = r_Run lang \<and> Workdir spec = r_Workdir lang \<and>
    Env spec = r_Env lang \<and> ScratchExec spec = r_ScratchExec lang \<and> ScratchMB spec = r_ScratchMB lang \<and> Mounts spec = [] \<and>
    Files spec \<noteq> [] \<and> MemoryBytes (s_Limits spec) \<le> maxMemoryBytes \<and> Pids (s_Limits spec) \<le> maxPids \<and>
    WallTimeMs (s_Limits spec) \<le> maxWallTimeMs \<and> OutputBytes (s_Limits spec) \<le> maxOutputBytes"
proof -
  have "s_Limits spec = clampLimits (DefaultLimits pf lang) (q_Limits req)"
    using assms by (auto simp: buildSpec_def BuildSpec_def Let_def split: if_splits)
  then have "MemoryBytes (s_Limits spec) \<le> maxMemoryBytes \<and> Pids (s_Limits spec) \<le> maxPids \<and>
      WallTimeMs (s_Limits spec) \<le> maxWallTimeMs \<and> OutputBytes (s_Limits spec) \<le> maxOutputBytes"
    using clamp_bounds(1) [of 8388608 maxMemoryBytes] clamp_bounds(1) [of 1024 maxOutputBytes]
      clamp_bounds(2) [of 1 maxPids] clamp_bounds(2) [of 100 maxWallTimeMs]
    by (simp add: clampLimits_def Let_def maxMemoryBytes_def maxOutputBytes_def maxPids_def maxWallTimeMs_def)
  then show ?thesis using assms by (auto simp: buildSpec_def BuildSpec_def Let_def split: if_splits)
qed

definition demo_exec_req :: execRequest where
  "demo_exec_req = \<lparr>q_Language = ''py'', q_Version = [], q_Code = ''x'', q_Files = [], q_Stdin = [], q_Args = [], q_Limits = None, q_Network = False\<rparr>"

theorem spec_from_registry_witness:
  "\<exists>spec. buildSpec (\<lambda>_. Fin 0) demo_lang demo_exec_req = Some spec \<and> Image spec = ''img'' \<and> Mounts spec = []"
proof -
  obtain spec where s: "buildSpec (\<lambda>_. Fin 0) demo_lang demo_exec_req = Some spec"
    by (simp add: buildSpec_def demo_exec_req_def)
  show ?thesis using spec_from_registry [OF s] s by (simp add: demo_lang_def)
qed



text \<open>
  The two queue drivers do not answer alike when no slot is free: in process the
  caller gets 429 and a retry hint, through the broker the capacity error has become
  text and the caller gets 500.
\<close>
theorem capacity_by_driver:
  assumes "dec (rq_Body r) = Inl req" and "TrimSpace (q_Language req) \<noteq> []"
    and "ResolveLang uni reg (q_Language req) (q_Version req) = Some lang" and "buildSpec pf lang req = Some spec"
    and "\<not> wantsSSE r" and "\<not> fst (Acquire S d (Sema st))"
  shows "map_option (rs_Status \<circ> fst) (handleExecute fmtq uni pf dec reg InProc S d fl ch exec b r st) = Some 429 \<and>
    map_option (rs_Status \<circ> fst) (handleExecute fmtq uni pf dec reg Valkey S d fl ch exec b r st) = Some 500"
proof -
  obtain l where "Acquire S d (Sema st) = (False, l)" using assms(6) by (cases "Acquire S d (Sema st)") simp
  then have run: "localRun S d exec spec st = Some ((zero_Result, Some errCapacity), st\<lparr>Sema := l\<rparr>)" by (simp add: localRun_def)
  show ?thesis
    using assms(1-5) run
    by (simp add: handleExecute_def Submit_def process_def openEnvelope_def errString_def capacityResponse_def writeJSON_def
        StatusTooManyRequests_def StatusInternalServerError_def)
qed

theorem capacity_by_driver_witness:
  "map_option (rs_Status \<circ> fst) (handleExecute id id (\<lambda>_. Fin 0) (\<lambda>_. Inl demo_exec_req) \<lparr>byKey = [''py'' \<mapsto> demo_lang], all = [demo_lang]\<rparr> Valkey counter
      True True (\<lambda>_. []) (\<lambda>_. (zero_Result, None)) ''gvisor'' (demo_req ''k'') \<lparr>Sema = New counter 4, execTotal = []\<rparr>) = Some 500"
proof -
  have t: "TrimSpace ''py'' = ''py''" "ToLower id ''py'' = ''py''" by code_simp+
  obtain spec where s: "buildSpec (\<lambda>_. Fin 0) demo_lang demo_exec_req = Some spec"
    by (simp add: buildSpec_def demo_exec_req_def)
  have "\<not> wantsSSE (demo_req ''k'')" by (simp add: wantsSSE_def demo_req_def Header_Get_def Query_Get_def)
  moreover have "\<not> fst (Acquire counter True (Sema (\<lparr>Sema = New counter 4, execTotal = []\<rparr> :: (int \<times> int) server)))"
    by (simp add: Acquire_def counter_def New_def Let_def)
  ultimately show ?thesis
    using capacity_by_driver [of "\<lambda>_. Inl demo_exec_req" "demo_req ''k''" demo_exec_req id "\<lparr>byKey = [''py'' \<mapsto> demo_lang], all = [demo_lang]\<rparr>"
      demo_lang "\<lambda>_. Fin 0" spec counter True "\<lparr>Sema = New counter 4, execTotal = []\<rparr>" id True "\<lambda>_. []" "\<lambda>_. (zero_Result, None)" "''gvisor''"] s t
    by (simp add: demo_exec_req_def ResolveLang_def Let_def)
qed

end
