(* ===== verification/Gvisor.thy ===== *)
theory Gvisor
  imports Executor
begin

text \<open>
  The gVisor backend of \<^verbatim>\<open>internal/executor/gvisor.go\<close>.  Docker, the file system
  and the clock are the environment record \<open>exec_env\<close> of one execution: what each
  call to them returned.  \<open>Execute\<close> returns the result, the error and the
  commands and file operations it issued, in order, so that teardown is a
  statement about that trace.
\<close>

section \<open>The backend\<close>

record Gvisor =
  g_Runtime :: string
  NetRuntime :: string
  Slice :: string
  JobRoot :: string
  User :: string
  AllowNetwork :: bool
  EgressNetwork :: string
  ResolvConf :: string
  Sentinel :: string
  SentinelMaxAge :: int

definition NewGvisor :: Gvisor where
  "NewGvisor = \<lparr>g_Runtime = ''runsc-untrusted'', NetRuntime = ''runsc-net'', Slice = ''isobox.slice'', JobRoot = [],
     User = ''65534:65534'', AllowNetwork = True, EgressNetwork = ''isobox-egress'', ResolvConf = ''/etc/isobox/resolv.conf'',
     Sentinel = ''/etc/isobox/egress-ok'', SentinelMaxAge = 240 * seconds\<rparr>"

text \<open>\<open>stat\<close> is the age of the sentinel file, \<open>None\<close> when it cannot be read.\<close>

definition egressFirewallFresh :: "Gvisor \<Rightarrow> int option \<Rightarrow> bool" where
  "egressFirewallFresh g stat =
     (if Sentinel g = [] then True else case stat of None \<Rightarrow> False | Some age \<Rightarrow> age < SentinelMaxAge g)"

definition NetMode :: "Gvisor \<Rightarrow> int option \<Rightarrow> string \<times> string \<times> string \<times> bool" where
  "NetMode g stat =
     (if AllowNetwork g \<and> EgressNetwork g \<noteq> [] \<and> egressFirewallFresh g stat
      then (NetRuntime g, EgressNetwork g, ResolvConf g, True) else ([], [], [], False))"

definition networkEnabled :: "Gvisor \<Rightarrow> int option \<Rightarrow> Spec \<Rightarrow> bool" where
  "networkEnabled g stat s \<longleftrightarrow> Network s \<and> AllowNetwork g \<and> EgressNetwork g \<noteq> [] \<and> egressFirewallFresh g stat"

definition Name :: "Gvisor \<Rightarrow> string" where "Name g = ''gvisor''"

datatype health_error = DockerInfo | ParseRuntimes | NotRegistered string

text \<open>\<open>info\<close> is the output of \<open>docker info\<close>; \<open>unmarshal\<close> reads the keys of its JSON object.\<close>

definition HealthCheck :: "Gvisor \<Rightarrow> bytes option \<Rightarrow> (bytes \<Rightarrow> string list option) \<Rightarrow> health_error option" where
  "HealthCheck g info unmarshal =
     (case info of None \<Rightarrow> Some DockerInfo
      | Some out \<Rightarrow> (case unmarshal out of None \<Rightarrow> Some ParseRuntimes
          | Some runtimes \<Rightarrow> if g_Runtime g \<in> set runtimes then None else Some (NotRegistered (g_Runtime g))))"

section \<open>The command line\<close>

text \<open>\<open>strconv.FormatFloat(x, 'f', 2, 64)\<close>: nearest multiple of 1/100, ties to even.\<close>

definition round_half_even :: "rat \<Rightarrow> int" where
  "round_half_even x =
     (let f = floor x; d = x - of_int f in
      if d > 1 / 2 \<or> d = 1 / 2 \<and> odd f then f + 1 else f)"

definition FormatFloat2 :: "float64 \<Rightarrow> string" where
  "FormatFloat2 x =
     (case x of NaN \<Rightarrow> ''NaN'' | PosInf \<Rightarrow> ''+Inf'' | NegInf \<Rightarrow> ''-Inf''
      | Fin r \<Rightarrow>
          (let m = nat (round_half_even (abs r * 100)) in
           (if r < 0 then ''-'' else []) @ nat_digits (m div 100) @ ''.'' @
           [char_of (48 + m mod 100 div 10), char_of (48 + m mod 10)]))"

definition orDefault :: "int \<Rightarrow> int \<Rightarrow> int" where
  "orDefault v d = (if v \<le> 0 then d else v)"

definition mountArg :: "Mount \<Rightarrow> string list" where
  "mountArg m = [''-v'', HostPath m @ '':'' @ Target m @ '':'' @ (if RW m then ''rw'' else ''ro'')]"

fun envPut :: "string \<Rightarrow> string \<Rightarrow> (string \<times> string) list \<Rightarrow> (string \<times> string) list" where
  "envPut k v [] = [(k, v)]"
| "envPut k v ((k', v') # r) = (if k = k' then (k, v) # r else (k', v') # envPut k v r)"

definition envOf :: "Spec \<Rightarrow> (string \<times> string) list" where
  "envOf s = fold (\<lambda>(k, v) m. envPut k v m) (Env s) [(''HOME'', ''/tmp'')]"

text \<open>
  \<open>stat1\<close> and \<open>stat2\<close> are the sentinel's ages at the two calls of \<open>networkEnabled\<close>;
  \<open>ord\<close> is the order in which the environment map is visited.
\<close>

definition tmpfsOpt :: "Spec \<Rightarrow> string" where
  "tmpfsOpt s =
     (let scratchMB = orDefault (ScratchMB s) 64;
          execOpt = (if ScratchExec s then ''exec'' else ''noexec'')
      in ''/tmp:rw,'' @ execOpt @ '',nosuid,nodev,size='' @ Itoa scratchMB @ ''m,nr_inodes='' @ Itoa (wrap64 (scratchMB * 64)))"

definition netFlags :: "int option \<Rightarrow> int option \<Rightarrow> Gvisor \<Rightarrow> Spec \<Rightarrow> string list" where
  "netFlags stat1 stat2 g s =
     (let runtime = (if networkEnabled g stat1 s then NetRuntime g else g_Runtime g);
          netArgs = (if networkEnabled g stat1 s then [''--network='' @ EgressNetwork g] else [''--network=none''])
      in [''--runtime'', runtime] @ netArgs @
         (if networkEnabled g stat2 s \<and> ResolvConf g \<noteq> [] then [''-v'', ResolvConf g @ '':/etc/resolv.conf:ro''] else []))"

definition hardFlags :: "Gvisor \<Rightarrow> string \<Rightarrow> Spec \<Rightarrow> string list" where
  "hardFlags g jobDir s =
     (let mem = orDefault (MemoryBytes (s_Limits s)) 268435456;
          pids = orDefault (Pids (s_Limits s)) 128;
          cpus = (if fle (CPUs (s_Limits s)) (Fin 0) then Fin 1 else CPUs (s_Limits s));
          workdir = (if Workdir s = [] then ''/box'' else Workdir s)
      in [''--read-only'', ''--tmpfs'', tmpfsOpt s, ''-v'', jobDir @ '':/box:ro'', ''-w'', workdir] @
         [''--memory'', Itoa mem, ''--memory-swap'', Itoa mem] @ [''--cpus'', FormatFloat2 cpus] @ [''--pids-limit'', Itoa pids] @
         [''--cap-drop=ALL'', ''--security-opt=no-new-privileges'', ''--user='' @ User g, ''--cgroup-parent='' @ Slice g,
          ''--hostname=sandbox'', ''--label'', ''isobox.managed=true''])"

definition buildRunArgs :: "int option \<Rightarrow> int option \<Rightarrow> ((string \<times> string) list \<Rightarrow> (string \<times> string) list)
    \<Rightarrow> Gvisor \<Rightarrow> string \<Rightarrow> string \<Rightarrow> Spec \<Rightarrow> string list" where
  "buildRunArgs stat1 stat2 ord g name jobDir s =
     [''--name'', name] @ netFlags stat1 stat2 g s @ hardFlags g jobDir s @
     concat (map mountArg (Mounts s)) @
     concat (map (\<lambda>(k, v). [''--env'', k @ ''='' @ v]) (ord (envOf s))) @ [Image s]"

section \<open>One execution\<close>

fun split_pipe :: "string \<Rightarrow> (string \<times> string) option" where
  "split_pipe [] = None"
| "split_pipe (c # s) = (if c = CHR ''|'' then Some ([], s) else map_option (\<lambda>(a, b). (c # a, b)) (split_pipe s))"

definition inspectState :: "bytes option \<Rightarrow> (bool \<times> int) option" where
  "inspectState out =
     (case out of None \<Rightarrow> None
      | Some o' \<Rightarrow> (case split_pipe (TrimSpace o') of None \<Rightarrow> None
          | Some (a, b) \<Rightarrow> Some (a = ''true'', case Atoi b of None \<Rightarrow> 0 | Some c \<Rightarrow> c)))"

datatype exec_error =
    CreateJobDir | ChmodJobDir | DecodeErr string | WriteErr string | PipeErr | StartErr | ExecStartFailed

datatype action =
    MkdirTemp string | WriteFile string bytes | DockerRun "string list" | DockerExec "string list" | DockerKill string
  | DockerInspect string | DockerRm string | RemoveAll string

record exec_env =
  e_stat0 :: "int option"
  e_stat1 :: "int option"
  e_stat2 :: "int option"
  e_mkdir :: "string option"
  e_chmod :: bool
  e_write :: "string \<Rightarrow> bool"
  e_uuid :: string
  e_ord :: "(string \<times> string) list \<Rightarrow> (string \<times> string) list"
  e_lower :: "bytes \<Rightarrow> bytes"
  e_outPipe :: bool
  e_errPipe :: bool
  e_start :: bool
  e_out :: "bytes list"
  e_err :: "bytes list"
  e_timer :: bool
  e_inspect :: "bytes option"
  e_exit :: "int option"
  e_duration :: int

fun writeFiles :: "exec_env \<Rightarrow> string \<Rightarrow> File list \<Rightarrow> exec_error option \<times> action list" where
  "writeFiles e jobDir [] = (None, [])"
| "writeFiles e jobDir (f # fs) =
     (let name = sanitizeName (f_Name f) in
      if name = [] then writeFiles e jobDir fs
      else case decodeFile (e_lower e) f of
        None \<Rightarrow> (Some (DecodeErr (f_Name f)), [])
      | Some data \<Rightarrow>
          if \<not> e_write e (Join [jobDir, name]) then (Some (WriteErr name), [WriteFile (Join [jobDir, name]) data])
          else case writeFiles e jobDir fs of (err, acts) \<Rightarrow> (err, WriteFile (Join [jobDir, name]) data # acts))"

definition launchScript :: "Spec \<Rightarrow> string" where
  "launchScript s =
     ''set -e; '' @ (if Compile s \<noteq> [] then shJoin (Compile s) @ ''; '' else []) @
     ''exec '' @ shJoin (Run s) @ '' '' @ [CHR 0x22, CHR ''$'', CHR ''@'', CHR 0x22]"

definition runArgv :: "exec_env \<Rightarrow> Gvisor \<Rightarrow> string \<Rightarrow> string \<Rightarrow> Spec \<Rightarrow> string list" where
  "runArgv e g name jobDir s =
     ''run'' # buildRunArgs (e_stat1 e) (e_stat2 e) (e_ord e) g name jobDir s @ [''sh'', ''-c'', launchScript s, ''iso''] @ Argv s"

definition outputLimit :: "Spec \<Rightarrow> int" where
  "outputLimit s = orDefault (OutputBytes (s_Limits s)) 65536"

definition finishResult :: "exec_env \<Rightarrow> bool \<Rightarrow> Spec \<Rightarrow> Result \<Rightarrow> Result" where
  "finishResult e hasSink s res0 =
     (let outW = fst (pump hasSink (e_out e) (new_capWriter (outputLimit s)));
          errW = fst (pump hasSink (e_err e) (new_capWriter (outputLimit s)));
          res1 = res0\<lparr>DurationMs := e_duration e, Stdout := cw_buf outW, Stderr := cw_buf errW,
            Truncated := cw_truncated outW \<or> cw_truncated errW, TimedOut := e_timer e\<rparr>;
          res2 = (case inspectState (e_inspect e) of
              Some (oom, code) \<Rightarrow> res1\<lparr>OOMKilled := oom, ExitCode := code\<rparr>
            | None \<Rightarrow> (case e_exit e of Some c \<Rightarrow> res1\<lparr>ExitCode := c\<rparr> | None \<Rightarrow> res1))
      in if TimedOut res2 then res2\<lparr>ExitCode := 137, OOMKilled := False\<rparr> else res2)"

definition Execute :: "exec_env \<Rightarrow> Gvisor \<Rightarrow> Spec \<Rightarrow> bool \<Rightarrow> Result \<times> exec_error option \<times> action list" where
  "Execute e g s hasSink =
     (let res = zero_Result\<lparr>r_Network := networkEnabled g (e_stat0 e) s\<rparr> in
      case e_mkdir e of
        None \<Rightarrow> (res, Some CreateJobDir, [])
      | Some jobDir \<Rightarrow>
        (let fin = (\<lambda>acts. MkdirTemp jobDir # acts @ [RemoveAll jobDir]) in
         if \<not> e_chmod e then (res, Some ChmodJobDir, fin [])
         else case writeFiles e jobDir (Files s) of
           (Some err, acts) \<Rightarrow> (res, Some err, fin acts)
         | (None, acts) \<Rightarrow>
           (let name = ''iso-'' @ e_uuid e in
            if \<not> e_outPipe e \<or> \<not> e_errPipe e then (res, Some PipeErr, fin acts)
            else if \<not> e_start e then (res, Some StartErr, fin (acts @ [DockerRun (runArgv e g name jobDir s), DockerRm name]))
            else (finishResult e hasSink s res, None,
                  fin (acts @ [DockerRun (runArgv e g name jobDir s)] @ (if e_timer e then [DockerKill name] else []) @
                       [DockerInspect name, DockerRm name])))))"

section \<open>Lemmas\<close>

lemma runArgv_name: "take 3 (runArgv e g name jobDir s) = [''run'', ''--name'', name]"
  by (simp add: runArgv_def buildRunArgs_def Let_def)

lemma writeFiles_inside:
  "WriteFile p d \<in> set (snd (writeFiles e jobDir fs)) \<Longrightarrow> \<exists>nm. name_ok nm \<and> p = Join [jobDir, nm]"
proof (induction e jobDir fs rule: writeFiles.induct)
  case (2 e jobDir f fs)
  show ?case
  proof (cases "sanitizeName (f_Name f) = []")
    case True
    then show ?thesis using 2 by simp
  next
    case False
    then have "name_ok (sanitizeName (f_Name f))" using sanitizeName_ok by blast
    then show ?thesis using 2 False by (auto simp: Let_def split: if_splits option.splits prod.splits)
  qed
qed simp

lemma writeFiles_acts: "a \<in> set (snd (writeFiles e jobDir fs)) \<Longrightarrow> \<exists>p d. a = WriteFile p d"
  by (induction e jobDir fs rule: writeFiles.induct) (auto simp: Let_def split: if_splits option.splits prod.splits)

lemma outputLimit_pos: "0 < outputLimit s"
  by (simp add: outputLimit_def orDefault_def)

text \<open>The shapes a run of \<open>Execute\<close> can have.\<close>

lemma Execute_cases:
  obtains (nodir) "e_mkdir e = None" "snd (snd (Execute e g s k)) = []" "fst (snd (Execute e g s k)) \<noteq> None"
  | (early) jobDir err acts where "e_mkdir e = Some jobDir" "\<forall>a \<in> set acts. \<exists>p d. a = WriteFile p d \<and> (\<exists>nm. name_ok nm \<and> p = Join [jobDir, nm])"
      "Execute e g s k = (zero_Result\<lparr>r_Network := networkEnabled g (e_stat0 e) s\<rparr>, Some err, MkdirTemp jobDir # acts @ [RemoveAll jobDir])"
  | (nostart) jobDir acts where "e_mkdir e = Some jobDir" "\<forall>a \<in> set acts. \<exists>p d. a = WriteFile p d \<and> (\<exists>nm. name_ok nm \<and> p = Join [jobDir, nm])"
      "Execute e g s k = (zero_Result\<lparr>r_Network := networkEnabled g (e_stat0 e) s\<rparr>, Some StartErr,
        MkdirTemp jobDir # acts @ [DockerRun (runArgv e g (''iso-'' @ e_uuid e) jobDir s), DockerRm (''iso-'' @ e_uuid e), RemoveAll jobDir])"
  | (run) jobDir acts where "e_mkdir e = Some jobDir" "\<forall>a \<in> set acts. \<exists>p d. a = WriteFile p d \<and> (\<exists>nm. name_ok nm \<and> p = Join [jobDir, nm])"
      "Execute e g s k = (finishResult e k s (zero_Result\<lparr>r_Network := networkEnabled g (e_stat0 e) s\<rparr>), None,
        MkdirTemp jobDir # acts @ DockerRun (runArgv e g (''iso-'' @ e_uuid e) jobDir s) #
          (if e_timer e then [DockerKill (''iso-'' @ e_uuid e)] else []) @
          [DockerInspect (''iso-'' @ e_uuid e), DockerRm (''iso-'' @ e_uuid e), RemoveAll jobDir])"
proof (cases "e_mkdir e")
  case None
  then show ?thesis using nodir by (simp add: Execute_def)
next
  case (Some jobDir)
  obtain err acts where w: "writeFiles e jobDir (Files s) = (err, acts)" by fastforce
  have acts: "\<forall>a \<in> set acts. \<exists>p d. a = WriteFile p d \<and> (\<exists>nm. name_ok nm \<and> p = Join [jobDir, nm])"
    using writeFiles_acts [of _ e jobDir "Files s"] writeFiles_inside [of _ _ e jobDir "Files s"] w by fastforce
  consider "\<not> e_chmod e" | "e_chmod e" "err \<noteq> None" | "e_chmod e" "err = None" "\<not> e_outPipe e \<or> \<not> e_errPipe e"
    | "e_chmod e" "err = None" "e_outPipe e" "e_errPipe e" "\<not> e_start e"
    | "e_chmod e" "err = None" "e_outPipe e" "e_errPipe e" "e_start e" by blast
  then show ?thesis
  proof cases
    case 1
    then show ?thesis using early [of jobDir "[]" ChmodJobDir] Some by (simp add: Execute_def)
  next
    case 2
    then show ?thesis using early [of jobDir acts "the err"] Some w acts by (auto simp: Execute_def Let_def)
  next
    case 3
    then show ?thesis using early [of jobDir acts PipeErr] Some w acts by (auto simp: Execute_def Let_def)
  next
    case 4
    then show ?thesis using nostart [of jobDir acts] Some w acts by (simp add: Execute_def Let_def)
  next
    case 5
    then show ?thesis using run [of jobDir acts] Some w acts by (simp add: Execute_def Let_def)
  qed
qed

text \<open>What it means for a trace of actions to clean up after itself.\<close>

definition reaped :: "string \<Rightarrow> action list \<Rightarrow> bool" where
  "reaped jobDir acts \<longleftrightarrow> acts \<noteq> [] \<and> last acts = RemoveAll jobDir \<and>
     (\<forall>p d. WriteFile p d \<in> set acts \<longrightarrow> (\<exists>nm. name_ok nm \<and> p = Join [jobDir, nm])) \<and>
     (\<forall>argv. DockerRun argv \<in> set acts \<longrightarrow>
        (\<exists>xs ys name. acts = xs @ DockerRun argv # ys \<and> take 3 argv = [''run'', ''--name'', name] \<and> DockerRm name \<in> set ys))"

lemma reaped_early:
  assumes "\<forall>a \<in> set acts. \<exists>p d. a = WriteFile p d \<and> (\<exists>nm. name_ok nm \<and> p = Join [j, nm])"
  shows "reaped j (MkdirTemp j # acts @ [RemoveAll j])"
proof -
  have "DockerRun argv \<notin> set acts" for argv using assms by blast
  moreover have "\<exists>nm. name_ok nm \<and> p = Join [j, nm]" if "WriteFile p d \<in> set acts" for p d using assms that by blast
  ultimately show ?thesis by (simp add: reaped_def)
qed

lemma reaped_run:
  assumes acts: "\<forall>a \<in> set acts. \<exists>p d. a = WriteFile p d \<and> (\<exists>nm. name_ok nm \<and> p = Join [j, nm])"
    and argv: "take 3 argv = [''run'', ''--name'', name]" and ys: "set ys \<subseteq> {DockerKill name, DockerInspect name}"
  shows "reaped j (MkdirTemp j # acts @ DockerRun argv # ys @ [DockerRm name, RemoveAll j])"
proof -
  let ?A = "MkdirTemp j # acts @ DockerRun argv # ys @ [DockerRm name, RemoveAll j]"
  have no: "DockerRun v \<notin> set acts" for v using acts by blast
  have w: "\<exists>nm. name_ok nm \<and> p = Join [j, nm]" if "WriteFile p d \<in> set ?A" for p d
    using that ys acts by auto
  have "\<exists>xs ys name. ?A = xs @ DockerRun v # ys \<and> take 3 v = [''run'', ''--name'', name] \<and> DockerRm name \<in> set ys"
    if "DockerRun v \<in> set ?A" for v
  proof (intro exI conjI)
    have v: "v = argv" using that no ys by auto
    show "?A = (MkdirTemp j # acts) @ DockerRun v # (ys @ [DockerRm name, RemoveAll j])" using v by simp
    show "take 3 v = [''run'', ''--name'', name]" using v argv by simp
    show "DockerRm name \<in> set (ys @ [DockerRm name, RemoveAll j])" by simp
  qed
  then show ?thesis unfolding reaped_def using w by simp
qed

section \<open>Properties\<close>

definition demo_env :: exec_env where
  "demo_env = \<lparr>e_stat0 = Some 0, e_stat1 = None, e_stat2 = None, e_mkdir = Some ''/t/j'', e_chmod = True, e_write = (\<lambda>_. True),
     e_uuid = ''u'', e_ord = id, e_lower = id, e_outPipe = True, e_errPipe = True, e_start = True, e_out = [''ab'', ''cd''],
     e_err = [], e_timer = True, e_inspect = None, e_exit = Some 0, e_duration = 5\<rparr>"

definition demo_spec :: Spec where
  "demo_spec = \<lparr>Lang = \<lparr>l_Name = ''py'', l_Version = []\<rparr>, Image = ''img'', Compile = [], Run = [''python'', ''/box/m.py''], Workdir = [],
     Env = [], ScratchExec = False, ScratchMB = 0, Mounts = [], Files = [], Stdin = [], Argv = [''x''],
     s_Limits = \<lparr>MemoryBytes = 0, CPUs = Fin 0, Pids = 0, OutputBytes = 3, WallTimeMs = 0, CompileTimeMs = 0\<rparr>, Network = True\<rparr>"

text \<open>
  C15: Every execution is reaped.  Whatever fails or times out, a job directory that
  was created is removed last, every file written is a direct child of it, and a
  container that was started is force-removed afterwards under the name it was
  started with.
\<close>
theorem execute_reaps:
  "e_mkdir e = Some jobDir \<longrightarrow> reaped jobDir (snd (snd (Execute e g s k)))"
proof (cases rule: Execute_cases [of e g s k])
  case nodir
  then show ?thesis by simp
next
  case (early j err acts)
  then show ?thesis using reaped_early [of acts j] by auto
next
  case (nostart j acts)
  show ?thesis using reaped_run [OF nostart(2) runArgv_name [of e g "''iso-'' @ e_uuid e" j s], of "[]"] nostart(1,3) by auto
next
  case (run j acts)
  let ?n = "''iso-'' @ e_uuid e"
  have "set ((if e_timer e then [DockerKill ?n] else []) @ [DockerInspect ?n]) \<subseteq> {DockerKill ?n, DockerInspect ?n}" by auto
  from reaped_run [OF run(2) runArgv_name [of e g ?n j s] this] show ?thesis using run(1,3) by auto
qed

theorem execute_reaps_witness:
  "reaped ''/t/j'' (snd (snd (Execute demo_env NewGvisor demo_spec False)))"
  using execute_reaps [of demo_env "''/t/j''" NewGvisor demo_spec False] by (simp add: demo_env_def)

text \<open>
  C4: Every sandbox starts hardened.  Whatever the request, the flags before the
  image have the read-only root, no capabilities, no new privileges, the
  unprivileged user, the cgroup slice, equal positive memory and swap limits and a
  positive process limit; the image is the last flag; and the command line does not
  depend on the request's files or input, while its arguments only follow the
  fixed launcher.
\<close>
theorem sandbox_hardened:
  "\<exists>flags mem pids. buildRunArgs (e_stat1 e) (e_stat2 e) (e_ord e) g name jobDir s = flags @ [Image s] \<and>
    {''--read-only'', ''--cap-drop=ALL'', ''--security-opt=no-new-privileges'', ''--user='' @ User g, ''--cgroup-parent='' @ Slice g} \<subseteq> set flags \<and>
    sublist [''--memory'', Itoa mem, ''--memory-swap'', Itoa mem] flags \<and> 0 < mem \<and>
    sublist [''--pids-limit'', Itoa pids] flags \<and> 0 < pids \<and>
    (\<forall>fs i a. runArgv e g name jobDir (s\<lparr>Files := fs, Stdin := i, Argv := a\<rparr>) =
      ''run'' # flags @ [Image s, ''sh'', ''-c'', launchScript s, ''iso''] @ a)"
proof -
  let ?mem = "orDefault (MemoryBytes (s_Limits s)) 268435456" and ?pids = "orDefault (Pids (s_Limits s)) 128"
  let ?flags = "[''--name'', name] @ netFlags (e_stat1 e) (e_stat2 e) g s @ hardFlags g jobDir s @
     concat (map mountArg (Mounts s)) @ concat (map (\<lambda>(k, v). [''--env'', k @ ''='' @ v]) (e_ord e (envOf s)))"
  have sub: "sublist xs ?flags" if "sublist xs (hardFlags g jobDir s)" for xs
  proof -
    from that obtain a b where "hardFlags g jobDir s = a @ xs @ b" by (auto simp: sublist_def)
    then have "?flags = ([''--name'', name] @ netFlags (e_stat1 e) (e_stat2 e) g s @ a) @ xs @
        (b @ concat (map mountArg (Mounts s)) @ concat (map (\<lambda>(k, v). [''--env'', k @ ''='' @ v]) (e_ord e (envOf s))))" by simp
    then show ?thesis unfolding sublist_def by blast
  qed
  show ?thesis
  proof (rule exI [of _ ?flags], rule exI [of _ ?mem], rule exI [of _ ?pids], intro conjI)
    show "sublist [''--memory'', Itoa ?mem, ''--memory-swap'', Itoa ?mem] ?flags"
      by (rule sub) (simp only: hardFlags_def Let_def, rule sublist_appendI)
    show "sublist [''--pids-limit'', Itoa ?pids] ?flags"
      by (rule sub) (simp only: hardFlags_def Let_def, subst append_assoc [symmetric], subst append_assoc [symmetric], rule sublist_appendI)
  qed (auto simp: buildRunArgs_def hardFlags_def netFlags_def networkEnabled_def tmpfsOpt_def envOf_def runArgv_def launchScript_def orDefault_def Let_def)
qed





text \<open>
  C29: The launcher runs exactly the registry's words: the shell splits the script
  into \<open>set -e\<close>, the compile command when there is one, and \<open>exec\<close> of the run command
  followed by the positional parameters, with the argument lists the registry gave,
  whatever characters they contain.
\<close>
theorem launch_script_words:
  assumes "Run s \<noteq> []"
  shows "sh_tokens None (launchScript s) =
    Some ([Word ''set'', Word ''-e'', Semi] @ (if Compile s = [] then [] else map Word (Compile s) @ [Semi]) @
      [Word ''exec''] @ map Word (Run s) @ [Word [CHR 0x22, CHR ''$'', CHR ''@'', CHR 0x22]])"
proof -
  have run: "sh_tokens None (''exec '' @ shJoin (Run s) @ '' '' @ [CHR 0x22, CHR ''$'', CHR ''@'', CHR 0x22]) =
      Some ([Word ''exec''] @ map Word (Run s) @ [Word [CHR 0x22, CHR ''$'', CHR ''@'', CHR 0x22]])"
    using sh_tokens_shJoin [OF assms, of "CHR '' ''" "[CHR 0x22, CHR ''$'', CHR ''@'', CHR 0x22]"] by (simp add: flush_def)
  then show ?thesis
    using sh_tokens_shJoin [of "Compile s" "CHR '';''"] by (simp add: launchScript_def flush_def)
qed

theorem launch_script_words_witness:
  "sh_tokens None (launchScript demo_spec) =
    Some [Word ''set'', Word ''-e'', Semi, Word ''exec'', Word ''python'', Word ''/box/m.py'', Word [CHR 0x22, CHR ''$'', CHR ''@'', CHR 0x22]]"
  using launch_script_words [of demo_spec] by (simp add: demo_spec_def)

text \<open>
  The reported network flag can be wrong: the sentinel is read again when the
  command line is built, so a sandbox that ran with \<open>--network=none\<close> can be reported
  as having had network access.
\<close>
theorem network_report_race:
  "\<exists>e g s argv. fst (snd (Execute e g s False)) = None \<and> r_Network (fst (Execute e g s False)) \<and>
    DockerRun argv \<in> set (snd (snd (Execute e g s False))) \<and> ''--network=none'' \<in> set argv"
proof (intro exI conjI)
  let ?x = "Execute demo_env NewGvisor demo_spec False"
  let ?argv = "runArgv demo_env NewGvisor ''iso-u'' ''/t/j'' demo_spec"
  show "fst (snd ?x) = None" by (simp add: Execute_def demo_env_def demo_spec_def Let_def)
  show "r_Network (fst ?x)"
    by (simp add: Execute_def demo_env_def demo_spec_def finishResult_def inspectState_def networkEnabled_def
        egressFirewallFresh_def NewGvisor_def seconds_def Let_def)
  show "DockerRun ?argv \<in> set (snd (snd ?x))" by (simp add: Execute_def demo_env_def demo_spec_def Let_def)
  show "''--network=none'' \<in> set ?argv"
    by (simp add: runArgv_def buildRunArgs_def netFlags_def networkEnabled_def egressFirewallFresh_def NewGvisor_def demo_env_def Let_def)
qed

end
