(* ===== verification/Kernel.thy ===== *)
theory Kernel
  imports Gvisor Sched
begin

text \<open>
  The kernel engine of \<^verbatim>\<open>internal/session/kernel.go\<close>: long-lived containers with
  a REPL behind a line protocol.  A kernel object is addressed by its container
  name, which is minted fresh, so that a pointer kept by a session and the entry
  of the engine's map are one object (\<open>objs\<close>).  The docker commands a call
  issues are its list of actions; their outcomes, the lines read from the attach
  channel, the clock and the JSON decoder are arguments.  A read carries what the
  loop observes with it: whether the deadline timer has fired and the elapsed
  milliseconds.
\<close>

section \<open>Configuration\<close>

record KernelConfig =
  kc_Slots :: int
  kc_MemoryBytes :: int
  kc_CPUs :: float64
  kc_Pids :: int
  kc_OutputBytes :: int
  kc_StartTimeout :: int
  DefaultStepMs :: int
  MaxStepMs :: int
  kc_IdleTTL :: int
  MaxLifetime :: int
  kc_AcquireWait :: int

definition defaultTo :: "int \<Rightarrow> int \<Rightarrow> int" where
  "defaultTo v d = (if v \<le> 0 then d else v)"

definition applyDefaults :: "KernelConfig \<Rightarrow> KernelConfig" where
  "applyDefaults c = c\<lparr>
     kc_Slots := defaultTo (kc_Slots c) 6,
     kc_MemoryBytes := defaultTo (kc_MemoryBytes c) 134217728,
     kc_CPUs := (if fle (kc_CPUs c) (Fin 0) then Fin 1 else kc_CPUs c),
     kc_Pids := defaultTo (kc_Pids c) 128,
     kc_OutputBytes := defaultTo (kc_OutputBytes c) 65536,
     kc_StartTimeout := defaultTo (kc_StartTimeout c) (30 * seconds),
     DefaultStepMs := defaultTo (DefaultStepMs c) 20000,
     MaxStepMs := defaultTo (MaxStepMs c) 60000,
     kc_IdleTTL := defaultTo (kc_IdleTTL c) (30 * 60 * seconds),
     MaxLifetime := defaultTo (MaxLifetime c) (4 * 3600 * seconds),
     kc_AcquireWait := defaultTo (kc_AcquireWait c) (2 * seconds)\<rparr>"

section \<open>The engine\<close>

record kernel =
  k_id :: string
  container :: string
  k_image :: string
  k_createdAt :: int
  lastUsed :: int
  dead :: bool

record 's KernelEngine =
  cfg :: KernelConfig
  Slots :: "'s Limiter"
  gv :: Gvisor
  kernels :: "(string \<times> string) list"
  objs :: "(string \<times> kernel) list"

datatype kaction =
    DockerRun "string list" | DockerAttach "string list" | CancelAttach string
  | ForceRemove "string list" | WriteStdin bytes | AfterFunc int "string list" | OnCtxDone "string list"

definition is_space :: "char \<Rightarrow> bool" where
  "is_space c \<longleftrightarrow> c \<in> {CHR '' '', CHR 0x09, CHR 0x0A, CHR 0x0B, CHR 0x0C, CHR 0x0D}"

definition sweepOrphanKernels :: "bytes option \<Rightarrow> kaction list" where
  "sweepOrphanKernels psOut =
     (case psOut of None \<Rightarrow> []
      | Some out \<Rightarrow> let ids = FieldsFunc out is_space in if ids = [] then [] else [ForceRemove ids])"

definition NewKernelEngine :: "'s weighted \<Rightarrow> Gvisor option \<Rightarrow> KernelConfig \<Rightarrow> bytes option \<Rightarrow> ('s KernelEngine \<times> kaction list) option" where
  "NewKernelEngine S backend c psOut =
     (case backend of None \<Rightarrow> None
      | Some g \<Rightarrow> let c' = applyDefaults c in
          Some (\<lparr>cfg = c', Slots = New S (kc_Slots c'), gv = g, kernels = [], objs = []\<rparr>, sweepOrphanKernels psOut))"

definition updObj :: "string \<Rightarrow> (kernel \<Rightarrow> kernel) \<Rightarrow> 's KernelEngine \<Rightarrow> 's KernelEngine" where
  "updObj c f e = (case map_of (objs e) c of None \<Rightarrow> e | Some k \<Rightarrow> e\<lparr>objs := map_put c (f k) (objs e)\<rparr>)"

definition markDead :: "kernel \<Rightarrow> kernel" where "markDead k = k\<lparr>dead := True\<rparr>"
definition touch :: "int \<Rightarrow> kernel \<Rightarrow> kernel" where "touch now k = k\<lparr>lastUsed := now\<rparr>"

definition isDead :: "'s KernelEngine \<Rightarrow> string \<Rightarrow> bool" where
  "isDead e c = (case map_of (objs e) c of None \<Rightarrow> True | Some k \<Rightarrow> dead k)"

definition Count :: "'s KernelEngine \<Rightarrow> nat" where "Count e = length (kernels e)"

section \<open>Starting a kernel\<close>

definition kernelNet :: "int option \<Rightarrow> Gvisor \<Rightarrow> bool \<Rightarrow> string \<times> string \<times> string list" where
  "kernelNet stat g network =
     (if network then
        (case NetMode g stat of (rt, net, resolv, ok) \<Rightarrow>
           if ok then (rt, ''--network='' @ net, if resolv \<noteq> [] then [''-v'', resolv @ '':/etc/resolv.conf:ro''] else [])
           else (g_Runtime g, ''--network=none'', []))
      else (g_Runtime g, ''--network=none'', []))"

definition buildKernelRunArgs :: "int option \<Rightarrow> 's KernelEngine \<Rightarrow> string \<Rightarrow> string \<Rightarrow> string \<Rightarrow> Mount list \<Rightarrow> bool \<Rightarrow> string list" where
  "buildKernelRunArgs stat e name sessionID img mounts network =
     (let mem = kc_MemoryBytes (cfg e) in
      case kernelNet stat (gv e) network of (runtime, netFlag, resolvMount) \<Rightarrow>
      [''-d'', ''-i'', ''--name'', name, ''--runtime'', runtime, netFlag, ''--read-only'',
       ''--tmpfs'', ''/tmp:rw,noexec,nosuid,nodev,size=64m,nr_inodes=4096'', ''-w'', ''/workspace''] @
      [''--memory'', Itoa mem, ''--memory-swap'', Itoa mem] @
      [''--cpus'', FormatFloat2 (kc_CPUs (cfg e)), ''--pids-limit'', Itoa (kc_Pids (cfg e)),
       ''--cap-drop=ALL'', ''--security-opt=no-new-privileges'', ''--user='' @ User (gv e),
       ''--cgroup-parent='' @ Slice (gv e), ''--hostname=sandbox'',
       ''--label'', ''isobox.managed=true'', ''--label'', ''isobox.kernel=true'',
       ''--label'', ''isobox.session='' @ sessionID, ''--env'', ''HOME=/tmp'',
       ''--env'', ''ISOBOX_KERNEL_OUTPUT_BYTES='' @ Itoa (kc_OutputBytes (cfg e)),
       ''--env'', ''PYTHONDONTWRITEBYTECODE=1''] @
      resolvMount @ concat (map mountArg mounts) @ [img])"

record kResp =
  kr_ID :: string
  kr_Type :: string
  kr_Stream :: string
  kr_Data :: string
  kr_OK :: bool
  kr_Error :: string
  kr_DurationMs :: int
  kr_Truncated :: bool

datatype ready_event = ReadyTimeout | ReadyErr string | ReadyLine bytes

datatype kerror =
    RunKernel | AttachStdin | AttachStdout | AttachStart | NotReady string | KernelDead | WriteStep
  | StreamClosed string | KernelFatal string

definition awaitReady :: "(bytes \<Rightarrow> kResp option) \<Rightarrow> ready_event \<Rightarrow> string option" where
  "awaitReady U ev =
     (case ev of
        ReadyTimeout \<Rightarrow> Some ''timeout''
      | ReadyErr e \<Rightarrow> Some e
      | ReadyLine line \<Rightarrow>
          (case U line of None \<Rightarrow> Some ''garbled ready frame''
           | Some r \<Rightarrow> if kr_Type r \<noteq> ''ready'' then Some ''expected ready'' else None))"

record kstart =
  ks_stat :: "int option"
  ks_runOk :: bool
  ks_stdinOk :: bool
  ks_stdoutOk :: bool
  ks_startOk :: bool
  ks_ready :: ready_event
  ks_now :: int

definition NewKernel :: "(bytes \<Rightarrow> kResp option) \<Rightarrow> string \<Rightarrow> kstart \<Rightarrow> string \<Rightarrow> 's KernelEngine \<Rightarrow> string \<Rightarrow> string \<Rightarrow> Mount list \<Rightarrow> bool
    \<Rightarrow> ((kerror, string) result \<times> 's KernelEngine) \<times> kaction list" where
  "NewKernel U harness io uuid e sid img mounts network =
     (let name = ''iso-kernel-'' @ uuid;
          runArgs = buildKernelRunArgs (ks_stat io) e name sid img mounts network @ [''python'', ''-u'', ''-c'', harness];
          run = [DockerRun (''run'' # runArgs)];
          att = [DockerAttach [''attach'', ''--sig-proxy=false'', name]];
          undo = [CancelAttach name, ForceRemove [name]]
      in if \<not> ks_runOk io then ((Inl RunKernel, e), run)
         else if \<not> ks_stdinOk io then ((Inl AttachStdin, e), run @ undo)
         else if \<not> ks_stdoutOk io then ((Inl AttachStdout, e), run @ undo)
         else if \<not> ks_startOk io then ((Inl AttachStart, e), run @ att @ undo)
         else (case awaitReady U (ks_ready io) of
             Some err \<Rightarrow> ((Inl (NotReady err), e), run @ att @ undo)
           | None \<Rightarrow>
               ((Inr name, e\<lparr>kernels := map_put sid name (kernels e),
                   objs := map_put name \<lparr>k_id = sid, container = name, k_image = img, k_createdAt = ks_now io,
                     lastUsed = ks_now io, dead = False\<rparr> (objs e)\<rparr>), run @ att)))"

section \<open>Steps\<close>

record capBuf =
  b_bytes :: bytes
  b_limit :: int
  b_n :: int
  b_truncated :: bool

definition buf_Write :: "capBuf \<Rightarrow> bytes \<Rightarrow> capBuf" where
  "buf_Write w p =
     (if b_n w \<ge> b_limit w then w\<lparr>b_truncated := True\<rparr>
      else let room = b_limit w - b_n w in
        if int (length p) > room
        then w\<lparr>b_bytes := b_bytes w @ take (nat room) p, b_n := b_limit w, b_truncated := True\<rparr>
        else w\<lparr>b_bytes := b_bytes w @ p, b_n := b_n w + int (length p)\<rparr>)"

definition clip :: "bytes \<Rightarrow> capBuf \<Rightarrow> bytes" where
  "clip b w = (if b_truncated w then [] else b)"

definition stepWall :: "KernelConfig \<Rightarrow> int \<Rightarrow> int" where
  "stepWall c stepMs =
     (let a = (if stepMs \<le> 0 then DefaultStepMs c else stepMs);
          b = (if a > MaxStepMs c then MaxStepMs c else a)
      in if b < 1000 then 1000 else b)"

datatype kread = KLine bytes bool int | KEOF string bool int

record kloop =
  lout :: capBuf
  lerr :: capBuf
  sunk :: "(bool \<times> bytes) list"

datatype kfinal = Finished | Died

definition streamFrame :: "bool \<Rightarrow> kResp \<Rightarrow> kloop \<Rightarrow> kloop" where
  "streamFrame hasSink r st =
     (if kr_Stream r = ''stderr'' then
        let w = buf_Write (lerr st) (kr_Data r) in
        st\<lparr>lerr := w, sunk := sunk st @ (if hasSink then [(True, clip (kr_Data r) w)] else [])\<rparr>
      else
        let w = buf_Write (lout st) (kr_Data r) in
        st\<lparr>lout := w, sunk := sunk st @ (if hasSink then [(False, clip (kr_Data r) w)] else [])\<rparr>)"

definition resultFrame :: "kResp \<Rightarrow> bool \<Rightarrow> int \<Rightarrow> kloop \<Rightarrow> Result" where
  "resultFrame r to elapsed st = zero_Result\<lparr>
     Stdout := b_bytes (lout st), Stderr := b_bytes (lerr st),
     DurationMs := (if kr_DurationMs r = 0 then elapsed else kr_DurationMs r),
     Truncated := (kr_Truncated r \<or> b_truncated (lout st) \<or> b_truncated (lerr st)),
     TimedOut := to,
     ExitCode := (if to then 137 else if \<not> kr_OK r then 1 else 0)\<rparr>"

text \<open>The read loop; \<open>None\<close> when the reads run out, that is, when it is still blocked.\<close>

fun readLoop :: "(bytes \<Rightarrow> kResp option) \<Rightarrow> string \<Rightarrow> bool \<Rightarrow> kread list \<Rightarrow> kloop
    \<Rightarrow> ((Result \<times> kerror option) \<times> kfinal \<times> kloop) option" where
  "readLoop U stepID hasSink [] st = None"
| "readLoop U stepID hasSink (KEOF err to elapsed # _) st =
     Some ((zero_Result\<lparr>Stdout := b_bytes (lout st), Stderr := b_bytes (lerr st), DurationMs := elapsed, TimedOut := to, ExitCode := 137\<rparr>,
       if to then None else Some (StreamClosed err)), Died, st)"
| "readLoop U stepID hasSink (KLine line to elapsed # reads) st =
     (if line = [] then readLoop U stepID hasSink reads st
      else case U line of None \<Rightarrow> readLoop U stepID hasSink reads st
      | Some r \<Rightarrow>
          if kr_ID r \<noteq> stepID then readLoop U stepID hasSink reads st
          else if kr_Type r = ''stream'' then readLoop U stepID hasSink reads (streamFrame hasSink r st)
          else if kr_Type r = ''result'' then Some ((resultFrame r to elapsed st, None), Finished, st)
          else if kr_Type r = ''fatal'' then
            Some ((zero_Result\<lparr>Stderr := b_bytes (lout st) @ kr_Error r, ExitCode := 1, DurationMs := elapsed\<rparr>,
              Some (KernelFatal (kr_Error r))), Died, st)
          else readLoop U stepID hasSink reads st)"

definition newLoop :: "KernelConfig \<Rightarrow> kloop" where
  "newLoop c = (let b = \<lparr>b_bytes = [], b_limit = kc_OutputBytes c, b_n = 0, b_truncated = False\<rparr> in \<lparr>lout = b, lerr = b, sunk = []\<rparr>)"

text \<open>
  One step of a kernel.  \<open>M\<close> marshals the request frame; \<open>writeOk\<close>: the frame was
  written; \<open>now\<close>: the clock when the step completes.  The result also carries
  what the live sink got and the actions: the frame, the interrupt at the
  deadline, the kill five seconds later, and the interrupt when the caller goes.
\<close>

definition stepActions :: "(string \<Rightarrow> string \<Rightarrow> bytes) \<Rightarrow> string \<Rightarrow> string \<Rightarrow> string \<Rightarrow> int \<Rightarrow> kaction list" where
  "stepActions M stepID code c wall =
     [WriteStdin (M stepID code @ [CHR 0x0A]), AfterFunc (wrap64 (wall * milliseconds)) [''kill'', ''-s'', ''INT'', c],
      AfterFunc (wrap64 (wrap64 (wall * milliseconds) + 5 * seconds)) [''kill'', c], OnCtxDone [''kill'', ''-s'', ''INT'', c]]"

definition kExec :: "(bytes \<Rightarrow> kResp option) \<Rightarrow> (string \<Rightarrow> string \<Rightarrow> bytes) \<Rightarrow> string \<Rightarrow> bool \<Rightarrow> kread list \<Rightarrow> int
    \<Rightarrow> 's KernelEngine \<Rightarrow> string \<Rightarrow> string \<Rightarrow> int \<Rightarrow> bool
    \<Rightarrow> ((Result \<times> kerror option) \<times> (bool \<times> bytes) list \<times> 's KernelEngine \<times> kaction list) option" where
  "kExec U M stepID writeOk reads now e c code stepMs hasSink =
     (let acts = stepActions M stepID code c (stepWall (cfg e) stepMs) in
      if isDead e c then Some ((zero_Result, Some KernelDead), [], e, [])
      else if \<not> writeOk then Some ((zero_Result, Some WriteStep), [], updObj c markDead e, take 1 acts)
      else (case readLoop U stepID hasSink reads (newLoop (cfg e)) of
          None \<Rightarrow> None
        | Some (r, Finished, st) \<Rightarrow> Some (r, sunk st, updObj c (touch now) e, acts)
        | Some (r, Died, st) \<Rightarrow> Some (r, sunk st, updObj c markDead e, acts)))"

section \<open>Removal\<close>

definition kDestroy :: "string \<Rightarrow> 's KernelEngine \<Rightarrow> 's KernelEngine \<times> kaction list" where
  "kDestroy sid e =
     (case map_of (kernels e) sid of
        None \<Rightarrow> (e\<lparr>kernels := map_del sid (kernels e)\<rparr>, [])
      | Some c \<Rightarrow> (updObj c markDead (e\<lparr>kernels := map_del sid (kernels e)\<rparr>), [CancelAttach c, ForceRemove [c]]))"

definition doomed :: "int \<Rightarrow> KernelConfig \<Rightarrow> kernel \<Rightarrow> bool" where
  "doomed now c k \<longleftrightarrow> dead k \<or> now - lastUsed k > kc_IdleTTL c \<or> now - k_createdAt k > MaxLifetime c"

definition doomedOf :: "int \<Rightarrow> 's KernelEngine \<Rightarrow> kernel list" where
  "doomedOf now e = filter (doomed now (cfg e)) (List.map_filter (\<lambda>(sid, c). map_of (objs e) c) (kernels e))"

definition Reap :: "int \<Rightarrow> 's KernelEngine \<Rightarrow> string list \<times> 's KernelEngine \<times> kaction list" where
  "Reap now e =
     (let ds = doomedOf now e;
          e1 = e\<lparr>kernels := fold (\<lambda>k ks. map_del (k_id k) ks) ds (kernels e)\<rparr>;
          e2 = fold (\<lambda>k e'. updObj (container k) markDead e') ds e1
      in (map k_id ds, e2, concat (map (\<lambda>k. [CancelAttach (container k), ForceRemove [container k]]) ds)))"

definition DestroyAll :: "'s KernelEngine \<Rightarrow> 's KernelEngine \<times> kaction list" where
  "DestroyAll e =
     (let cs = map snd (kernels e) in
      (fold (\<lambda>c e'. updObj c markDead e') cs (e\<lparr>kernels := []\<rparr>),
       concat (map (\<lambda>c. [CancelAttach c, ForceRemove [c]]) cs)))"

end
