(* ===== verification/KernelProps.thy ===== *)
theory KernelProps
  imports Kernel "HOL-Library.Code_Target_Nat"
begin

text \<open>
  Properties of the kernel engine: which frames a step honours, what output it
  reports, when it returns, how its container is confined, what reaping removes.
\<close>

section \<open>Frames\<close>

definition frame_for :: "(bytes \<Rightarrow> kResp option) \<Rightarrow> string \<Rightarrow> bytes \<Rightarrow> kResp option" where
  "frame_for U stepID line =
     (if line = [] then None
      else case U line of None \<Rightarrow> None
      | Some r \<Rightarrow> if kr_ID r = stepID \<and> kr_Type r \<in> {''stream'', ''result'', ''fatal''} then Some r else None)"

definition genuine :: "(bytes \<Rightarrow> kResp option) \<Rightarrow> string \<Rightarrow> kread \<Rightarrow> bool" where
  "genuine U stepID x = (case x of KEOF _ _ _ \<Rightarrow> True | KLine line _ _ \<Rightarrow> frame_for U stepID line \<noteq> None)"

definition terminal :: "(bytes \<Rightarrow> kResp option) \<Rightarrow> string \<Rightarrow> kread \<Rightarrow> bool" where
  "terminal U stepID x = (case x of KEOF _ _ _ \<Rightarrow> True
     | KLine line _ _ \<Rightarrow> (case frame_for U stepID line of None \<Rightarrow> False | Some r \<Rightarrow> kr_Type r \<noteq> ''stream''))"

lemma readLoop_Line:
  "readLoop U i k (KLine line to el # reads) st =
     (case frame_for U i line of
        None \<Rightarrow> readLoop U i k reads st
      | Some r \<Rightarrow>
          if kr_Type r = ''stream'' then readLoop U i k reads (streamFrame k r st)
          else if kr_Type r = ''result'' then Some ((resultFrame r to el st, None), Finished, st)
          else Some ((zero_Result\<lparr>Stderr := b_bytes (lout st) @ kr_Error r, ExitCode := 1, DurationMs := el\<rparr>,
              Some (KernelFatal (kr_Error r))), Died, st))"
  by (auto simp: frame_for_def split: option.splits)

lemmas readLoop_simps = readLoop.simps(1,2) readLoop_Line

lemma readLoop_genuine: "readLoop U i k reads st = readLoop U i k (filter (genuine U i) reads) st"
proof (induction reads arbitrary: st)
  case (Cons x reads)
  show ?case
  proof (cases x)
    case (KLine line to el)
    then show ?thesis
      using Cons.IH by (auto simp: readLoop_simps genuine_def simp del: readLoop.simps split: option.splits)
  qed (simp add: genuine_def)
qed simp

lemma readLoop_returns: "(\<exists>y. readLoop U i k reads st = Some y) \<longleftrightarrow> (\<exists>x \<in> set reads. terminal U i x)"
proof (induction reads arbitrary: st)
  case (Cons x reads)
  show ?case
  proof (cases x)
    case (KLine line to el)
    then show ?thesis
      using Cons.IH by (auto simp: readLoop_simps terminal_def simp del: readLoop.simps split: option.splits)
  qed (auto simp: terminal_def)
qed simp

section \<open>Output\<close>

text \<open>The data of one stream that the step sends before its first terminal read.\<close>

fun streamOf :: "(bytes \<Rightarrow> kResp option) \<Rightarrow> string \<Rightarrow> bool \<Rightarrow> kread list \<Rightarrow> bytes" where
  "streamOf U i e [] = []"
| "streamOf U i e (KEOF _ _ _ # _) = []"
| "streamOf U i e (KLine line _ _ # reads) =
     (case frame_for U i line of None \<Rightarrow> streamOf U i e reads
      | Some r \<Rightarrow> if kr_Type r = ''stream''
          then (if (kr_Stream r = ''stderr'') = e then kr_Data r else []) @ streamOf U i e reads else [])"

definition buf_ok :: "int \<Rightarrow> bytes \<Rightarrow> capBuf \<Rightarrow> bool" where
  "buf_ok l s w \<longleftrightarrow> b_limit w = l \<and> b_bytes w = take (nat l) s \<and> b_n w = min l (int (length s)) \<and>
     (int (length s) > l \<longrightarrow> b_truncated w) \<and> (b_truncated w \<longrightarrow> int (length s) \<ge> l)"

lemma buf_Write_ok:
  assumes "buf_ok l s w" and "0 < l"
  shows "buf_ok l (s @ p) (buf_Write w p)"
proof (cases "int (length s) \<ge> l")
  case True
  then have "b_n w \<ge> b_limit w" "nat l \<le> length s" using assms(1) by (auto simp: buf_ok_def)
  then show ?thesis using assms True by (auto simp: buf_ok_def buf_Write_def)
next
  case False
  then have w: "b_n w = int (length s)" "b_limit w = l" "b_bytes w = s" "\<not> b_truncated w"
    using assms(1) by (auto simp: buf_ok_def)
  have "take (nat l) (s @ p) = s @ take (nat (l - int (length s))) p" using False by (simp add: nat_diff_distrib)
  then show ?thesis using False w by (auto simp: buf_ok_def buf_Write_def Let_def)
qed

text \<open>What the live sink received of one stream.\<close>

definition sunk_of :: "bool \<Rightarrow> (bool \<times> bytes) list \<Rightarrow> bytes" where
  "sunk_of e xs = concat (map snd (filter (\<lambda>x. fst x = e) xs))"

definition sink_ok :: "bytes \<Rightarrow> bytes \<Rightarrow> capBuf \<Rightarrow> bool" where
  "sink_ok sent s w \<longleftrightarrow> prefix sent (b_bytes w) \<and> (\<not> b_truncated w \<longrightarrow> sent = s)"

lemma buf_Write_trunc: "b_truncated w \<Longrightarrow> b_truncated (buf_Write w p)"
  by (auto simp: buf_Write_def Let_def)

lemma prefix_buf_Write: "prefix s (b_bytes w) \<Longrightarrow> prefix s (b_bytes (buf_Write w p))"
  by (auto simp: buf_Write_def Let_def intro: prefix_prefix)

lemma sink_ok_clip:
  assumes "buf_ok l s w" and "0 < l" and "sink_ok sent s w"
  shows "sink_ok (sent @ clip p (buf_Write w p)) (s @ p) (buf_Write w p)"
proof (cases "b_truncated (buf_Write w p)")
  case True
  then show ?thesis using assms(3) prefix_buf_Write by (auto simp: sink_ok_def clip_def)
next
  case False
  then have "sent = s" using assms(3) buf_Write_trunc by (auto simp: sink_ok_def)
  moreover have "b_bytes (buf_Write w p) = s @ p"
    using buf_Write_ok [OF assms(1,2), of p] False by (auto simp: buf_ok_def)
  ultimately show ?thesis using False by (simp add: sink_ok_def clip_def)
qed

definition loop_ok :: "int \<Rightarrow> bool \<Rightarrow> bytes \<Rightarrow> bytes \<Rightarrow> kloop \<Rightarrow> bool" where
  "loop_ok l k so se st \<longleftrightarrow> buf_ok l so (lout st) \<and> buf_ok l se (lerr st) \<and>
     (k \<longrightarrow> sink_ok (sunk_of False (sunk st)) so (lout st) \<and> sink_ok (sunk_of True (sunk st)) se (lerr st)) \<and>
     (\<not> k \<longrightarrow> sunk st = [])"

lemma streamFrame_ok:
  assumes "loop_ok l k so se st" and "0 < l"
  shows "loop_ok l k (so @ (if kr_Stream r = ''stderr'' then [] else kr_Data r))
     (se @ (if kr_Stream r = ''stderr'' then kr_Data r else [])) (streamFrame k r st)"
proof -
  have s: "sunk_of e (xs @ [(e', b)]) = sunk_of e xs @ (if e' = e then b else [])" for e e' xs b
    by (simp add: sunk_of_def)
  show ?thesis
    using assms(1) buf_Write_ok [OF _ assms(2)] sink_ok_clip [OF _ assms(2)]
    by (cases k; cases "kr_Stream r = ''stderr''") (simp_all add: loop_ok_def streamFrame_def Let_def s)
qed

lemma readLoop_output:
  assumes "loop_ok l k so se st" and "0 < l" and "readLoop U i k reads st = Some ((r, err), fin, st')"
  shows "loop_ok l k (so @ streamOf U i False reads) (se @ streamOf U i True reads) st' \<and>
    ((\<nexists>m. err = Some (KernelFatal m)) \<longrightarrow> Stdout r = b_bytes (lout st') \<and> Stderr r = b_bytes (lerr st')) \<and>
    ((fin = Finished) \<longrightarrow> err = None \<and>
      (b_truncated (lout st') \<or> b_truncated (lerr st') \<longrightarrow> Truncated r))"
  using assms
proof (induction reads arbitrary: so se st)
  case (Cons x reads)
  show ?case
  proof (cases x)
    case (KEOF m to el)
    then show ?thesis using Cons.prems by (auto split: if_splits)
  next
    case (KLine line to el)
    show ?thesis
    proof (cases "frame_for U i line")
      case None
      then show ?thesis using Cons KLine by (simp add: readLoop_simps del: readLoop.simps)
    next
      case (Some f)
      show ?thesis
      proof (cases "kr_Type f = ''stream''")
        case True
        note next_ok = streamFrame_ok [OF Cons.prems(1,2), of f]
        show ?thesis
          using Cons.IH [OF next_ok Cons.prems(2)] Cons.prems(3) KLine Some True
          by (cases "kr_Stream f = ''stderr''") (simp_all add: readLoop_simps del: readLoop.simps)
      next
        case False
        then show ?thesis using Cons.prems KLine Some
          by (auto simp: readLoop_simps resultFrame_def simp del: readLoop.simps split: if_splits)
      qed
    qed
  qed
qed simp

lemma newLoop_ok: "0 < kc_OutputBytes c \<Longrightarrow> loop_ok (kc_OutputBytes c) k [] [] (newLoop c)"
  by (simp add: loop_ok_def newLoop_def Let_def buf_ok_def sink_ok_def sunk_of_def)
section \<open>The engine's map\<close>

text \<open>Every entry of the map points to an object that carries the entry's session id and its own name.\<close>

definition engine_ok :: "'s KernelEngine \<Rightarrow> bool" where
  "engine_ok e \<longleftrightarrow> distinct (map fst (kernels e)) \<and>
     (\<forall>(sid, c) \<in> set (kernels e). \<exists>k. map_of (objs e) c = Some k \<and> k_id k = sid \<and> container k = c)"

lemma engine_okD:
  "engine_ok e \<Longrightarrow> (sid, c) \<in> set (kernels e) \<Longrightarrow> \<exists>k. map_of (objs e) c = Some k \<and> k_id k = sid \<and> container k = c"
  by (auto simp: engine_ok_def)

lemma updObj_fields [simp]:
  "kernels (updObj c f e) = kernels e" "cfg (updObj c f e) = cfg e" "Slots (updObj c f e) = Slots e" "gv (updObj c f e) = gv e"
  by (simp_all add: updObj_def split: option.splits)

lemma updObj_objs: "map_of (objs (updObj c f e)) d = (if d = c then map_option f (map_of (objs e) d) else map_of (objs e) d)"
  by (auto simp: updObj_def map_of_map_put split: option.splits)

lemma engine_ok_updObj:
  assumes "engine_ok e" and "\<And>k. k_id (f k) = k_id k \<and> container (f k) = container k"
  shows "engine_ok (updObj c f e)"
  using assms by (fastforce simp: engine_ok_def updObj_objs)

lemma engine_ok_del: "engine_ok e \<Longrightarrow> engine_ok (e\<lparr>kernels := map_del sid (kernels e)\<rparr>)"
  by (auto simp: engine_ok_def distinct_map_del in_map_del)

lemma markDead_keeps: "k_id (markDead k) = k_id k \<and> container (markDead k) = container k"
  by (simp add: markDead_def)

lemma engine_ok_Destroy: "engine_ok e \<Longrightarrow> engine_ok (fst (kDestroy sid e))"
  by (auto simp: kDestroy_def engine_ok_del intro!: engine_ok_updObj markDead_keeps split: option.splits)

lemma engine_ok_Exec:
  assumes "kExec U M i w reads now e c code ms k = Some (r, snk, e', acts)" and "engine_ok e"
  shows "engine_ok e'"
proof -
  have "e' = e \<or> e' = updObj c markDead e \<or> e' = updObj c (touch now) e"
    using assms(1) by (auto simp: kExec_def Let_def split: if_splits option.splits prod.splits kfinal.splits)
  then show ?thesis using assms(2) engine_ok_updObj [OF assms(2)] by (auto simp: markDead_def touch_def)
qed

lemma engine_ok_New:
  assumes "NewKernel U h io u e sid img ms net = ((r, e'), acts)" and "engine_ok e"
    and "map_of (objs e) (''iso-kernel-'' @ u) = None"
  shows "engine_ok e'"
proof -
  let ?n = "''iso-kernel-'' @ u"
  let ?k = "\<lparr>k_id = sid, container = ?n, k_image = img, k_createdAt = ks_now io, lastUsed = ks_now io, dead = False\<rparr>"
  consider "e' = e" | "e' = e\<lparr>kernels := map_put sid ?n (kernels e), objs := map_put ?n ?k (objs e)\<rparr>"
    using assms(1) by (auto simp: NewKernel_def Let_def split: if_splits option.splits)
  then show ?thesis
  proof cases
    case 2
    have "\<exists>k. map_of (objs e') c = Some k \<and> k_id k = s \<and> container k = c" if x: "(s, c) \<in> set (kernels e')" for s c
    proof (cases "(s, c) = (sid, ?n)")
      case False
      then have "(s, c) \<in> set (kernels e)" using x 2 by (auto simp: in_map_put)
      then obtain k where k: "map_of (objs e) c = Some k" "k_id k = s" "container k = c" using engine_okD [OF assms(2)] by blast
      then have "c \<noteq> ?n" using assms(3) by auto
      then show ?thesis using k 2 by (auto simp: map_of_map_put)
    qed (use 2 in \<open>auto simp: map_of_map_put\<close>)
    then show ?thesis using assms(2) 2 by (auto simp: engine_ok_def distinct_map_put)
  qed (use assms(2) in simp)
qed

section \<open>Reaping\<close>

lemma fold_del: "fold (\<lambda>k ks. map_del (k_id k) ks) ds xs = filter (\<lambda>p. fst p \<notin> k_id ` set ds) xs"
proof (induction ds arbitrary: xs)
  case (Cons d ds)
  then show ?case by (simp add: map_del_def)
qed simp

lemma fold_upd_objs:
  fixes e :: "'s KernelEngine"
  shows "kernels (fold (\<lambda>k e'. updObj (container k) markDead e') ds e) = kernels e"
    "map_of (objs (fold (\<lambda>k e'. updObj (container k) markDead e') ds e)) c =
      (if c \<in> container ` set ds then map_option markDead (map_of (objs e) c) else map_of (objs e) c)"
proof (induction ds arbitrary: e)
  case (Cons d ds)
  have mm: "map_option markDead (map_option markDead z) = map_option markDead z" for z
    by (cases z) (simp_all add: markDead_def)
  case 2
  then show ?case using Cons(2) [of "updObj (container d) markDead e"] by (auto simp: updObj_objs mm)
qed (auto simp: updObj_objs)

lemma set_doomedOf:
  assumes "engine_ok e"
  shows "set (doomedOf now e) = {k. \<exists>sid c. (sid, c) \<in> set (kernels e) \<and> map_of (objs e) c = Some k \<and> doomed now (cfg e) k}"
  by (auto simp: doomedOf_def List.map_filter_def split: prod.splits) force+

lemma doomed_ids:
  assumes "engine_ok e" and "(sid, c) \<in> set (kernels e)" and "map_of (objs e) c = Some k"
  shows "sid \<in> k_id ` set (doomedOf now e) \<longleftrightarrow> doomed now (cfg e) k"
proof -
  have k: "k_id k = sid" using engine_okD [OF assms(1,2)] assms(3) by auto
  have "k' = k" if "(s', c') \<in> set (kernels e)" "map_of (objs e) c' = Some k'" "k_id k' = sid" for s' c' k'
  proof -
    have "s' = sid" using engine_okD [OF assms(1) that(1)] that by auto
    then have "c' = c" using assms(1,2) that(1) by (auto simp: engine_ok_def dest: eq_key_imp_eq_value)
    then show ?thesis using that(2) assms(3) by simp
  qed
  then have "sid \<in> k_id ` set (doomedOf now e) \<Longrightarrow> doomed now (cfg e) k"
    unfolding set_doomedOf [OF assms(1)] by auto
  moreover have "sid \<in> k_id ` set (doomedOf now e)" if "doomed now (cfg e) k"
    using k assms(2,3) that unfolding set_doomedOf [OF assms(1)] by blast
  ultimately show ?thesis by blast
qed
section \<open>A kernel for the witnesses\<close>

definition demo_frame :: "string \<Rightarrow> string \<Rightarrow> string \<Rightarrow> kResp" where
  "demo_frame i ty d = \<lparr>kr_ID = i, kr_Type = ty, kr_Stream = ''stdout'', kr_Data = d, kr_OK = True, kr_Error = '''',
     kr_DurationMs = 5, kr_Truncated = False\<rparr>"

definition demo_U :: "bytes \<Rightarrow> kResp option" where
  "demo_U b = (if b = ''s'' then Some (demo_frame ''id1'' ''stream'' ''hello'')
     else if b = ''r'' then Some (demo_frame ''id1'' ''result'' '''')
     else if b = ''f'' then Some (demo_frame '''' ''result'' '''') else None)"

definition demo_cfg :: KernelConfig where
  "demo_cfg = \<lparr>kc_Slots = 1, kc_MemoryBytes = 1000, kc_CPUs = Fin 1, kc_Pids = 9, kc_OutputBytes = 3, kc_StartTimeout = 1,
     DefaultStepMs = 1000, MaxStepMs = 2000, kc_IdleTTL = 100, MaxLifetime = 1000, kc_AcquireWait = 1\<rparr>"

definition demo_kernel :: kernel where
  "demo_kernel = \<lparr>k_id = ''s1'', container = ''c1'', k_image = ''py'', k_createdAt = 0, lastUsed = 0, dead = False\<rparr>"

definition demo_engine :: "(int \<times> int) KernelEngine" where
  "demo_engine = \<lparr>cfg = demo_cfg, Slots = New counter 1, gv = NewGvisor, kernels = [(''s1'', ''c1'')], objs = [(''c1'', demo_kernel)]\<rparr>"

lemmas demo_defs = demo_frame_def demo_U_def demo_cfg_def demo_kernel_def demo_engine_def

lemma demo_engine_ok: "engine_ok demo_engine"
  by (simp add: engine_ok_def demo_defs)

section \<open>Properties\<close>

text \<open>
  C10: Only the harness can end a step or add to its output: two runs of the
  channel that agree on the end of the stream and on the frames that carry this
  step's id and a known type give the same result, the same live output, the same
  engine and the same commands, whatever else user code wrote to the channel.
\<close>
theorem kernel_forged_frames:
  assumes "filter (genuine U stepID) reads = filter (genuine U stepID) reads'"
  shows "kExec U M stepID w reads now e c code ms k = kExec U M stepID w reads' now e c code ms k"
  unfolding kExec_def readLoop_genuine [of U stepID k reads] readLoop_genuine [of U stepID k reads'] assms ..

theorem kernel_forged_frames_witness:
  "kExec demo_U (\<lambda>_ _. []) ''id1'' True [KLine ''f'' False 1, KLine ''s'' False 1, KLine ''r'' False 2] 9 demo_engine ''c1'' ''x'' 0 False =
   kExec demo_U (\<lambda>_ _. []) ''id1'' True [KLine ''s'' False 1, KLine ''?'' True 1, KLine ''r'' False 2] 9 demo_engine ''c1'' ''x'' 0 False"
  by (rule kernel_forged_frames) (simp add: genuine_def frame_for_def demo_defs)





text \<open>
  C40: A kernel container is confined like a one-shot sandbox: before the image
  come the read-only root, the dropped capabilities, no new privileges, the
  unprivileged user and the slice, and equal memory and swap limits; and without a
  request for network, or with the network refused, the runtime without network.
\<close>
theorem kernel_hardened:
  "\<exists>flags. buildKernelRunArgs stat e name sid img mounts network = flags @ [img] \<and>
    {''--read-only'', ''--cap-drop=ALL'', ''--security-opt=no-new-privileges'', ''--user='' @ User (gv e), ''--cgroup-parent='' @ Slice (gv e)} \<subseteq> set flags \<and>
    sublist [''--memory'', Itoa (kc_MemoryBytes (cfg e)), ''--memory-swap'', Itoa (kc_MemoryBytes (cfg e))] flags \<and>
    (\<not> (network \<and> AllowNetwork (gv e) \<and> EgressNetwork (gv e) \<noteq> [] \<and> egressFirewallFresh (gv e) stat) \<longrightarrow>
      sublist [''--runtime'', g_Runtime (gv e), ''--network=none''] flags)"
proof -
  obtain rt nf rm where n: "kernelNet stat (gv e) network = (rt, nf, rm)" by (cases "kernelNet stat (gv e) network")
  let ?pre = "[''-d'', ''-i'', ''--name'', name, ''--runtime'', rt, nf, ''--read-only'',
       ''--tmpfs'', ''/tmp:rw,noexec,nosuid,nodev,size=64m,nr_inodes=4096'', ''-w'', ''/workspace'']"
  let ?mem = "[''--memory'', Itoa (kc_MemoryBytes (cfg e)), ''--memory-swap'', Itoa (kc_MemoryBytes (cfg e))]"
  obtain post where b: "buildKernelRunArgs stat e name sid img mounts network = (?pre @ ?mem @ post) @ [img]"
      "{''--cap-drop=ALL'', ''--security-opt=no-new-privileges'', ''--user='' @ User (gv e), ''--cgroup-parent='' @ Slice (gv e)} \<subseteq> set post"
    by (simp add: buildKernelRunArgs_def n Let_def)
  have "sublist [''--runtime'', rt, nf] (?pre @ ?mem @ post)"
    using sublist_appendI [of "[''--runtime'', rt, nf]" "[''-d'', ''-i'', ''--name'', name]" "drop 7 ?pre @ ?mem @ post"] by simp
  moreover have "rt = g_Runtime (gv e) \<and> nf = ''--network=none''"
    if "\<not> (network \<and> AllowNetwork (gv e) \<and> EgressNetwork (gv e) \<noteq> [] \<and> egressFirewallFresh (gv e) stat)"
    using n that by (auto simp: kernelNet_def NetMode_def split: if_splits)
  moreover have "sublist ?mem (?pre @ ?mem @ post)" by (rule sublist_appendI)
  moreover have "''--read-only'' \<in> set (?pre @ ?mem @ post)" by simp
  ultimately show ?thesis
    using b by (intro exI [of _ "?pre @ ?mem @ post"]) (simp only: set_append, blast)
qed

theorem kernel_hardened_witness:
  "\<exists>flags. buildKernelRunArgs None demo_engine ''n'' ''s1'' ''py'' [] True = flags @ [''py''] \<and>
    sublist [''--runtime'', ''runsc-untrusted'', ''--network=none''] flags"
proof -
  have "\<not> egressFirewallFresh (gv demo_engine) None" "g_Runtime (gv demo_engine) = ''runsc-untrusted''"
    by (simp_all add: demo_engine_def NewGvisor_def egressFirewallFresh_def)
  then show ?thesis using kernel_hardened [of None demo_engine "''n''" "''s1''" "''py''" "[]" True] by auto
qed

text \<open>
  Reaping is exact: the ids it returns are those of the kernels that are dead,
  idle for longer than the limit or too old; exactly these leave the map; and the
  container of each is force-removed and its object marked dead.
\<close>
theorem kernel_reap:
  assumes "engine_ok e" and "Reap now e = (ids, e', acts)" and "(sid, c) \<in> set (kernels e)" and "map_of (objs e) c = Some k"
  shows "(sid \<in> set ids \<longleftrightarrow> doomed now (cfg e) k) \<and>
    ((sid, c) \<in> set (kernels e') \<longleftrightarrow> \<not> doomed now (cfg e) k) \<and>
    (doomed now (cfg e) k \<longrightarrow> ForceRemove [c] \<in> set acts \<and> isDead e' c) \<and> engine_ok e'"
proof -
  let ?ds = "doomedOf now e"
  define e1 where "e1 = e\<lparr>kernels := fold (\<lambda>k ks. map_del (k_id k) ks) ?ds (kernels e)\<rparr>"
  have R: "ids = map k_id ?ds" "e' = fold (\<lambda>k e'. updObj (container k) markDead e') ?ds e1"
      "acts = concat (map (\<lambda>k. [CancelAttach (container k), ForceRemove [container k]]) ?ds)"
    using assms(2) by (auto simp: Reap_def Let_def e1_def)
  note d = doomed_ids [OF assms(1,3,4), of now]
  have ks: "kernels e' = filter (\<lambda>p. fst p \<notin> k_id ` set ?ds) (kernels e)"
    by (simp add: R fold_upd_objs e1_def fold_del)
  have ob: "map_of (objs e') x = (if x \<in> container ` set ?ds then map_option markDead (map_of (objs e) x) else map_of (objs e) x)" for x
    by (simp add: R fold_upd_objs e1_def)
  have c: "container k = c" using engine_okD [OF assms(1,3)] assms(4) by auto
  have "k \<in> set ?ds" if "doomed now (cfg e) k" using assms(3,4) that unfolding set_doomedOf [OF assms(1)] by blast
  then have "ForceRemove [c] \<in> set acts \<and> isDead e' c" if "doomed now (cfg e) k"
    using that c assms(4) by (auto simp: R(3) isDead_def ob markDead_def)
  moreover have "engine_ok e'"
  proof -
    have "\<exists>k. map_of (objs e') x = Some k \<and> k_id k = s \<and> container k = x" if "(s, x) \<in> set (kernels e)" for s x
      using engine_okD [OF assms(1) that] by (auto simp: ob markDead_keeps)
    then show ?thesis using assms(1) by (auto simp: engine_ok_def ks distinct_filter_fst)
  qed
  ultimately show ?thesis using d assms(3) by (auto simp: R(1) ks)
qed

theorem kernel_reap_witness:
  "\<exists>ids e' acts. Reap 200 demo_engine = (ids, e', acts) \<and> ''s1'' \<in> set ids \<and> ForceRemove [''c1''] \<in> set acts"
proof -
  obtain ids e' acts where r: "Reap 200 demo_engine = (ids, e', acts)" by (cases "Reap 200 demo_engine")
  have k: "(''s1'', ''c1'') \<in> set (kernels demo_engine)" "map_of (objs demo_engine) ''c1'' = Some demo_kernel"
      "doomed 200 (cfg demo_engine) demo_kernel"
    by (simp_all add: demo_defs doomed_def)
  show ?thesis using kernel_reap [OF demo_engine_ok r k(1,2)] k(3) r by blast
qed

text \<open>
  A kernel can be reaped in the middle of a step.  The activity stamp moves only
  when a step completes, so a step submitted to a kernel that has been quiet for
  almost the idle limit does not protect it: while the step is still waiting for
  its result the reaper removes the container.
\<close>
theorem kernel_reaped_mid_step:
  assumes "engine_ok e" and "(sid, c) \<in> set (kernels e)" and "map_of (objs e) c = Some k"
    and "kExec U M stepID True reads t e c code ms s = None" and "now - lastUsed k > kc_IdleTTL (cfg e)"
  shows "\<not> dead k \<and> sid \<in> set (fst (Reap now e)) \<and> ForceRemove [c] \<in> set (snd (snd (Reap now e)))"
proof -
  obtain ids e' acts where r: "Reap now e = (ids, e', acts)" by (cases "Reap now e")
  have "\<not> dead k" using assms(3,4) by (auto simp: kExec_def Let_def isDead_def)
  moreover have "doomed now (cfg e) k" using assms(5) by (simp add: doomed_def)
  moreover have "k \<in> set (doomedOf now e)"
    using assms(2,3) calculation(2) unfolding set_doomedOf [OF assms(1)] by blast
  moreover have "k_id k = sid" "container k = c" using engine_okD [OF assms(1,2)] assms(3) by auto
  ultimately show ?thesis by (force simp: Reap_def Let_def)
qed

theorem kernel_reaped_mid_step_witness:
  "\<not> dead demo_kernel \<and> ''s1'' \<in> set (fst (Reap 101 demo_engine)) \<and> ForceRemove [''c1''] \<in> set (snd (snd (Reap 101 demo_engine)))"
  by (rule kernel_reaped_mid_step [OF demo_engine_ok, of _ _ _ demo_U "\<lambda>_ _. []" "''id1''" "[]" 0 "''x''" 0 False])
     (simp_all add: demo_defs kExec_def Let_def isDead_def)

text \<open>
  A kernel that fails to start leaves nothing behind: the engine is unchanged and,
  once \<^verbatim>\<open>docker run\<close> has succeeded, the container is force-removed.
\<close>
lemma kernel_start_clean:
  assumes "NewKernel U h io u e sid img ms net = ((Inl err, e'), acts)"
  shows "e' = e \<and> (ks_runOk io \<longrightarrow> last acts = ForceRemove [''iso-kernel-'' @ u])"
  using assms by (auto simp: NewKernel_def Let_def split: if_splits option.splits)

end
