(* ===== verification/Session.thy ===== *)
theory Session
  imports KernelProps Registry Auth HostFs
begin

text \<open>
  The session manager of \<^verbatim>\<open>internal/session/manager.go\<close>.  Sessions live in the map
  \<open>sessions\<close>; what a request keeps of a session across other requests is immutable
  but for the mounts and the activity stamp, so records are stored by value.  A
  kernel session names its container (\<open>s_k\<close>).  Effects on the host (directories,
  docker, the drop callback) are returned as a list; the answers of the host, the
  clock, fresh identifiers and the executor are arguments.  An operation that
  releases a slot returns \<open>None\<close> when that release panics.
\<close>

section \<open>Data\<close>

datatype sess_error =
    ErrNotFound | ErrForbidden | ErrCapacity | ErrQuota | ErrPath | ErrIsDir | ErrDiskFull | ErrTooMany
  | ErrKernelDisabled | ErrKernelBusy | ErrWrongType
  | UnknownRuntime string | NoRandom | CreateWorkspace | StartKernel kerror
  | NotExist | HostError string | ExecError string | KernelError kerror

record Session =
  s_ID :: string
  s_Token :: string
  s_Runtime :: string
  s_Type :: string
  Workspace :: string
  s_CreatedAt :: int
  IdleTTL :: int
  s_Tenant :: string
  ExtraMounts :: "Mount list"
  s_k :: "string option"
  lastActivity :: int

record Info =
  i_ID :: string
  i_Runtime :: string
  i_Type :: string
  i_CreatedAt :: int
  i_DiskBytes :: int

record FileInfo =
  fi_Name :: string
  fi_Size :: int
  fi_Dir :: bool
  fi_ModTime :: int

record 's manager =
  Reg :: Registry
  Sema :: "'s Limiter"
  Kernels :: "'s KernelEngine option"
  sm_Root :: string
  DiskQuota :: int
  GlobalDiskMax :: int
  MaxSessions :: int
  DefaultTTL :: int
  sessions :: "(string \<times> Session) list"
  sm_used :: int

record config =
  c_Root :: string
  c_DiskQuota :: int
  c_GlobalDiskMax :: int
  c_MaxSessions :: int
  c_TTL :: int

record CreateOpts =
  o_TTL :: int
  o_ID :: string
  o_Tenant :: string
  o_Type :: string
  o_ExtraMounts :: "Mount list"
  o_Network :: bool

datatype hostop =
    MkdirAll string | Chmod string | WriteTo string bytes | RemoveAll string | OnDrop string | Engine kaction

text \<open>
  What the host answers: \<open>h_stat\<close>, \<open>h_read\<close> and \<open>h_readDir\<close> follow symbolic links,
  as \<^verbatim>\<open>os.Stat\<close>, \<^verbatim>\<open>os.ReadFile\<close> and \<^verbatim>\<open>os.ReadDir\<close> do.  A failed call says whether
  its error is \<^verbatim>\<open>os.ErrNotExist\<close>.
\<close>

record host =
  h_stat :: "string \<Rightarrow> (sess_error, FileInfo) result"
  h_read :: "string \<Rightarrow> (sess_error, bytes) result"
  h_readDir :: "string \<Rightarrow> (sess_error, (string \<times> bool \<times> FileInfo option) list) result"
  h_tree :: "string \<Rightarrow> fsnode option"
  h_mkdirAll :: "string \<Rightarrow> sess_error option"
  h_write :: "string \<Rightarrow> bytes \<Rightarrow> sess_error option"
  h_removeAll :: "string \<Rightarrow> sess_error option"

definition dirSize :: "fsnode option \<Rightarrow> int" where
  "dirSize d = (case d of None \<Rightarrow> 0 | Some nd \<Rightarrow> wrap64 (dirSizeNode nd))"

definition wsSize :: "host \<Rightarrow> Session \<Rightarrow> int" where
  "wsSize h s = dirSize (h_tree h (Workspace s))"

section \<open>Start-up\<close>

definition NewManager :: "Registry \<Rightarrow> 's Limiter \<Rightarrow> config \<Rightarrow> bool \<Rightarrow> string list option \<Rightarrow> (string, 's manager \<times> hostop list) result" where
  "NewManager reg sema cf mkdirOk ents =
     (if c_Root cf = [] then Inl ''session root required''
      else if \<not> mkdirOk then Inl ''create session root''
      else Inr (\<lparr>Reg = reg, Sema = sema, Kernels = None, sm_Root = c_Root cf,
          DiskQuota = (if c_DiskQuota cf \<le> 0 then 536870912 else c_DiskQuota cf),
          GlobalDiskMax = (if c_GlobalDiskMax cf \<le> 0 then 10737418240 else c_GlobalDiskMax cf),
          MaxSessions = (if c_MaxSessions cf \<le> 0 then 200 else c_MaxSessions cf),
          DefaultTTL = (if c_TTL cf \<le> 0 then 24 * 3600 * seconds else c_TTL cf),
          sessions = [], sm_used = 0\<rparr>,
        MkdirAll (c_Root cf) # map (\<lambda>n. RemoveAll (Join [c_Root cf, n])) (case ents of None \<Rightarrow> [] | Some ns \<Rightarrow> ns)))"

section \<open>Create\<close>

record create_env =
  ce_uni :: "bytes \<Rightarrow> bytes"
  ce_rand :: "bytes option"
  ce_uuid :: string
  ce_kuuid :: string
  ce_now :: int
  ce_mkdirOk :: bool
  ce_slotWaitOver :: bool
  ce_U :: "bytes \<Rightarrow> kResp option"
  ce_harness :: string
  ce_start :: kstart

definition MintID :: "string \<Rightarrow> string" where "MintID uuid = ''sess_'' @ uuid"

definition mintToken :: "bytes option \<Rightarrow> string option" where
  "mintToken rand = map_option (\<lambda>b. ''tok_'' @ hex_encode b) rand"

definition newSession :: "create_env \<Rightarrow> 's manager \<Rightarrow> Language \<Rightarrow> CreateOpts \<Rightarrow> string \<Rightarrow> Session" where
  "newSession E m lang co tok =
     (let sid = (if o_ID co \<noteq> [] then o_ID co else MintID (ce_uuid E)) in
      \<lparr>s_ID = sid, s_Token = tok, s_Runtime = r_Name lang,
       s_Type = (if o_Type co = [] then ''filesystem'' else o_Type co),
       Workspace = Join [sm_Root m, sid, ''workspace''], s_CreatedAt = ce_now E,
       IdleTTL = (if o_TTL co \<le> 0 then DefaultTTL m else o_TTL co), s_Tenant = o_Tenant co,
       ExtraMounts = o_ExtraMounts co, s_k = None, lastActivity = ce_now E\<rparr>)"

text \<open>The resident container of a new kernel session, with the slot it takes.\<close>

definition startKernel :: "'s weighted \<Rightarrow> create_env \<Rightarrow> 's manager \<Rightarrow> Language \<Rightarrow> CreateOpts \<Rightarrow> Session
    \<Rightarrow> ((sess_error, Session) result \<times> 's manager \<times> hostop list) option" where
  "startKernel S E m lang co s =
     (let undo = [RemoveAll (Dir (Workspace s))] in
      case Kernels m of None \<Rightarrow> Some (Inl ErrKernelDisabled, m, undo)
      | Some e \<Rightarrow>
        (case Acquire S (ce_slotWaitOver E) (Slots e) of
           (False, l) \<Rightarrow> Some (Inl ErrKernelBusy, m\<lparr>Kernels := Some (e\<lparr>Slots := l\<rparr>)\<rparr>, undo)
         | (True, l) \<Rightarrow>
             (case NewKernel (ce_U E) (ce_harness E) (ce_start E) (ce_kuuid E) (e\<lparr>Slots := l\<rparr>) (s_ID s) (r_Image lang)
                 (\<lparr>HostPath = Workspace s, Target = ''/workspace'', RW = True\<rparr> # o_ExtraMounts co) (o_Network co) of
                ((Inl err, e'), acts) \<Rightarrow>
                  (case Release S (Slots e') of None \<Rightarrow> None
                   | Some l' \<Rightarrow> Some (Inl (StartKernel err), m\<lparr>Kernels := Some (e'\<lparr>Slots := l'\<rparr>)\<rparr>, map Engine acts @ undo))
              | ((Inr c, e'), acts) \<Rightarrow> Some (Inr (s\<lparr>s_k := Some c\<rparr>), m\<lparr>Kernels := Some e'\<rparr>, map Engine acts))))"

text \<open>\<open>Create\<close> up to the insertion into the map.\<close>

definition createBegin :: "'s weighted \<Rightarrow> create_env \<Rightarrow> 's manager \<Rightarrow> string \<Rightarrow> CreateOpts
    \<Rightarrow> ((sess_error, Session) result \<times> 's manager \<times> hostop list) option" where
  "createBegin S E m runtime co =
     (case ResolveLang (ce_uni E) (Reg m) runtime [] of
        None \<Rightarrow> Some (Inl (UnknownRuntime runtime), m, [])
      | Some lang \<Rightarrow>
        if int (length (sessions m)) \<ge> MaxSessions m then Some (Inl ErrTooMany, m, [])
        else if sm_used m \<ge> GlobalDiskMax m then Some (Inl ErrDiskFull, m, [])
        else (case mintToken (ce_rand E) of None \<Rightarrow> Some (Inl NoRandom, m, [])
        | Some tok \<Rightarrow>
          let s = newSession E m lang co tok; mk = [MkdirAll (Workspace s)] in
          if \<not> ce_mkdirOk E then Some (Inl CreateWorkspace, m, mk)
          else if s_Type s = ''kernel'' then
            map_option (\<lambda>(r, m', ops). (r, m', mk @ Chmod (Workspace s) # ops)) (startKernel S E m lang co s)
          else Some (Inr s, m, mk @ [Chmod (Workspace s)])))"

definition createInsert :: "Session \<Rightarrow> 's manager \<Rightarrow> 's manager" where
  "createInsert s m = m\<lparr>sessions := map_put (s_ID s) s (sessions m)\<rparr>"

definition Create :: "'s weighted \<Rightarrow> create_env \<Rightarrow> 's manager \<Rightarrow> string \<Rightarrow> CreateOpts
    \<Rightarrow> ((sess_error, Session) result \<times> 's manager \<times> hostop list) option" where
  "Create S E m runtime co =
     map_option (\<lambda>(r, m', ops). (r, (case r of Inl _ \<Rightarrow> m' | Inr s \<Rightarrow> createInsert s m'), ops)) (createBegin S E m runtime co)"

section \<open>Access\<close>

definition authed :: "'s manager \<Rightarrow> string \<Rightarrow> string \<Rightarrow> string \<Rightarrow> (sess_error, Session) result" where
  "authed m sid token tenant =
     (case map_of (sessions m) sid of None \<Rightarrow> Inl ErrNotFound
      | Some s \<Rightarrow>
        if ConstantTimeCompare token (s_Token s) \<noteq> 1 then Inl ErrForbidden
        else if tenant \<noteq> [] \<and> s_Tenant s \<noteq> tenant then Inl ErrForbidden
        else Inr s)"

definition updSession :: "string \<Rightarrow> (Session \<Rightarrow> Session) \<Rightarrow> 's manager \<Rightarrow> 's manager" where
  "updSession sid f m =
     (case map_of (sessions m) sid of None \<Rightarrow> m | Some s \<Rightarrow> m\<lparr>sessions := map_put sid (f s) (sessions m)\<rparr>)"

definition touchSession :: "int \<Rightarrow> Session \<Rightarrow> Session" where "touchSession now s = s\<lparr>lastActivity := now\<rparr>"

definition idle :: "int \<Rightarrow> Session \<Rightarrow> int" where "idle now s = now - lastActivity s"

definition SetMounts :: "'s manager \<Rightarrow> string \<Rightarrow> string \<Rightarrow> string \<Rightarrow> Mount list \<Rightarrow> sess_error option \<times> 's manager" where
  "SetMounts m sid token tenant mounts =
     (case authed m sid token tenant of Inl e \<Rightarrow> (Some e, m)
      | Inr s \<Rightarrow> (None, updSession sid (\<lambda>s. s\<lparr>ExtraMounts := mounts\<rparr>) m))"

definition Runtime :: "'s manager \<Rightarrow> string \<Rightarrow> string \<Rightarrow> string \<Rightarrow> (sess_error, string) result" where
  "Runtime m sid token tenant = andThen (authed m sid token tenant) (\<lambda>s. Inr (s_Runtime s))"

definition Get :: "host \<Rightarrow> 's manager \<Rightarrow> string \<Rightarrow> string \<Rightarrow> string \<Rightarrow> (sess_error, Info) result" where
  "Get h m sid token tenant = andThen (authed m sid token tenant) (\<lambda>s.
     Inr \<lparr>i_ID = s_ID s, i_Runtime = s_Runtime s, i_Type = s_Type s, i_CreatedAt = s_CreatedAt s, i_DiskBytes = wsSize h s\<rparr>)"

definition IsKernel :: "'s manager \<Rightarrow> string \<Rightarrow> string \<Rightarrow> string \<Rightarrow> (sess_error, bool) result" where
  "IsKernel m sid token tenant = andThen (authed m sid token tenant) (\<lambda>s. Inr (s_k s \<noteq> None))"

definition Count :: "'s manager \<Rightarrow> nat" where "Count m = length (sessions m)"

section \<open>Steps\<close>

definition stepSpec :: "Session \<Rightarrow> Spec \<Rightarrow> Spec" where
  "stepSpec s spec = spec\<lparr>Workdir := ''/workspace'',
     Mounts := Mounts spec @ [\<lparr>HostPath = Workspace s, Target = ''/workspace'', RW = True\<rparr>] @ ExtraMounts s\<rparr>"

text \<open>\<open>run\<close> is the executor, \<open>waitOver\<close> whether the wait for a slot ends before one frees.\<close>

definition Exec :: "'s weighted \<Rightarrow> (Spec \<Rightarrow> Result \<times> string option) \<Rightarrow> bool \<Rightarrow> int \<Rightarrow> 's manager \<Rightarrow> string \<Rightarrow> string \<Rightarrow> string \<Rightarrow> Spec
    \<Rightarrow> ((Result \<times> sess_error option) \<times> 's manager) option" where
  "Exec S run waitOver now m sid token tenant spec =
     (case authed m sid token tenant of Inl e \<Rightarrow> Some ((zero_Result, Some e), m)
      | Inr s \<Rightarrow>
        (case Acquire S waitOver (Sema m) of
           (False, l) \<Rightarrow> Some ((zero_Result, Some ErrCapacity), m\<lparr>Sema := l\<rparr>)
         | (True, l) \<Rightarrow>
             (let (res, err) = run (stepSpec s spec); m1 = updSession sid (touchSession now) (m\<lparr>Sema := l\<rparr>) in
              map_option (\<lambda>l'. ((res, map_option ExecError err), m1\<lparr>Sema := l'\<rparr>)) (Release S (Sema m1)))))"

definition KernelExec :: "(bytes \<Rightarrow> kResp option) \<Rightarrow> (string \<Rightarrow> string \<Rightarrow> bytes) \<Rightarrow> string \<Rightarrow> bool \<Rightarrow> kread list \<Rightarrow> int
    \<Rightarrow> 's manager \<Rightarrow> string \<Rightarrow> string \<Rightarrow> string \<Rightarrow> string \<Rightarrow> int \<Rightarrow> bool
    \<Rightarrow> ((Result \<times> sess_error option) \<times> (bool \<times> bytes) list \<times> 's manager \<times> hostop list) option" where
  "KernelExec U M stepID writeOk reads now m sid token tenant code stepMs hasSink =
     (case authed m sid token tenant of Inl e \<Rightarrow> Some ((zero_Result, Some e), [], m, [])
      | Inr s \<Rightarrow>
        (case (s_k s, Kernels m) of
           (Some c, Some e) \<Rightarrow>
             map_option (\<lambda>((res, err), snk, e', acts).
                ((res, map_option KernelError err), snk,
                 updSession sid (touchSession now) (m\<lparr>Kernels := Some e'\<rparr>), map Engine acts))
               (kExec U M stepID writeOk reads now e c code stepMs hasSink)
         | _ \<Rightarrow> Some ((zero_Result, Some ErrWrongType), [], m, [])))"

section \<open>Removal\<close>

text \<open>Deleting the entry under the lock: whether it was there, and the map without it.\<close>

definition claim :: "string \<Rightarrow> 's manager \<Rightarrow> bool \<times> 's manager" where
  "claim sid m = (map_of (sessions m) sid \<noteq> None, m\<lparr>sessions := map_del sid (sessions m)\<rparr>)"

text \<open>What the claimer does next; \<open>gone\<close> when the container is already gone.\<close>

definition finishDrop :: "'s weighted \<Rightarrow> bool \<Rightarrow> 's manager \<Rightarrow> Session \<Rightarrow> ('s manager \<times> hostop list) option" where
  "finishDrop S gone m s =
     (let rest = [OnDrop (s_ID s), RemoveAll (Dir (Workspace s))] in
      case (s_k s, Kernels m) of
        (Some _, Some e) \<Rightarrow>
          (let (e1, acts) = (if gone then (e, []) else kDestroy (s_ID s) e) in
           map_option (\<lambda>l. (m\<lparr>Kernels := Some (e1\<lparr>Slots := l\<rparr>)\<rparr>, map Engine acts @ rest)) (Release S (Slots e1)))
      | _ \<Rightarrow> Some (m, rest))"

definition Destroy :: "'s weighted \<Rightarrow> host \<Rightarrow> 's manager \<Rightarrow> string \<Rightarrow> string \<Rightarrow> string \<Rightarrow> (sess_error option \<times> 's manager \<times> hostop list) option" where
  "Destroy S h m sid token tenant =
     (case authed m sid token tenant of Inl e \<Rightarrow> Some (Some e, m, [])
      | Inr s \<Rightarrow>
        (case claim sid m of
           (False, m1) \<Rightarrow> Some (Some ErrNotFound, m1, [])
         | (True, m1) \<Rightarrow> map_option (\<lambda>(m2, ops). (h_removeAll h (Dir (Workspace s)), m2, ops)) (finishDrop S False m1 s)))"

definition dropSession :: "'s weighted \<Rightarrow> bool \<Rightarrow> 's manager \<Rightarrow> Session \<Rightarrow> ('s manager \<times> hostop list) option" where
  "dropSession S gone m s =
     (case claim (s_ID s) m of
        (False, m1) \<Rightarrow> Some (m1, [])
      | (True, m1) \<Rightarrow> finishDrop S gone m1 s)"

section \<open>Maintenance\<close>

fun sweepSnap :: "'s weighted \<Rightarrow> host \<Rightarrow> int \<Rightarrow> Session list \<Rightarrow> 's manager \<Rightarrow> (Session \<times> int) list \<Rightarrow> int \<Rightarrow> hostop list
    \<Rightarrow> ('s manager \<times> (Session \<times> int) list \<times> int \<times> hostop list) option" where
  "sweepSnap S h now [] m live tot ops = Some (m, live, tot, ops)"
| "sweepSnap S h now (s # ss) m live tot ops =
     (if s_k s = None \<and> idle now s > IdleTTL s then
        (case dropSession S False m s of None \<Rightarrow> None | Some (m', ops') \<Rightarrow> sweepSnap S h now ss m' live tot (ops @ ops'))
      else let sz = wsSize h s in
        if sz > DiskQuota m then
          (case dropSession S False m s of None \<Rightarrow> None | Some (m', ops') \<Rightarrow> sweepSnap S h now ss m' live tot (ops @ ops'))
        else sweepSnap S h now ss m (live @ [(s, sz)]) (wrap64 (tot + sz)) ops)"

fun sweepOver :: "'s weighted \<Rightarrow> (Session \<times> int) list \<Rightarrow> 's manager \<Rightarrow> int \<Rightarrow> hostop list \<Rightarrow> ('s manager \<times> int \<times> hostop list) option" where
  "sweepOver S [] m tot ops = Some (m, tot, ops)"
| "sweepOver S ((s, sz) # live) m tot ops =
     (if tot \<le> GlobalDiskMax m then Some (m, tot, ops)
      else (case dropSession S False m s of None \<Rightarrow> None
        | Some (m', ops') \<Rightarrow> sweepOver S live m' (wrap64 (tot - sz)) (ops @ ops')))"

definition Sweep :: "'s weighted \<Rightarrow> host \<Rightarrow> int \<Rightarrow> 's manager \<Rightarrow> ('s manager \<times> hostop list) option" where
  "Sweep S h now m =
     (case sweepSnap S h now (map snd (sessions m)) m [] 0 [] of None \<Rightarrow> None
      | Some (m1, live, tot, ops) \<Rightarrow>
        (case (if tot > GlobalDiskMax m1 then sweepOver S (sort_key (\<lambda>(s, sz). - sz) live) m1 tot ops else Some (m1, tot, ops)) of
           None \<Rightarrow> None
         | Some (m2, tot2, ops2) \<Rightarrow> Some (m2\<lparr>sm_used := tot2\<rparr>, ops2)))"

fun dropReapedAll :: "'s weighted \<Rightarrow> string list \<Rightarrow> 's manager \<Rightarrow> hostop list \<Rightarrow> ('s manager \<times> hostop list) option" where
  "dropReapedAll S [] m ops = Some (m, ops)"
| "dropReapedAll S (sid # ids) m ops =
     (case map_of (sessions m) sid of
        None \<Rightarrow> dropReapedAll S ids m ops
      | Some s \<Rightarrow>
        (case dropSession S True m s of None \<Rightarrow> None
         | Some (m', ops') \<Rightarrow> dropReapedAll S ids m' (ops @ ops')))"

definition SweepKernels :: "'s weighted \<Rightarrow> int \<Rightarrow> 's manager \<Rightarrow> ('s manager \<times> hostop list) option" where
  "SweepKernels S now m =
     (case Kernels m of None \<Rightarrow> Some (m, [])
      | Some e \<Rightarrow> (case Reap now e of (ids, e', acts) \<Rightarrow> dropReapedAll S ids (m\<lparr>Kernels := Some e'\<rparr>) (map Engine acts)))"

section \<open>Files\<close>

definition safePath :: "Session \<Rightarrow> string \<Rightarrow> (sess_error, string) result" where
  "safePath s rel =
     (let clean = Clean (''/'' @ TrimSpace rel); p = Join [Workspace s, clean] in
      if p \<noteq> Workspace s \<and> \<not> HasPrefix p (Workspace s @ ''/'') then Inl ErrPath else Inr p)"

definition withPath :: "'s manager \<Rightarrow> string \<Rightarrow> string \<Rightarrow> string \<Rightarrow> string \<Rightarrow> (sess_error, Session \<times> string) result" where
  "withPath m sid token tenant rel =
     andThen (authed m sid token tenant) (\<lambda>s. andThen (safePath s rel) (\<lambda>p. Inr (s, p)))"

definition Stat :: "host \<Rightarrow> 's manager \<Rightarrow> string \<Rightarrow> string \<Rightarrow> string \<Rightarrow> string \<Rightarrow> (sess_error, FileInfo) result" where
  "Stat h m sid token tenant rel = andThen (withPath m sid token tenant rel) (\<lambda>(s, p). h_stat h p)"

definition ReadFile :: "host \<Rightarrow> 's manager \<Rightarrow> string \<Rightarrow> string \<Rightarrow> string \<Rightarrow> string \<Rightarrow> (sess_error, bytes) result" where
  "ReadFile h m sid token tenant rel = andThen (withPath m sid token tenant rel) (\<lambda>(s, p).
     case h_stat h p of
       Inr fi \<Rightarrow> if fi_Dir fi then Inl ErrIsDir else h_read h p
     | Inl _ \<Rightarrow> h_read h p)"

definition ListDir :: "host \<Rightarrow> 's manager \<Rightarrow> string \<Rightarrow> string \<Rightarrow> string \<Rightarrow> string \<Rightarrow> (sess_error, FileInfo list) result" where
  "ListDir h m sid token tenant rel = andThen (withPath m sid token tenant rel) (\<lambda>(s, p).
     andThen (h_readDir h p) (\<lambda>ents.
       Inr (sort_key fi_Name (List.map_filter (\<lambda>(n, d, fi). map_option (\<lambda>i. i\<lparr>fi_Name := n, fi_Dir := d\<rparr>) fi) ents))))"

definition WriteFile :: "host \<Rightarrow> int \<Rightarrow> 's manager \<Rightarrow> string \<Rightarrow> string \<Rightarrow> string \<Rightarrow> string \<Rightarrow> bytes \<Rightarrow> sess_error option \<times> 's manager \<times> hostop list" where
  "WriteFile h now m sid token tenant rel d =
     (case withPath m sid token tenant rel of Inl e \<Rightarrow> (Some e, m, [])
      | Inr (s, p) \<Rightarrow>
        (let old = (case h_stat h p of Inr fi \<Rightarrow> fi_Size fi | Inl _ \<Rightarrow> 0) in
         if wrap64 (wrap64 (wsSize h s - old) + int (length d)) > DiskQuota m then (Some ErrQuota, m, [])
         else (case h_mkdirAll h (Dir p) of Some e \<Rightarrow> (Some e, m, [MkdirAll (Dir p)])
         | None \<Rightarrow>
           (case h_write h p d of Some e \<Rightarrow> (Some e, m, [MkdirAll (Dir p), WriteTo p d])
            | None \<Rightarrow> (None, updSession sid (touchSession now) m, [MkdirAll (Dir p), WriteTo p d])))))"

definition DeletePath :: "host \<Rightarrow> 's manager \<Rightarrow> string \<Rightarrow> string \<Rightarrow> string \<Rightarrow> string \<Rightarrow> sess_error option \<times> hostop list" where
  "DeletePath h m sid token tenant rel =
     (case withPath m sid token tenant rel of Inl e \<Rightarrow> (Some e, [])
      | Inr (s, p) \<Rightarrow> if p = Workspace s then (Some ErrPath, []) else (h_removeAll h p, [RemoveAll p]))"

end
