(* ===== verification/SessionProps.thy ===== *)
theory SessionProps
  imports Session
begin

text \<open>
  Properties of the session manager in one request: who gets in, which host paths
  a request can touch, and what the disk sweep leaves.
\<close>

section \<open>Access\<close>

lemma authed_Inr:
  "authed m sid token tenant = Inr s \<longleftrightarrow>
     map_of (sessions m) sid = Some s \<and> token = s_Token s \<and> (tenant = '''' \<or> s_Tenant s = tenant)"
  by (auto simp: authed_def ConstantTimeCompare_eq split: option.splits)

text \<open>
  The session token and the tenant gate every operation: a caller gets a
  session exactly with its id, its token and (when a tenant is given) its tenant;
  any other caller gets not-found or forbidden from every operation, which then
  changes no state and touches nothing on the host.
\<close>
theorem session_gate:
  "(\<forall>s. authed m sid token tenant = Inr s \<longleftrightarrow>
      map_of (sessions m) sid = Some s \<and> token = s_Token s \<and> (tenant = '''' \<or> s_Tenant s = tenant)) \<and>
   (\<forall>e. authed m sid token tenant = Inl e \<longrightarrow> e \<in> {ErrNotFound, ErrForbidden} \<and>
      Exec S run wo now m sid token tenant spec = Some ((zero_Result, Some e), m) \<and>
      KernelExec U M i w reads now m sid token tenant code ms k = Some ((zero_Result, Some e), [], m, []) \<and>
      Destroy S h m sid token tenant = Some (Some e, m, []) \<and>
      SetMounts m sid token tenant mounts = (Some e, m) \<and>
      WriteFile h now m sid token tenant rel d = (Some e, m, []) \<and>
      DeletePath h m sid token tenant rel = (Some e, []) \<and>
      ReadFile h m sid token tenant rel = Inl e \<and> ListDir h m sid token tenant rel = Inl e \<and>
      Stat h m sid token tenant rel = Inl e \<and> Get h m sid token tenant = Inl e \<and>
      Runtime m sid token tenant = Inl e \<and> IsKernel m sid token tenant = Inl e)"
proof (intro conjI allI impI)
  fix e assume e: "authed m sid token tenant = Inl e"
  then show "e \<in> {ErrNotFound, ErrForbidden}" by (auto simp: authed_def split: option.splits if_splits)
  have "withPath m sid token tenant rel = Inl e" by (simp add: withPath_def e)
  then show "WriteFile h now m sid token tenant rel d = (Some e, m, [])" "DeletePath h m sid token tenant rel = (Some e, [])"
    "ReadFile h m sid token tenant rel = Inl e" "ListDir h m sid token tenant rel = Inl e" "Stat h m sid token tenant rel = Inl e"
    by (simp_all add: WriteFile_def DeletePath_def ReadFile_def ListDir_def Stat_def)
qed (simp_all add: authed_Inr Exec_def KernelExec_def Destroy_def SetMounts_def Get_def Runtime_def IsKernel_def)

definition demo_session :: Session where
  "demo_session = \<lparr>s_ID = ''sess_1'', s_Token = ''tok_1'', s_Runtime = ''python'', s_Type = ''filesystem'',
     Workspace = ''/w/sess_1/workspace'', s_CreatedAt = 0, IdleTTL = 100, s_Tenant = ''t1'', ExtraMounts = [], s_k = None, lastActivity = 0\<rparr>"

definition demo_manager :: "(int \<times> int) manager" where
  "demo_manager = \<lparr>Reg = \<lparr>byKey = Map.empty, all = []\<rparr>, Sema = New counter 1, Kernels = None, sm_Root = ''/w'',
     DiskQuota = 10, GlobalDiskMax = 15, MaxSessions = 2, DefaultTTL = 100, sessions = [(''sess_1'', demo_session)], sm_used = 0\<rparr>"

definition demo_host :: host where
  "demo_host = \<lparr>h_stat = (\<lambda>_. Inl NotExist), h_read = (\<lambda>_. Inl NotExist), h_readDir = (\<lambda>_. Inl NotExist),
     h_tree = (\<lambda>_. Some (Leaf (Some 4))), h_mkdirAll = (\<lambda>_. None), h_write = (\<lambda>_ _. None), h_removeAll = (\<lambda>_. None)\<rparr>"

theorem session_gate_witness:
  "authed demo_manager ''sess_1'' ''tok_1'' ''t1'' = Inr demo_session \<and>
   Destroy counter demo_host demo_manager ''sess_1'' ''bad'' ''t1'' = Some (Some ErrForbidden, demo_manager, [])"
proof -
  have "map_of (sessions demo_manager) ''sess_1'' = Some demo_session" "s_Token demo_session = ''tok_1''" "s_Tenant demo_session = ''t1''"
    by (simp_all add: demo_manager_def demo_session_def)
  moreover have "authed demo_manager ''sess_1'' ''bad'' ''t1'' = Inl ErrForbidden"
    by (simp add: authed_def ConstantTimeCompare_def demo_manager_def demo_session_def)
  moreover have "Destroy counter demo_host demo_manager ''sess_1'' ''bad'' ''t1'' = Some (Some ErrForbidden, demo_manager, [])"
    using session_gate [THEN conjunct2, THEN spec, THEN mp, OF calculation(4)] by blast
  ultimately show ?thesis
    using session_gate [THEN conjunct1, THEN spec, of demo_manager "''sess_1''" "''tok_1''" "''t1''" demo_session] by simp
qed

section \<open>Paths\<close>

definition ws_ok :: "Session \<Rightarrow> bool" where
  "ws_ok s \<longleftrightarrow> Clean (Workspace s) = Workspace s \<and> comps (Workspace s) \<noteq> []"

lemma newSession_ws_ok:
  assumes "sm_Root m \<noteq> ''''" and "name_ok (s_ID (newSession E m lang co tok))"
  shows "ws_ok (newSession E m lang co tok)"
proof -
  let ?s = "newSession E m lang co tok"
  have w: "Workspace ?s = Join [sm_Root m, s_ID ?s, ''workspace'']" by (simp add: newSession_def Let_def)
  have n: "name_ok ''workspace''" by (simp add: name_ok_def)
  have "comps (Workspace ?s) = comps (sm_Root m) @ [s_ID ?s, ''workspace'']"
    unfolding w using comps_Join_names(1) [of "sm_Root m" "[s_ID ?s, ''workspace'']"] assms n by simp
  moreover have "Clean (Workspace ?s) = Workspace ?s"
    unfolding w using assms(1) by (simp add: Join_def)
  ultimately show ?thesis by (simp add: ws_ok_def)
qed

lemma comps_rooted_names: "rooted x \<Longrightarrow> c \<in> set (comps x) \<Longrightarrow> name_ok c"
proof -
  assume r: "rooted x" and c: "c \<in> set (comps x)"
  have "stack_ok True (rev (comps x))" using stack_of_path_ok [of x] r by simp
  moreover have "stack_ok True st \<Longrightarrow> d \<in> set st \<Longrightarrow> name_ok d" for st d
    by (induction st) (auto split: if_splits)
  ultimately show "name_ok c" using c by simp
qed

lemma Join_rooted:
  assumes "d \<noteq> []" and "rooted x"
  shows "Join [d, Clean x] = print_path (rooted d) (comps d @ comps x)"
proof -
  have x: "Clean x = slash # join_slash (comps x)" using assms(2) by (auto simp: Clean_def print_path_def)
  have ns: "\<forall>c \<in> set (comps x). name_ok c" using comps_rooted_names [OF assms(2)] by blast
  have "comps (d @ slash # Clean x) = comps d @ comps x"
  proof (cases "comps x = []")
    case True
    then show ?thesis using assms(1) x by (simp add: comps_append push_comp_def)
  next
    case False
    have sp: "split_slash (join_slash (comps x)) = comps x"
      using split_join [OF False] ns by (auto simp: name_ok_def)
    have "split_slash (Clean x) = [] # comps x" using sp by (simp add: x)
    then show ?thesis using assms(1) ns by (simp add: comps_append fold_push_names push_comp_def)
  qed
  then show ?thesis using assms(1) by (simp add: Join_two Clean_print rooted_append)
qed

lemma safePath_eq:
  assumes "ws_ok s"
  shows "\<exists>cs. safePath s rel = Inr (print_path (rooted (Workspace s)) (comps (Workspace s) @ cs)) \<and> (\<forall>c \<in> set cs. name_ok c) \<and>
    below (Workspace s) (print_path (rooted (Workspace s)) (comps (Workspace s) @ cs))"
proof -
  let ?x = "''/'' @ TrimSpace rel" and ?w = "Workspace s"
  have w: "?w \<noteq> []" using assms by (auto simp: ws_ok_def)
  have W: "?w = print_path (rooted ?w) (comps ?w)" using assms w by (metis Clean_print ws_ok_def)
  have r: "rooted ?x" by simp
  have j: "Join [?w, Clean ?x] = print_path (rooted ?w) (comps ?w @ comps ?x)" by (rule Join_rooted [OF w r])
  have b: "below ?w (print_path (rooted ?w) (comps ?w @ comps ?x))"
    using below_print_path [of "comps ?w" "rooted ?w" "comps ?x"] assms W by (simp add: ws_ok_def)
  have "safePath s rel = Inr (print_path (rooted ?w) (comps ?w @ comps ?x))"
    using b unfolding safePath_def Let_def j by (auto simp: below_def HasPrefix_def)
  then show ?thesis using b comps_rooted_names [OF r] by blast
qed

definition touches :: "hostop \<Rightarrow> string option" where
  "touches x = (case x of WriteTo p _ \<Rightarrow> Some p | RemoveAll p \<Rightarrow> Some p | _ \<Rightarrow> None)"


text \<open>
  The containment is lexical only.  The host follows symbolic links, and code in
  the sandbox can make them in its workspace: here \<^verbatim>\<open>x\<close> is a link to a file outside,
  and reading it through the file interface returns that file.
\<close>
lemma session_symlink_escape:
  fixes files :: "string \<Rightarrow> bytes"
  defines "h \<equiv> demo_host\<lparr>h_read := (\<lambda>p. Inr (files (if p = ''/w/sess_1/workspace/x'' then ''/etc/shadow'' else p)))\<rparr>"
  shows "ReadFile h demo_manager ''sess_1'' ''tok_1'' ''t1'' ''x'' = Inr (files ''/etc/shadow'') \<and>
    \<not> below (Workspace demo_session) ''/etc/shadow''"
proof -
  have "withPath demo_manager ''sess_1'' ''tok_1'' ''t1'' ''x'' = Inr (demo_session, ''/w/sess_1/workspace/x'')" by code_simp
  then show ?thesis by (simp add: ReadFile_def h_def demo_host_def below_def demo_session_def)
qed

end
