(* ===== verification/SessionSweep.thy ===== *)
theory SessionSweep
  imports SessionProps
begin

text \<open>
  The disk sweep of the session manager: it returns whenever the kernel slots
  cover the kernel sessions, and it leaves the sessions within their quota, within
  their idle time and within the global ceiling.
\<close>

section \<open>Dropping one session\<close>

definition kernelSessions :: "'s manager \<Rightarrow> int" where
  "kernelSessions m = int (length (filter (\<lambda>p. s_k (snd p) \<noteq> None) (sessions m)))"

definition sess_ok :: "'s manager \<Rightarrow> bool" where
  "sess_ok m \<longleftrightarrow> distinct (map fst (sessions m)) \<and> (\<forall>(sid, s) \<in> set (sessions m). s_ID s = sid)"

text \<open>Every kernel session of the map holds a slot of the engine.\<close>

definition slots_cover :: "('s \<Rightarrow> int) \<Rightarrow> 's manager \<Rightarrow> bool" where
  "slots_cover held m \<longleftrightarrow> (case Kernels m of None \<Rightarrow> kernelSessions m = 0 | Some e \<Rightarrow> kernelSessions m \<le> held (l_sem (Slots e)))"

definition limits_same :: "'s manager \<Rightarrow> 's manager \<Rightarrow> bool" where
  "limits_same m m' \<longleftrightarrow> DiskQuota m' = DiskQuota m \<and> GlobalDiskMax m' = GlobalDiskMax m"

lemma sess_ok_del: "sess_ok m \<Longrightarrow> sessions m' = map_del sid (sessions m) \<Longrightarrow> sess_ok m'"
  by (auto simp: sess_ok_def distinct_map_del in_map_del)

lemma length_filter_del:
  assumes "distinct (map fst xs)" and "(k, v) \<in> set xs" and "P (k, v)"
  shows "length (filter P xs) = Suc (length (filter P (map_del k xs)))"
proof -
  obtain ys zs where xs: "xs = ys @ (k, v) # zs" using assms(2) by (meson split_list)
  have "k \<notin> fst ` set ys" "k \<notin> fst ` set zs" using assms(1) xs by auto
  then have "filter (\<lambda>p. fst p \<noteq> k) ys = ys" "filter (\<lambda>p. fst p \<noteq> k) zs = zs"
    by (force intro: filter_True)+
  then have "map_del k xs = ys @ zs" by (simp add: map_del_def xs)
  then show ?thesis using assms(3) by (simp add: xs)
qed

lemma kDestroy_Slots: "Slots (fst (kDestroy sid e)) = Slots e"
  by (simp add: kDestroy_def split: option.splits)

context weighted_sem
begin

lemma Release_pos:
  assumes "held (l_sem l) > 0"
  shows "\<exists>l'. Release S l = Some l' \<and> held (l_sem l') = held (l_sem l) - 1 \<and> cap (l_sem l') = cap (l_sem l) \<and>
    l_inUse l' = l_inUse l - 1 \<and> l_max l' = l_max l"
  using Release_held [OF assms] by (auto simp: Release_def)

lemma dropSession_ok:
  assumes ok: "sess_ok m" and sc: "slots_cover held m" and s: "(s_ID s, s) \<in> set (sessions m)"
  shows "\<exists>m' ops. dropSession S b m s = Some (m', ops) \<and> sessions m' = map_del (s_ID s) (sessions m) \<and>
    sess_ok m' \<and> slots_cover held m' \<and> limits_same m m'"
proof -
  let ?m1 = "m\<lparr>sessions := map_del (s_ID s) (sessions m)\<rparr>"
  have d: "distinct (map fst (sessions m))" using ok by (simp add: sess_ok_def)
  have c: "claim (s_ID s) m = (True, ?m1)" using map_of_is_SomeI [OF d s] by (simp add: claim_def)
  have ok1: "sess_ok m'" if "sessions m' = map_del (s_ID s) (sessions m)" for m' :: "'a manager"
    using sess_ok_del [OF ok that] .
  show ?thesis
  proof (cases "s_k s = None \<or> Kernels m = None")
    case True
    have "kernelSessions ?m1 \<le> kernelSessions m"
      using length_filter_le [of "\<lambda>p. fst p \<noteq> s_ID s" "filter (\<lambda>p. s_k (snd p) \<noteq> None) (sessions m)"]
      by (simp add: kernelSessions_def map_del_def conj_commute)
    moreover have "kernelSessions ?m1 \<ge> 0" by (simp add: kernelSessions_def)
    ultimately have "slots_cover held ?m1" using sc by (auto simp: slots_cover_def split: option.splits)
    moreover have "dropSession S b m s = Some (?m1, [OnDrop (s_ID s), RemoveAll (Dir (Workspace s))])"
      using True by (auto simp: dropSession_def c finishDrop_def Let_def split: option.splits)
    ultimately show ?thesis using ok1 [of ?m1] by (auto simp: limits_same_def)
  next
    case False
    then obtain k e where ke: "s_k s = Some k" "Kernels m = Some e" by auto
    obtain e1 acts where e1: "(if b then (e, []) else kDestroy (s_ID s) e) = (e1, acts)" by (cases b) (auto, metis surj_pair)
    have sl: "Slots e1 = Slots e" using e1 kDestroy_Slots [of "s_ID s" e] by (cases b) auto
    have n: "kernelSessions m = kernelSessions ?m1 + 1"
      using length_filter_del [OF d s, of "\<lambda>p. s_k (snd p) \<noteq> None"] ke by (simp add: kernelSessions_def)
    have "held (l_sem (Slots e)) > 0"
      using sc n ke by (auto simp: slots_cover_def kernelSessions_def)
    then obtain l where l: "Release S (Slots e1) = Some l" "held (l_sem l) = held (l_sem (Slots e)) - 1"
      using Release_pos sl by auto
    let ?m2 = "?m1\<lparr>Kernels := Some (e1\<lparr>Slots := l\<rparr>)\<rparr>"
    have "dropSession S b m s = Some (?m2, map Engine acts @ [OnDrop (s_ID s), RemoveAll (Dir (Workspace s))])"
      using ke e1 l(1) by (simp add: dropSession_def c finishDrop_def)
    moreover have "slots_cover held ?m2"
      using sc n l(2) ke by (auto simp: slots_cover_def kernelSessions_def)
    ultimately show ?thesis using ok1 [of ?m2] by (auto simp: limits_same_def)
  qed
qed

end
section \<open>The two passes\<close>

definition keeps :: "host \<Rightarrow> int \<Rightarrow> int \<Rightarrow> Session \<Rightarrow> bool" where
  "keeps h now quota s \<longleftrightarrow> \<not> (s_k s = None \<and> idle now s > IdleTTL s) \<and> wsSize h s \<le> quota"

definition diskTotal :: "host \<Rightarrow> 's manager \<Rightarrow> int" where
  "diskTotal h m = (\<Sum>p \<leftarrow> sessions m. wsSize h (snd p))"

lemma sum_list_nn: "\<forall>x. 0 \<le> f x \<Longrightarrow> 0 \<le> (\<Sum>x \<leftarrow> xs. f x :: int)"
  by (induction xs) auto

lemma sum_list_filter_le: "\<forall>x. 0 \<le> f x \<Longrightarrow> (\<Sum>x \<leftarrow> filter P xs. f x :: int) \<le> (\<Sum>x \<leftarrow> xs. f x)"
  by (induction xs) (auto intro: add_increasing)

lemma map_del_middle:
  assumes "distinct (map fst (xs @ (k, v) # ys))"
  shows "map_del k (xs @ (k, v) # ys) = xs @ ys"
proof -
  have "k \<notin> fst ` set xs" "k \<notin> fst ` set ys" using assms by auto
  then have "filter (\<lambda>p. fst p \<noteq> k) xs = xs" "filter (\<lambda>p. fst p \<noteq> k) ys = ys"
    by (force intro: filter_True)+
  then show ?thesis by (simp add: map_del_def)
qed

lemma sum_list_del:
  assumes "distinct (map fst xs)" and "(k, v) \<in> set xs"
  shows "(\<Sum>p \<leftarrow> map_del k xs. f p) = (\<Sum>p \<leftarrow> xs. f p) - (f (k, v) :: int)"
proof -
  obtain ys zs where xs: "xs = ys @ (k, v) # zs" using assms(2) by (meson split_list)
  then show ?thesis using map_del_middle [of ys k v zs] assms(1) by simp
qed

context weighted_sem
begin

lemma sweepSnap_ok:
  assumes "sess_ok m" and "slots_cover held m" and "sessions m = kept @ map (\<lambda>s. (s_ID s, s)) ss"
    and "live = map (\<lambda>(sid, s). (s, wsSize h s)) kept" and "tot = (\<Sum>p \<leftarrow> kept. wsSize h (snd p))"
    and "\<forall>s. 0 \<le> wsSize h s" and "tot + (\<Sum>s \<leftarrow> ss. wsSize h s) < 2 ^ 63" and "DiskQuota m = quota"
    and "0 \<le> tot"
  shows "\<exists>m' ops'. sweepSnap S h now ss m live tot ops =
      Some (m', map (\<lambda>(sid, s). (s, wsSize h s)) (sessions m'), diskTotal h m', ops') \<and>
    sessions m' = kept @ filter (\<lambda>p. keeps h now quota (snd p)) (map (\<lambda>s. (s_ID s, s)) ss) \<and>
    sess_ok m' \<and> slots_cover held m' \<and> limits_same m m'"
  using assms
proof (induction ss arbitrary: m kept live tot ops)
  case Nil
  then show ?case by (auto simp: diskTotal_def limits_same_def)
next
  case (Cons s ss)
  have sz: "0 \<le> wsSize h s" "0 \<le> (\<Sum>s \<leftarrow> ss. wsSize h s)"
    using Cons.prems(6) by (auto intro: sum_list_nn)
  show ?case
  proof (cases "keeps h now quota s")
    case True
    have w: "wrap64 (tot + wsSize h s) = tot + wsSize h s"
      using Cons.prems(7,9) sz by (intro wrap64_id) auto
    have step: "sweepSnap S h now (s # ss) m live tot ops =
        sweepSnap S h now ss m (live @ [(s, wsSize h s)]) (tot + wsSize h s) ops"
      using True w Cons.prems(8) by (auto simp: keeps_def Let_def)
    have "\<exists>m' ops'. sweepSnap S h now ss m (live @ [(s, wsSize h s)]) (tot + wsSize h s) ops =
        Some (m', map (\<lambda>(sid, s). (s, wsSize h s)) (sessions m'), diskTotal h m', ops') \<and>
      sessions m' = (kept @ [(s_ID s, s)]) @ filter (\<lambda>p. keeps h now quota (snd p)) (map (\<lambda>s. (s_ID s, s)) ss) \<and>
      sess_ok m' \<and> slots_cover held m' \<and> limits_same m m'"
      by (rule Cons.IH) (use Cons.prems sz in \<open>auto simp: algebra_simps\<close>)
    then show ?thesis using True unfolding step by simp
  next
    case False
    have "(s_ID s, s) \<in> set (sessions m)" using Cons.prems(3) by simp
    from dropSession_ok [OF Cons.prems(1,2) this, of False]
    obtain m1 o1 where d: "dropSession S False m s = Some (m1, o1)" "sessions m1 = map_del (s_ID s) (sessions m)"
        "sess_ok m1" "slots_cover held m1" "limits_same m m1" by blast
    have m1: "sessions m1 = kept @ map (\<lambda>s. (s_ID s, s)) ss"
      unfolding d(2) Cons.prems(3) using map_del_middle [of kept "s_ID s" s "map (\<lambda>s. (s_ID s, s)) ss"] Cons.prems(1,3)
      by (simp add: sess_ok_def)
    have step: "sweepSnap S h now (s # ss) m live tot ops = sweepSnap S h now ss m1 live tot (ops @ o1)"
      using False d(1) Cons.prems(8) by (auto simp: keeps_def Let_def)
    have "\<exists>m' ops'. sweepSnap S h now ss m1 live tot (ops @ o1) =
        Some (m', map (\<lambda>(sid, s). (s, wsSize h s)) (sessions m'), diskTotal h m', ops') \<and>
      sessions m' = kept @ filter (\<lambda>p. keeps h now quota (snd p)) (map (\<lambda>s. (s_ID s, s)) ss) \<and>
      sess_ok m' \<and> slots_cover held m' \<and> limits_same m1 m'"
    proof (rule Cons.IH)
      have "(\<Sum>s \<leftarrow> ss. wsSize h s) \<le> (\<Sum>s \<leftarrow> s # ss. wsSize h s)" using sz by simp
      then show "tot + (\<Sum>s \<leftarrow> ss. wsSize h s) < 2 ^ 63" using Cons.prems(7) by linarith
    qed (use Cons.prems d m1 in \<open>auto simp: limits_same_def\<close>)
    then show ?thesis using False d(5) unfolding step by (auto simp: limits_same_def)
  qed
qed

lemma sweepOver_ok:
  assumes "sess_ok m" and "slots_cover held m" and "distinct live"
    and "set live = (\<lambda>(sid, s). (s, wsSize h s)) ` set (sessions m)" and "tot = diskTotal h m"
    and "\<forall>s. 0 \<le> wsSize h s" and "tot < 2 ^ 63" and "0 \<le> GlobalDiskMax m"
  shows "\<exists>m' ops'. sweepOver S live m tot ops = Some (m', diskTotal h m', ops') \<and> set (sessions m') \<subseteq> set (sessions m) \<and>
    diskTotal h m' \<le> GlobalDiskMax m \<and> limits_same m m'"
  using assms
proof (induction live arbitrary: m tot ops)
  case Nil
  then show ?case by (auto simp: diskTotal_def limits_same_def)
next
  case (Cons x live)
  obtain s sz where x: "x = (s, sz)" by force
  then obtain sid where "(sid, s) \<in> set (sessions m)" and sz: "sz = wsSize h s" using Cons.prems(4) by force
  then have s: "(s_ID s, s) \<in> set (sessions m)" using Cons.prems(1) by (auto simp: sess_ok_def)
  have d: "distinct (map fst (sessions m))" using Cons.prems(1) by (simp add: sess_ok_def)
  show ?case
  proof (cases "tot \<le> GlobalDiskMax m")
    case True
    then show ?thesis using Cons.prems by (auto simp: x limits_same_def)
  next
    case False
    obtain m1 o1 where m1: "dropSession S False m s = Some (m1, o1)" "sessions m1 = map_del (s_ID s) (sessions m)"
        "sess_ok m1" "slots_cover held m1" "limits_same m m1"
      using dropSession_ok [OF Cons.prems(1,2) s, of False] by blast
    have t: "diskTotal h m1 = tot - sz"
      using sum_list_del [OF d s, of "\<lambda>p. wsSize h (snd p)"] Cons.prems(5) sz by (simp add: diskTotal_def m1(2))
    have nn: "0 \<le> diskTotal h m1" using Cons.prems(6) by (auto simp: diskTotal_def intro: sum_list_nn)
    have w: "wrap64 (tot - sz) = diskTotal h m1"
      using t nn Cons.prems(6,7) sz by (subst wrap64_id) (auto, smt (verit) Cons.prems(6))
    have "set live = (\<lambda>(sid, s). (s, wsSize h s)) ` set (sessions m1)"
    proof -
      have "p \<in> set (sessions m) \<Longrightarrow> fst p \<noteq> s_ID s \<longleftrightarrow> snd p \<noteq> s" for p
        using s d Cons.prems(1) by (cases p) (auto simp: sess_ok_def dest: eq_key_imp_eq_value)
      then have "(\<lambda>(sid, s). (s, wsSize h s)) ` set (sessions m1) =
          (\<lambda>(sid, s). (s, wsSize h s)) ` set (sessions m) - {(s, sz)}"
        unfolding m1(2) by (force simp: in_map_del sz)
      then show ?thesis using Cons.prems(3,4) x by auto
    qed
    then have "\<exists>m' ops'. sweepOver S live m1 (diskTotal h m1) (ops @ o1) = Some (m', diskTotal h m', ops') \<and>
        set (sessions m') \<subseteq> set (sessions m1) \<and> diskTotal h m' \<le> GlobalDiskMax m1 \<and> limits_same m1 m'"
      using Cons.prems m1 t sz by (intro Cons.IH) (auto simp: limits_same_def, smt (verit))
    moreover have "set (sessions m1) \<subseteq> set (sessions m)" by (auto simp: m1(2) in_map_del)
    ultimately show ?thesis using False m1(1,5) w by (auto simp: x limits_same_def)
  qed
qed

end
section \<open>The property\<close>

text \<open>
  C24: The sweep enforces the disk bounds.  When the kernel sessions hold their
  slots and the sizes do not overflow, a sweep returns; afterwards every remaining
  session was there before, is within the per-session quota and, unless it is a
  kernel, within its idle time; and the recorded usage is the sum of the remaining
  workspaces and at most the global ceiling.
\<close>
theorem session_sweep:
  assumes "weighted_sem S held cap" and "sess_ok m" and "slots_cover held m"
    and "\<forall>s. 0 \<le> wsSize h s" and "diskTotal h m < 2 ^ 63" and "0 \<le> GlobalDiskMax m"
  shows "\<exists>m' ops. Sweep S h now m = Some (m', ops) \<and> set (sessions m') \<subseteq> set (sessions m) \<and>
    (\<forall>(sid, s) \<in> set (sessions m'). wsSize h s \<le> DiskQuota m \<and> (s_k s = None \<longrightarrow> idle now s \<le> IdleTTL s)) \<and>
    sm_used m' = (\<Sum>p \<leftarrow> sessions m'. wsSize h (snd p)) \<and> sm_used m' \<le> GlobalDiskMax m"
proof -
  have ss: "sessions m = [] @ map (\<lambda>s. (s_ID s, s)) (map snd (sessions m))"
    using assms(2) by (auto simp: sess_ok_def intro!: map_idI [symmetric])
  have tot: "0 + (\<Sum>s \<leftarrow> map snd (sessions m). wsSize h s) < 2 ^ 63" using assms(5) by (simp add: diskTotal_def comp_def)
  obtain m1 o1 where m1: "sweepSnap S h now (map snd (sessions m)) m [] 0 [] =
      Some (m1, map (\<lambda>(sid, s). (s, wsSize h s)) (sessions m1), diskTotal h m1, o1)"
      "sessions m1 = filter (\<lambda>p. keeps h now (DiskQuota m) (snd p)) (sessions m)"
      "sess_ok m1" "slots_cover held m1" "limits_same m m1"
    using weighted_sem.sweepSnap_ok [OF assms(1,2,3) ss refl refl assms(4) _ refl, of now "[]"] tot ss by auto
  let ?live = "map (\<lambda>(sid, s). (s, wsSize h s)) (sessions m1)" and ?L = "sort_key (\<lambda>(s, sz). - sz)"
  have keep: "\<forall>(sid, s) \<in> set (sessions m1). wsSize h s \<le> DiskQuota m \<and> (s_k s = None \<longrightarrow> idle now s \<le> IdleTTL s)"
    by (auto simp: m1(2) keeps_def)
  have sub: "set (sessions m1) \<subseteq> set (sessions m)" by (auto simp: m1(2))
  have g: "GlobalDiskMax m1 = GlobalDiskMax m" using m1(5) by (simp add: limits_same_def)
  show ?thesis
  proof (cases "diskTotal h m1 > GlobalDiskMax m1")
    case False
    then have "Sweep S h now m = Some (m1\<lparr>sm_used := diskTotal h m1\<rparr>, o1)" by (simp add: Sweep_def m1(1))
    then show ?thesis using keep sub False g by (auto simp: diskTotal_def)
  next
    case True
    have dist: "distinct ?live"
    proof -
      have "inj_on (\<lambda>(sid, s). (s, wsSize h s)) (set (sessions m1))"
      proof (rule inj_onI)
        fix p q assume p: "p \<in> set (sessions m1)" "q \<in> set (sessions m1)" and e: "(\<lambda>(sid, s). (s, wsSize h s)) p = (\<lambda>(sid, s). (s, wsSize h s)) q"
        have "s_ID (snd p) = fst p" "s_ID (snd q) = fst q" using p m1(3) by (auto simp: sess_ok_def)
        then show "p = q" using e by (simp add: split_def prod_eq_iff)
      qed
      then show ?thesis using m1(3) by (auto simp: sess_ok_def distinct_map)
    qed
    have "diskTotal h m1 \<le> diskTotal h m"
      unfolding diskTotal_def m1(2) using assms(4) by (intro sum_list_filter_le) auto
    then have lt: "diskTotal h m1 < 2 ^ 63" using assms(5) by simp
    obtain m2 o2 where m2: "sweepOver S (?L ?live) m1 (diskTotal h m1) o1 = Some (m2, diskTotal h m2, o2)"
        "set (sessions m2) \<subseteq> set (sessions m1)" "diskTotal h m2 \<le> GlobalDiskMax m1"
      using weighted_sem.sweepOver_ok [OF assms(1) m1(3,4), of "?L ?live" h "diskTotal h m1" o1] dist lt assms(4,6) g by auto
    have "Sweep S h now m = Some (m2\<lparr>sm_used := diskTotal h m2\<rparr>, o2)" using True m2(1) by (simp add: Sweep_def m1(1))
    then show ?thesis using keep sub m2(2,3) g by (auto simp: diskTotal_def)
  qed
qed

theorem session_sweep_witness:
  "\<exists>m' ops. Sweep counter demo_host 50 demo_manager = Some (m', ops) \<and> sm_used m' \<le> GlobalDiskMax demo_manager"
proof -
  have "\<forall>s. 0 \<le> wsSize demo_host s" "diskTotal demo_host demo_manager < 2 ^ 63"
    by (simp_all add: wsSize_def dirSize_def demo_host_def diskTotal_def demo_manager_def wrap64_id)
  moreover have "sess_ok demo_manager" "slots_cover fst demo_manager" "0 \<le> GlobalDiskMax demo_manager"
    by (simp_all add: sess_ok_def slots_cover_def kernelSessions_def demo_manager_def demo_session_def)
  ultimately show ?thesis using session_sweep [OF cnt.weighted_sem_axioms, of demo_manager demo_host 50] by blast
qed

end
