(* ===== verification/SessionSlots.thy ===== *)
theory SessionSlots
  imports SessionSweep
begin

text \<open>
  Kernel slots under concurrency.  \<open>slstep\<close> interleaves creations, destructions,
  sweeps and reaps at the points where the manager's lock is dropped: a creation
  is in flight between taking its slot and entering the map, a removal holds a
  session it looked up earlier, and a claimed session has left the map but not yet
  given its slot back.  A manager of \<open>None\<close> is a panic.  The contract of the
  semaphore (\<open>weighted_sem\<close>) is all the proofs use of it.
\<close>

section \<open>Interleavings\<close>

record 's sworld =
  sw_mgr :: "'s manager option"
  inflight :: "Session list"
  pend :: "(bool \<times> Session) set"
  claimed :: "(bool \<times> Session) list"
  reapq :: "string set"
  made :: "string \<rightharpoonup> string option"

inductive slstep :: "'s weighted \<Rightarrow> 's sworld \<Rightarrow> 's sworld \<Rightarrow> bool" for S where
  sl_create: "sw_mgr w = Some m \<Longrightarrow> createBegin S E m rt co = Some (Inr s, m', ops) \<Longrightarrow> made w (s_ID s) = None \<Longrightarrow>
    slstep S w (w\<lparr>sw_mgr := Some m', inflight := s # inflight w, made := (made w)(s_ID s \<mapsto> s_k s)\<rparr>)"
| sl_createFail: "sw_mgr w = Some m \<Longrightarrow> createBegin S E m rt co = Some (Inl e, m', ops) \<Longrightarrow>
    slstep S w (w\<lparr>sw_mgr := Some m'\<rparr>)"
| sl_createPanic: "sw_mgr w = Some m \<Longrightarrow> createBegin S E m rt co = None \<Longrightarrow> slstep S w (w\<lparr>sw_mgr := None\<rparr>)"
| sl_insert: "sw_mgr w = Some m \<Longrightarrow> inflight w = xs @ s # ys \<Longrightarrow>
    slstep S w (w\<lparr>sw_mgr := Some (createInsert s m), inflight := xs @ ys\<rparr>)"
| sl_authed: "sw_mgr w = Some m \<Longrightarrow> authed m sid token tenant = Inr s \<Longrightarrow>
    slstep S w (w\<lparr>pend := insert (False, s) (pend w)\<rparr>)"
| sl_snapshot: "sw_mgr w = Some m \<Longrightarrow> (sid, s) \<in> set (sessions m) \<Longrightarrow>
    slstep S w (w\<lparr>pend := insert (False, s) (pend w)\<rparr>)"
| sl_reaped: "sw_mgr w = Some m \<Longrightarrow> sid \<in> reapq w \<Longrightarrow> map_of (sessions m) sid = Some s \<Longrightarrow>
    slstep S w (w\<lparr>pend := insert (True, s) (pend w)\<rparr>)"
| sl_claim: "sw_mgr w = Some m \<Longrightarrow> (b, s) \<in> pend w \<Longrightarrow> claim (s_ID s) m = (True, m') \<Longrightarrow>
    slstep S w (w\<lparr>sw_mgr := Some m', claimed := (b, s) # claimed w\<rparr>)"
| sl_late: "sw_mgr w = Some m \<Longrightarrow> (b, s) \<in> pend w \<Longrightarrow> claim (s_ID s) m = (False, m') \<Longrightarrow>
    slstep S w (w\<lparr>sw_mgr := Some m'\<rparr>)"
| sl_finish: "sw_mgr w = Some m \<Longrightarrow> claimed w = xs @ (b, s) # ys \<Longrightarrow>
    slstep S w (w\<lparr>sw_mgr := map_option fst (finishDrop S b m s), claimed := xs @ ys\<rparr>)"
| sl_reap: "sw_mgr w = Some m \<Longrightarrow> Kernels m = Some e \<Longrightarrow> Reap now e = (ids, e', acts) \<Longrightarrow>
    slstep S w (w\<lparr>sw_mgr := Some (m\<lparr>Kernels := Some e'\<rparr>), reapq := reapq w \<union> set ids\<rparr>)"
| sl_mounts: "sw_mgr w = Some m \<Longrightarrow> SetMounts m sid token tenant mounts = (r, m') \<Longrightarrow> slstep S w (w\<lparr>sw_mgr := Some m'\<rparr>)"
| sl_kexec: "sw_mgr w = Some m \<Longrightarrow> KernelExec U M i wr reads now m sid token tenant code ms k = Some (r, snk, m', ops) \<Longrightarrow>
    slstep S w (w\<lparr>sw_mgr := Some m'\<rparr>)"
| sl_touch: "sw_mgr w = Some m \<Longrightarrow> slstep S w (w\<lparr>sw_mgr := Some (updSession sid (touchSession now) m)\<rparr>)"

inductive slreach :: "'s weighted \<Rightarrow> int \<Rightarrow> 's sworld \<Rightarrow> bool" for S n where
  sl_start: "NewManager reg sema cf True ents = Inr (m, ops) \<Longrightarrow> NewKernelEngine S (Some g) kc ps = Some (e, acts) \<Longrightarrow>
    n = kc_Slots (cfg e) \<Longrightarrow>
    slreach S n \<lparr>sw_mgr = Some (m\<lparr>Kernels := Some e\<rparr>), inflight = [], pend = {}, claimed = [], reapq = {}, made = Map.empty\<rparr>"
| sl_next: "slreach S n w \<Longrightarrow> slstep S w w' \<Longrightarrow> slreach S n w'"

definition kernelCount :: "Session list \<Rightarrow> int" where
  "kernelCount ss = int (length (filter (\<lambda>s. s_k s \<noteq> None) ss))"

lemma kernelCount_simps [simp]:
  "kernelCount [] = 0" "kernelCount (s # ss) = (if s_k s \<noteq> None then 1 else 0) + kernelCount ss"
  "kernelCount (xs @ ys) = kernelCount xs + kernelCount ys" "0 \<le> kernelCount ss"
  by (simp_all add: kernelCount_def)

lemma kernelSessions_eq: "kernelSessions m = kernelCount (map snd (sessions m))"
  by (simp add: kernelSessions_def kernelCount_def filter_map comp_def)

section \<open>The ids\<close>

text \<open>Every session a step works with is the one that was created under its id.\<close>

definition ids_ok :: "'s sworld \<Rightarrow> 's manager \<Rightarrow> bool" where
  "ids_ok w m \<longleftrightarrow> sess_ok m \<and> distinct (map s_ID (inflight w)) \<and>
     s_ID ` set (inflight w) \<inter> fst ` set (sessions m) = {} \<and>
     (\<forall>s \<in> set (inflight w) \<union> snd ` set (sessions m) \<union> snd ` pend w. made w (s_ID s) = Some (s_k s))"

lemma updSession_keys:
  assumes "sess_ok m" and "\<And>s. s_ID (f s) = s_ID s \<and> s_k (f s) = s_k s"
  shows "sess_ok (updSession sid f m) \<and> fst ` set (sessions (updSession sid f m)) = fst ` set (sessions m) \<and>
    (\<lambda>s. (s_ID s, s_k s)) ` snd ` set (sessions (updSession sid f m)) \<subseteq> (\<lambda>s. (s_ID s, s_k s)) ` snd ` set (sessions m) \<and>
    kernelSessions (updSession sid f m) = kernelSessions m \<and> Kernels (updSession sid f m) = Kernels m"
proof (cases "map_of (sessions m) sid")
  case None
  then show ?thesis using assms(1) by (simp add: updSession_def)
next
  case (Some s)
  let ?m = "updSession sid f m"
  have e: "sessions ?m = (sid, f s) # map_del sid (sessions m)" "Kernels ?m = Kernels m"
    using Some by (simp_all add: updSession_def map_put_def map_del_def)
  have i: "(sid, s) \<in> set (sessions m)" using Some by (rule map_of_SomeD)
  have d: "distinct (map fst (sessions m))" using assms(1) by (simp add: sess_ok_def)
  have ks: "kernelSessions ?m = kernelSessions m"
  proof (cases "s_k s = None")
    case True
    have "filter (\<lambda>p. s_k (snd p) \<noteq> None) (map_del sid (sessions m)) = filter (\<lambda>p. s_k (snd p) \<noteq> None) (sessions m)"
      unfolding map_del_def filter_filter
      by (rule filter_cong) (use True Some d in \<open>auto simp: map_of_is_SomeI dest: eq_key_imp_eq_value [OF _ i]\<close>)
    then show ?thesis using assms(2) [of s] True by (simp add: kernelSessions_def e)
  next
    case False
    then show ?thesis
      using length_filter_del [OF d i, of "\<lambda>p. s_k (snd p) \<noteq> None"] assms(2) [of s] by (simp add: kernelSessions_def e)
  qed
  have sid: "s_ID s = sid" using i assms(1) by (auto simp: sess_ok_def)
  have "sess_ok ?m"
    using assms sid by (auto simp: sess_ok_def e in_map_del distinct_map_del)
  moreover have "fst ` set (sessions ?m) = fst ` set (sessions m)" using i by (force simp: e in_map_del)
  moreover have "(\<lambda>s. (s_ID s, s_k s)) ` snd ` set (sessions ?m) \<subseteq> (\<lambda>s. (s_ID s, s_k s)) ` snd ` set (sessions m)"
    using i assms(2) by (force simp: e in_map_del)
  ultimately show ?thesis using ks e(2) by blast
qed

lemma ids_ok_subset:
  assumes "ids_ok w m" and "sess_ok m'" and "fst ` set (sessions m') \<subseteq> fst ` set (sessions m)"
    and "(\<lambda>s. (s_ID s, s_k s)) ` snd ` set (sessions m') \<subseteq> (\<lambda>s. (s_ID s, s_k s)) ` snd ` set (sessions m)"
  shows "ids_ok w m'"
proof -
  have "made w (s_ID s) = Some (s_k s)" if "s \<in> snd ` set (sessions m')" for s
  proof -
    have "(s_ID s, s_k s) \<in> (\<lambda>s. (s_ID s, s_k s)) ` snd ` set (sessions m)" using assms(4) that by blast
    then obtain t where t: "t \<in> snd ` set (sessions m)" and e: "(s_ID s, s_k s) = (s_ID t, s_k t)" by blast
    have "made w (s_ID t) = Some (s_k t)" using assms(1) t unfolding ids_ok_def by blast
    then show ?thesis using e by simp
  qed
  then show ?thesis using assms(1,2,3) unfolding ids_ok_def by blast
qed

lemma ids_ok_del:
  assumes "ids_ok w m"
  shows "ids_ok w (m\<lparr>sessions := map_del sid (sessions m)\<rparr>)"
proof -
  have ok: "sess_ok m" using assms by (simp add: ids_ok_def)
  have s: "set (map_del sid (sessions m)) \<subseteq> set (sessions m)" by (auto simp: map_del_def)
  show ?thesis
    by (rule ids_ok_subset [OF assms sess_ok_del [OF ok]]) (simp, simp add: image_mono [OF s], simp add: image_mono [OF image_mono [OF s]])
qed

lemma ids_ok_cong:
  "ids_ok w m \<Longrightarrow> sessions m' = sessions m \<Longrightarrow> inflight w' = inflight w \<Longrightarrow> pend w' = pend w \<Longrightarrow> made w' = made w \<Longrightarrow> ids_ok w' m'"
  by (simp add: ids_ok_def sess_ok_def)

lemma ids_ok_pend:
  assumes "ids_ok w m" and "s \<in> snd ` set (sessions m)"
  shows "ids_ok (w\<lparr>pend := insert (b, s) (pend w)\<rparr>) m"
proof -
  have "made w (s_ID s) = Some (s_k s)" using assms unfolding ids_ok_def by blast
  then show ?thesis using assms(1) by (simp add: ids_ok_def)
qed

lemma ids_ok_create:
  assumes "ids_ok w m" and "made w (s_ID s) = None" and "sessions m' = sessions m"
  shows "ids_ok (w\<lparr>sw_mgr := x, inflight := s # inflight w, made := (made w)(s_ID s \<mapsto> s_k s)\<rparr>) m'"
proof -
  have f: "s_ID t \<noteq> s_ID s" if "t \<in> set (inflight w) \<union> snd ` set (sessions m) \<union> snd ` pend w" for t
    using assms(1,2) that unfolding ids_ok_def by (metis option.distinct(1))
  have "s_ID s \<notin> fst ` set (sessions m)"
  proof
    assume "s_ID s \<in> fst ` set (sessions m)"
    then obtain t where t: "(s_ID s, t) \<in> set (sessions m)" by auto
    then have "s_ID t = s_ID s" using assms(1) by (auto simp: ids_ok_def sess_ok_def)
    moreover have "t \<in> snd ` set (sessions m)" using t by force
    ultimately show False using f by blast
  qed
  moreover have "s_ID s \<notin> s_ID ` set (inflight w)" using f by (metis UnI1 imageE)
  ultimately show ?thesis
    using assms(1,3) f by (simp add: ids_ok_def sess_ok_def)
qed

lemma ids_ok_insert:
  assumes "ids_ok w m" and "inflight w = xs @ s # ys"
  shows "ids_ok (w\<lparr>sw_mgr := x, inflight := xs @ ys\<rparr>) (createInsert s m) \<and>
    kernelSessions (createInsert s m) = kernelSessions m + kernelCount [s] \<and> Kernels (createInsert s m) = Kernels m"
proof -
  have n: "s_ID s \<notin> fst ` set (sessions m)" using assms by (auto simp: ids_ok_def)
  have e: "sessions (createInsert s m) = (s_ID s, s) # sessions m" using n by (simp add: createInsert_def map_put_fresh)
  have "made w (s_ID t) = Some (s_k t)" if "t \<in> set (xs @ ys) \<union> snd ` set ((s_ID s, s) # sessions m) \<union> snd ` pend w" for t
  proof -
    have "t \<in> set (inflight w) \<union> snd ` set (sessions m) \<union> snd ` pend w" using that assms(2) by auto
    then show ?thesis using assms(1) unfolding ids_ok_def by blast
  qed
  moreover have "s_ID ` set (xs @ ys) \<inter> fst ` set ((s_ID s, s) # sessions m) = {}"
    using assms unfolding ids_ok_def by (simp add: image_Un)
  moreover have "distinct (map s_ID (xs @ ys))" using assms by (simp add: ids_ok_def)
  moreover have "sess_ok (createInsert s m)" using assms(1) n by (simp add: ids_ok_def sess_ok_def e)
  ultimately have "ids_ok (w\<lparr>sw_mgr := x, inflight := xs @ ys\<rparr>) (createInsert s m)" by (simp add: ids_ok_def e)
  moreover have "kernelSessions (createInsert s m) = kernelSessions m + kernelCount [s]" by (simp add: kernelSessions_eq e)
  ultimately show ?thesis by (simp add: createInsert_def)
qed

lemma kernelSessions_claim:
  assumes "ids_ok w m" and "(b, s) \<in> pend w" and "claim (s_ID s) m = (True, m')"
  shows "kernelSessions m = kernelSessions m' + kernelCount [s]"
proof -
  have m': "sessions m' = map_del (s_ID s) (sessions m)" using assms(3) by (auto simp: claim_def)
  obtain t where t: "(s_ID s, t) \<in> set (sessions m)" using assms(3) by (auto simp: claim_def dest: map_of_SomeD)
  have i: "s_ID t = s_ID s" and d: "distinct (map fst (sessions m))" using assms(1) t by (auto simp: ids_ok_def sess_ok_def)
  have "t \<in> snd ` set (sessions m)" "s \<in> snd ` pend w" using t assms(2) by force+
  then have "made w (s_ID t) = Some (s_k t)" "made w (s_ID s) = Some (s_k s)" using assms(1) unfolding ids_ok_def by blast+
  then have k: "s_k t = s_k s" using i by simp
  obtain xs ys where xs: "sessions m = xs @ (s_ID s, t) # ys" using t by (meson split_list)
  have "map_del (s_ID s) (sessions m) = xs @ ys" unfolding xs by (rule map_del_middle) (use d xs in simp)
  then show ?thesis using k by (simp add: kernelSessions_eq m' xs)
qed

section \<open>The slots\<close>

definition slots_are :: "('s \<Rightarrow> int) \<Rightarrow> ('s \<Rightarrow> int) \<Rightarrow> int \<Rightarrow> int \<Rightarrow> 's Limiter \<Rightarrow> bool" where
  "slots_are held cap n k l \<longleftrightarrow> held (l_sem l) = k \<and> l_inUse l = k \<and> cap (l_sem l) = max 1 n \<and> l_max l = max 1 n \<and> k \<le> max 1 n"

lemma kExec_Slots: "kExec U M i wr reads now e c code ms k = Some (r, snk, e', acts) \<Longrightarrow> Slots e' = Slots e"
  by (auto simp: kExec_def Let_def split: if_splits option.splits kfinal.splits)

lemma Reap_Slots: "Slots (fst (snd (Reap now e))) = Slots e"
proof -
  have "Slots (fold (\<lambda>k. updObj (container k) markDead) ds e') = Slots e'" for ds :: "kernel list" and e' :: "'a KernelEngine"
    by (induction ds arbitrary: e') simp_all
  then show ?thesis by (simp add: Reap_def Let_def)
qed

lemma NewKernel_Slots: "Slots (snd (fst (NewKernel U har io uuid e sid img mounts net))) = Slots e"
  by (simp add: NewKernel_def Let_def split: option.splits)

context weighted_sem
begin

lemma slots_Acquire:
  assumes "slots_are held cap n k l" and "Acquire S d l = (b, l')"
  shows "slots_are held cap n (if b then k + 1 else k) l'"
proof (cases "w_Acquire S d (l_sem l)")
  case None
  then show ?thesis using assms by (simp add: Acquire_def)
next
  case (Some s)
  then show ?thesis using assms Acquire_ok [OF Some] by (auto simp: Acquire_def slots_are_def)
qed

lemma slots_Release:
  assumes "slots_are held cap n k l" and "0 < k"
  shows "\<exists>l'. Release S l = Some l' \<and> slots_are held cap n (k - 1) l'"
  using Release_pos [of l] assms by (auto simp: slots_are_def)

lemma startKernel_slots:
  assumes "Kernels m = Some e" and "slots_are held cap n k (Slots e)" and "0 \<le> k" and "s_k s = None"
  shows "\<exists>r m' ops e'. startKernel S E m lang co s = Some (r, m', ops) \<and> sessions m' = sessions m \<and> Kernels m' = Some e' \<and>
    slots_are held cap n (case r of Inl _ \<Rightarrow> k | Inr s' \<Rightarrow> k + kernelCount [s']) (Slots e')"
proof -
  obtain b l where a: "Acquire S (ce_slotWaitOver E) (Slots e) = (b, l)" by force
  have l: "slots_are held cap n (if b then k + 1 else k) l" using slots_Acquire [OF assms(2) a] .
  show ?thesis
  proof (cases b)
    case False
    then show ?thesis using assms(1) a l by (simp add: startKernel_def Let_def)
  next
    case True
    obtain r e' acts where K: "NewKernel (ce_U E) (ce_harness E) (ce_start E) (ce_kuuid E) (e\<lparr>Slots := l\<rparr>) (s_ID s) (r_Image lang)
        (\<lparr>HostPath = Workspace s, Target = ''/workspace'', RW = True\<rparr> # o_ExtraMounts co) (o_Network co) = ((r, e'), acts)"
      by (metis surj_pair)
    have se: "slots_are held cap n (k + 1) (Slots e')" using arg_cong [OF K, of "\<lambda>x. Slots (snd (fst x))"] l True
      by (simp add: NewKernel_Slots)
    show ?thesis
    proof (cases r)
      case (Inl err)
      obtain l' where "Release S (Slots e') = Some l'" "slots_are held cap n k l'" using slots_Release [OF se] assms(3) by auto
      then show ?thesis using assms(1) a True K Inl by (simp add: startKernel_def Let_def)
    next
      case (Inr c)
      then show ?thesis using assms(1) a True K se by (simp add: startKernel_def Let_def)
    qed
  qed
qed

lemma createBegin_slots:
  assumes "Kernels m = Some e" and "slots_are held cap n k (Slots e)" and "0 \<le> k"
  shows "\<exists>r m' ops e'. createBegin S E m rt co = Some (r, m', ops) \<and> sessions m' = sessions m \<and> Kernels m' = Some e' \<and>
    slots_are held cap n (case r of Inl _ \<Rightarrow> k | Inr s' \<Rightarrow> k + kernelCount [s']) (Slots e')"
proof -
  have s: "s_k (newSession E m lang co tok) = None" for lang tok by (simp add: newSession_def Let_def)
  have K: "\<exists>r m' ops e'. startKernel S E m lang co (newSession E m lang co tok) = Some (r, m', ops) \<and> sessions m' = sessions m \<and>
    Kernels m' = Some e' \<and> slots_are held cap n (case r of Inl _ \<Rightarrow> k | Inr s' \<Rightarrow> k + kernelCount [s']) (Slots e')" for lang tok
    by (rule startKernel_slots [OF assms s])
  show ?thesis
  proof (cases "ResolveLang (ce_uni E) (Reg m) rt []")
    case None
    then show ?thesis using assms by (simp add: createBegin_def)
  next
    case L: (Some lang)
    show ?thesis
    proof (cases "mintToken (ce_rand E)")
      case None
      then show ?thesis using assms L by (simp add: createBegin_def)
    next
      case (Some tok)
      then show ?thesis using assms L K [of lang tok] s [of lang tok] by (auto simp: createBegin_def Let_def)
    qed
  qed
qed

lemma finishDrop_slots:
  assumes "Kernels m = Some e" and "slots_are held cap n k (Slots e)" and "kernelCount [s] \<le> k"
  shows "\<exists>m' ops e'. finishDrop S b m s = Some (m', ops) \<and> sessions m' = sessions m \<and> Kernels m' = Some e' \<and>
    slots_are held cap n (k - kernelCount [s]) (Slots e')"
proof (cases "s_k s")
  case None
  then show ?thesis using assms by (simp add: finishDrop_def Let_def)
next
  case (Some c)
  obtain e1 acts where e1: "(if b then (e, []) else kDestroy (s_ID s) e) = (e1, acts)" by (metis surj_pair)
  have "Slots e1 = Slots e" using e1 kDestroy_Slots [of "s_ID s" e] by (cases b) auto
  then obtain l where "Release S (Slots e1) = Some l" "slots_are held cap n (k - 1) l"
    using slots_Release [OF assms(2)] assms(3) Some by auto
  then show ?thesis using assms(1) Some e1 by (simp add: finishDrop_def Let_def)
qed

end
section \<open>The invariant\<close>

text \<open>The slots in use: one per kernel session in the map, in creation or being removed.\<close>

definition slotUsers :: "'s sworld \<Rightarrow> 's manager \<Rightarrow> int" where
  "slotUsers w m = kernelSessions m + kernelCount (inflight w) + kernelCount (map snd (claimed w))"

definition slot_inv :: "('s \<Rightarrow> int) \<Rightarrow> ('s \<Rightarrow> int) \<Rightarrow> int \<Rightarrow> 's sworld \<Rightarrow> bool" where
  "slot_inv held cap n w \<longleftrightarrow> (\<exists>m e. sw_mgr w = Some m \<and> ids_ok w m \<and> Kernels m = Some e \<and>
     slots_are held cap n (slotUsers w m) (Slots e))"

lemma slot_invI:
  "sw_mgr w = Some m \<Longrightarrow> ids_ok w m \<Longrightarrow> Kernels m = Some e \<Longrightarrow> slots_are held cap n k (Slots e) \<Longrightarrow> slotUsers w m = k \<Longrightarrow>
   slot_inv held cap n w"
  by (auto simp: slot_inv_def)

lemma slotUsers_nn: "0 \<le> slotUsers w m"
  by (simp add: slotUsers_def kernelSessions_eq)

lemma slot_inv_upd:
  assumes "slot_inv held cap n w" and "sw_mgr w = Some m" and "\<And>s. s_ID (f s) = s_ID s \<and> s_k (f s) = s_k s"
  shows "slot_inv held cap n (w\<lparr>sw_mgr := Some (updSession sid f m)\<rparr>)"
proof -
  obtain e where e: "ids_ok w m" "Kernels m = Some e" "slots_are held cap n (slotUsers w m) (Slots e)"
    using assms(1,2) by (auto simp: slot_inv_def)
  have "sess_ok m" using e(1) by (simp add: ids_ok_def)
  note k = updSession_keys [OF this assms(3), of sid]
  have i: "ids_ok w (updSession sid f m)" by (rule ids_ok_subset [OF e(1)]) (use k in simp_all)
  show ?thesis
  proof (rule slot_invI)
    show "ids_ok (w\<lparr>sw_mgr := Some (updSession sid f m)\<rparr>) (updSession sid f m)" by (rule ids_ok_cong [OF i]) simp_all
    show "Kernels (updSession sid f m) = Some e" using k e(2) by simp
    show "slotUsers (w\<lparr>sw_mgr := Some (updSession sid f m)\<rparr>) (updSession sid f m) = slotUsers w m"
      using k by (simp add: slotUsers_def)
  qed (use e(3) in simp_all)
qed

lemma slot_inv_engine:
  assumes "slot_inv held cap n w" and "sw_mgr w = Some m" and "Kernels m = Some e" and "Slots e' = Slots e"
  shows "slot_inv held cap n (w\<lparr>sw_mgr := Some (m\<lparr>Kernels := Some e'\<rparr>), reapq := q\<rparr>)"
proof -
  have i: "ids_ok w m" and s: "slots_are held cap n (slotUsers w m) (Slots e)" using assms by (auto simp: slot_inv_def)
  have s': "slots_are held cap n (slotUsers w m) (Slots e')" using s assms(4) by simp
  show ?thesis
    by (rule slot_invI [where m = "m\<lparr>Kernels := Some e'\<rparr>", OF _ ids_ok_cong [OF i] _ s'])
      (simp_all add: slotUsers_def kernelSessions_def)
qed

lemma slot_inv_pend:
  assumes "slot_inv held cap n w" and "sw_mgr w = Some m" and "(sid, s) \<in> set (sessions m)"
  shows "slot_inv held cap n (w\<lparr>pend := insert (b, s) (pend w)\<rparr>)"
proof -
  have "s \<in> snd ` set (sessions m)" using assms(3) by force
  then show ?thesis using assms(1,2) ids_ok_pend [of w m s b] by (auto simp: slot_inv_def slotUsers_def)
qed

context weighted_sem
begin

lemma slstep_create:
  assumes "slot_inv held cap n w" and "sw_mgr w = Some m"
  shows "\<exists>r m' ops. createBegin S E m rt co = Some (r, m', ops) \<and>
    (case r of Inl _ \<Rightarrow> slot_inv held cap n (w\<lparr>sw_mgr := Some m'\<rparr>)
     | Inr s \<Rightarrow> made w (s_ID s) = None \<longrightarrow>
         slot_inv held cap n (w\<lparr>sw_mgr := Some m', inflight := s # inflight w, made := (made w)(s_ID s \<mapsto> s_k s)\<rparr>))"
proof -
  obtain e where e: "ids_ok w m" "Kernels m = Some e" "slots_are held cap n (slotUsers w m) (Slots e)"
    using assms by (auto simp: slot_inv_def)
  obtain r m' ops e' where c: "createBegin S E m rt co = Some (r, m', ops)" "sessions m' = sessions m" "Kernels m' = Some e'"
      "slots_are held cap n (case r of Inl _ \<Rightarrow> slotUsers w m | Inr s' \<Rightarrow> slotUsers w m + kernelCount [s']) (Slots e')"
    using createBegin_slots [OF e(2,3) slotUsers_nn] by blast
  have ks: "kernelSessions m' = kernelSessions m" using c(2) by (simp add: kernelSessions_def)
  show ?thesis
  proof (cases r)
    case (Inl err)
    have "slot_inv held cap n (w\<lparr>sw_mgr := Some m'\<rparr>)"
      by (rule slot_invI [OF _ ids_ok_cong [OF e(1) c(2)] c(3)]) (use c(4) Inl ks in \<open>simp_all add: slotUsers_def\<close>)
    then show ?thesis using c(1) Inl by simp
  next
    case (Inr s)
    have "slot_inv held cap n (w\<lparr>sw_mgr := Some m', inflight := s # inflight w, made := (made w)(s_ID s \<mapsto> s_k s)\<rparr>)"
      if f: "made w (s_ID s) = None"
      by (rule slot_invI [OF _ ids_ok_create [OF e(1) f c(2)] c(3)]) (use c(4) Inr ks in \<open>simp_all add: slotUsers_def algebra_simps\<close>)
    then show ?thesis using c(1) Inr by simp
  qed
qed

lemma slstep_claim:
  assumes "slot_inv held cap n w" and "sw_mgr w = Some m" and "(b, s) \<in> pend w" and "claim (s_ID s) m = (ok, m')"
  shows "slot_inv held cap n (if ok then w\<lparr>sw_mgr := Some m', claimed := (b, s) # claimed w\<rparr> else w\<lparr>sw_mgr := Some m'\<rparr>)"
proof -
  obtain e where e: "ids_ok w m" "Kernels m = Some e" "slots_are held cap n (slotUsers w m) (Slots e)"
    using assms(1,2) by (auto simp: slot_inv_def)
  have m': "m' = m\<lparr>sessions := map_del (s_ID s) (sessions m)\<rparr>" using assms(4) by (auto simp: claim_def)
  have i: "ids_ok w m'" unfolding m' by (rule ids_ok_del [OF e(1)])
  show ?thesis
  proof (cases ok)
    case True
    have "kernelSessions m = kernelSessions m' + kernelCount [s]"
      using kernelSessions_claim [OF e(1) assms(3)] assms(4) True by simp
    then have "slotUsers (w\<lparr>sw_mgr := Some m', claimed := (b, s) # claimed w\<rparr>) m' = slotUsers w m" by (simp add: slotUsers_def)
    then have "slot_inv held cap n (w\<lparr>sw_mgr := Some m', claimed := (b, s) # claimed w\<rparr>)"
      by (intro slot_invI [OF _ ids_ok_cong [OF i] _ e(3)]) (simp_all add: m' e(2))
    then show ?thesis using True by simp
  next
    case False
    then have "map_of (sessions m) (s_ID s) = None" using assms(4) by (auto simp: claim_def)
    then have "sessions m' = sessions m" by (force simp: m' map_del_def map_of_eq_None_iff intro: filter_True)
    then have "slotUsers (w\<lparr>sw_mgr := Some m'\<rparr>) m' = slotUsers w m" by (simp add: slotUsers_def kernelSessions_def)
    then have "slot_inv held cap n (w\<lparr>sw_mgr := Some m'\<rparr>)"
      by (intro slot_invI [OF _ ids_ok_cong [OF i] _ e(3)]) (simp_all add: m' e(2))
    then show ?thesis using False by simp
  qed
qed

lemma slstep_finish:
  assumes "slot_inv held cap n w" and "sw_mgr w = Some m" and "claimed w = xs @ (b, s) # ys"
  shows "slot_inv held cap n (w\<lparr>sw_mgr := map_option fst (finishDrop S b m s), claimed := xs @ ys\<rparr>)"
proof -
  obtain e where e: "ids_ok w m" "Kernels m = Some e" "slots_are held cap n (slotUsers w m) (Slots e)"
    using assms(1,2) by (auto simp: slot_inv_def)
  have "kernelCount [s] \<le> slotUsers w m" using assms(3) by (simp add: slotUsers_def kernelSessions_eq)
  then obtain m' ops e' where f: "finishDrop S b m s = Some (m', ops)" "sessions m' = sessions m" "Kernels m' = Some e'"
      "slots_are held cap n (slotUsers w m - kernelCount [s]) (Slots e')"
    using finishDrop_slots [OF e(2,3)] by blast
  show ?thesis
    by (rule slot_invI [OF _ ids_ok_cong [OF e(1) f(2)] f(3,4)])
      (use f(1,2) assms(3) in \<open>auto simp: slotUsers_def kernelSessions_def\<close>)
qed

lemma slstep_inv: "slstep S w w' \<Longrightarrow> slot_inv held cap n w \<Longrightarrow> slot_inv held cap n w'"
proof (induction rule: slstep.induct)
  case (sl_create w m E rt co s m' ops)
  then show ?case using slstep_create [OF sl_create.prems sl_create.hyps(1), of E rt co] by auto
next
  case (sl_createFail w m E rt co e m' ops)
  then show ?case using slstep_create [OF sl_createFail.prems sl_createFail.hyps(1), of E rt co] by auto
next
  case (sl_createPanic w m E rt co)
  then show ?case using slstep_create [OF sl_createPanic.prems sl_createPanic.hyps(1), of E rt co] by auto
next
  case (sl_insert w m xs s ys)
  then obtain e where e: "ids_ok w m" "Kernels m = Some e" "slots_are held cap n (slotUsers w m) (Slots e)" by (auto simp: slot_inv_def)
  note i = ids_ok_insert [OF e(1) sl_insert.hyps(2), of "Some (createInsert s m)"]
  show ?case by (rule slot_invI [OF _ i [THEN conjunct1] _ e(3)]) (use i e(2) sl_insert.hyps(2) in \<open>auto simp: slotUsers_def\<close>)
next
  case (sl_authed w m sid token tenant s)
  then show ?case using slot_inv_pend
    by (fastforce simp: authed_def split: option.splits if_splits dest!: map_of_SomeD)
next
  case (sl_snapshot w m sid s)
  then show ?case using slot_inv_pend by blast
next
  case (sl_reaped w m sid s)
  then show ?case using slot_inv_pend map_of_SomeD by metis
next
  case (sl_claim w m b s m')
  then show ?case using slstep_claim [of n w m b s True m'] by simp
next
  case (sl_late w m b s m')
  then show ?case using slstep_claim [of n w m b s False m'] by simp
next
  case (sl_finish w m xs b s ys)
  then show ?case using slstep_finish by blast
next
  case (sl_reap w m e now ids e' acts)
  then have "Slots e' = Slots e" using Reap_Slots [of now e] by simp
  from slot_inv_engine [OF sl_reap.prems sl_reap.hyps(1,2) this] show ?case .
next
  case (sl_mounts w m sid token tenant mounts r m')
  have "m' = m \<or> m' = updSession sid (\<lambda>s. s\<lparr>ExtraMounts := mounts\<rparr>) m"
    using sl_mounts.hyps(2) by (auto simp: SetMounts_def split: sum.splits)
  then show ?case
  proof
    assume "m' = m"
    then show ?case using sl_mounts.prems sl_mounts.hyps(1) by (simp add: slot_inv_def ids_ok_def slotUsers_def)
  next
    assume "m' = updSession sid (\<lambda>s. s\<lparr>ExtraMounts := mounts\<rparr>) m"
    then show ?case using slot_inv_upd [OF sl_mounts.prems sl_mounts.hyps(1), of "\<lambda>s. s\<lparr>ExtraMounts := mounts\<rparr>" sid] by simp
  qed
next
  case (sl_kexec w m U M i wr reads now sid token tenant code ms k r snk m' ops)
  show ?case
  proof (cases "m' = m")
    case True
    then show ?thesis using sl_kexec.prems sl_kexec.hyps(1) by (simp add: slot_inv_def ids_ok_def slotUsers_def)
  next
    case False
    then obtain s c e r' e' acts where x: "Kernels m = Some e" "kExec U M i wr reads now e c code ms k = Some (r', snk, e', acts)"
        "m' = updSession sid (touchSession now) (m\<lparr>Kernels := Some e'\<rparr>)"
      using sl_kexec.hyps(2) by (auto simp: KernelExec_def split: sum.splits option.splits)
    have "slot_inv held cap n (w\<lparr>sw_mgr := Some (m\<lparr>Kernels := Some e'\<rparr>), reapq := reapq w\<rparr>)"
      by (rule slot_inv_engine [OF sl_kexec.prems sl_kexec.hyps(1) x(1) kExec_Slots [OF x(2)]])
    from slot_inv_upd [OF this, of _ "touchSession now" sid] show ?thesis by (simp add: x(3) touchSession_def)
  qed
next
  case (sl_touch w m sid now)
  then show ?case using slot_inv_upd [of held cap n w m "touchSession now" sid] by (simp add: touchSession_def)
qed

lemma slreach_inv: "slreach S n w \<Longrightarrow> slot_inv held cap n w"
proof (induction rule: slreach.induct)
  case (sl_start reg sema cf ents m ops g kc ps e acts)
  have e: "Slots e = New S (kc_Slots (cfg e))" using sl_start(2) by (auto simp: NewKernelEngine_def Let_def split: option.splits if_splits)
  have m: "sessions m = []" using sl_start(1) by (auto simp: NewManager_def split: if_splits)
  show ?case
    by (rule slot_invI [where m = "m\<lparr>Kernels := Some e\<rparr>" and e = e and k = 0])
      (use m in \<open>auto simp: ids_ok_def sess_ok_def slotUsers_def kernelSessions_def slots_are_def e New_def New_held New_cap sl_start(3) Let_def\<close>)
next
  case (sl_next w w')
  then show ?case using slstep_inv by blast
qed

end
section \<open>The property\<close>

text \<open>
  C6: Kernel slots are conserved.  However creations, destructions, sweeps, reaps and
  steps interleave, no release panics, and the slots in use are exactly the kernel
  sessions that are in the map, in creation or being torn down: none leaks and none
  is given back twice when several removers race for one session.  So there are
  never more kernels than the configured number of slots.
\<close>
theorem session_slots:
  assumes "weighted_sem S held cap" and "slreach S n w"
  shows "\<exists>m e. sw_mgr w = Some m \<and> Kernels m = Some e \<and>
    InUse (Slots e) = kernelSessions m + kernelCount (inflight w) + kernelCount (map snd (claimed w)) \<and>
    InUse (Slots e) = held (l_sem (Slots e)) \<and> InUse (Slots e) \<le> max 1 n"
proof -
  obtain m e where "sw_mgr w = Some m" "Kernels m = Some e" "slots_are held cap n (slotUsers w m) (Slots e)"
    using weighted_sem.slreach_inv [OF assms] by (auto simp: slot_inv_def)
  then show ?thesis by (simp add: slots_are_def slotUsers_def InUse_def)
qed

definition race_mgr :: "(int \<times> int) manager" where
  "race_mgr = \<lparr>Reg = \<lparr>byKey = (\<lambda>_. Some demo_lang), all = [demo_lang]\<rparr>, Sema = New counter 1, Kernels = None, sm_Root = ''/w'',
     DiskQuota = 1, GlobalDiskMax = 1, MaxSessions = 1, DefaultTTL = 1, sessions = [], sm_used = 0\<rparr>"

definition race_engine :: "(int \<times> int) KernelEngine" where
  "race_engine = \<lparr>cfg = applyDefaults demo_cfg, Slots = New counter 1, gv = NewGvisor, kernels = [], objs = []\<rparr>"

definition race_env :: create_env where
  "race_env = \<lparr>ce_uni = id, ce_rand = Some [], ce_uuid = ''1'', ce_kuuid = ''2'', ce_now = 0, ce_mkdirOk = True,
     ce_slotWaitOver = False, ce_U = (\<lambda>_. Some (demo_frame '''' ''ready'' '''')), ce_harness = [],
     ce_start = \<lparr>ks_stat = None, ks_runOk = True, ks_stdinOk = True, ks_stdoutOk = True, ks_startOk = True,
       ks_ready = ReadyLine [], ks_now = 0\<rparr>\<rparr>"

definition race_opts :: CreateOpts where
  "race_opts = \<lparr>o_TTL = 0, o_ID = ''s'', o_Tenant = '''', o_Type = ''kernel'', o_ExtraMounts = [], o_Network = False\<rparr>"

lemma race_create:
  "\<exists>s m' ops. createBegin counter race_env (race_mgr\<lparr>Kernels := Some race_engine\<rparr>) ''py'' race_opts = Some (Inr s, m', ops) \<and> s_k s \<noteq> None"
  by (simp add: createBegin_def startKernel_def NewKernel_def Acquire_def New_def counter_def race_engine_def awaitReady_def race_env_def
    race_opts_def race_mgr_def demo_frame_def ResolveLang_def mintToken_def newSession_def Let_def)

theorem session_slots_witness:
  "\<exists>w m e. slreach counter 1 w \<and> sw_mgr w = Some m \<and> Kernels m = Some e \<and> InUse (Slots e) = 1"
proof -
  have "NewManager (Reg race_mgr) (Sema race_mgr) \<lparr>c_Root = ''/w'', c_DiskQuota = 1, c_GlobalDiskMax = 1, c_MaxSessions = 1, c_TTL = 1\<rparr>
      True None = Inr (race_mgr, [MkdirAll ''/w''])"
    by (simp add: NewManager_def race_mgr_def)
  moreover have "NewKernelEngine counter (Some NewGvisor) demo_cfg (Some []) = Some (race_engine, sweepOrphanKernels (Some []))"
    "1 = kc_Slots (cfg race_engine)"
    by (simp_all add: NewKernelEngine_def race_engine_def Let_def applyDefaults_def defaultTo_def demo_cfg_def)
  ultimately have st: "slreach counter 1 \<lparr>sw_mgr = Some (race_mgr\<lparr>Kernels := Some race_engine\<rparr>), inflight = [], pend = {}, claimed = [],
      reapq = {}, made = Map.empty\<rparr>" (is "slreach _ _ ?w")
    by (rule sl_start)
  obtain s m' ops where c: "createBegin counter race_env (race_mgr\<lparr>Kernels := Some race_engine\<rparr>) ''py'' race_opts = Some (Inr s, m', ops)"
      "s_k s \<noteq> None" using race_create by blast
  let ?w' = "?w\<lparr>sw_mgr := Some m', inflight := s # inflight ?w, made := (made ?w)(s_ID s \<mapsto> s_k s)\<rparr>"
  have "slstep counter ?w ?w'" by (rule sl_create [OF _ c(1)]) simp_all
  then have r: "slreach counter 1 ?w'" by (rule sl_next [OF st])
  from session_slots [OF cnt.weighted_sem_axioms this]
  obtain m e where "sw_mgr ?w' = Some m" "Kernels m = Some e"
      "InUse (Slots e) = kernelSessions m + kernelCount (inflight ?w') + kernelCount (map snd (claimed ?w'))" "InUse (Slots e) \<le> max 1 1"
    by blast
  moreover from this have "0 \<le> kernelSessions m" by (simp add: kernelSessions_def)
  ultimately have "sw_mgr ?w' = Some m \<and> Kernels m = Some e \<and> InUse (Slots e) = 1" using c(2) by simp
  then show ?thesis using r by blast
qed

end
