(* ===== verification/SessionsApi.thy ===== *)
theory SessionsApi
  imports VolumesApi ExecuteApi SessionSlots
begin

text \<open>
  The session endpoints of \<^verbatim>\<open>internal/api/sessions.go\<close>, over the session manager and
  the volume manager.  The state is the pair of them; when a session is dropped the
  callback of \<^verbatim>\<open>main.go\<close> releases its volume, so the effects a session operation
  returns are applied to the volumes by \<open>applyDrops\<close>.  Decoders, the clock, minted
  ids, the executor and the answers of the host are arguments.  A handler that
  panics is \<open>None\<close>.
\<close>

section \<open>Data\<close>

definition maxSessionUpload :: nat where "maxSessionUpload = 16777216"

record createSessionRequest =
  cs_Runtime :: string
  cs_TTLSec :: int
  cs_VolumeID :: string
  cs_Network :: bool
  cs_Type :: string

definition zeroCreateRequest :: createSessionRequest where
  "zeroCreateRequest = \<lparr>cs_Runtime = [], cs_TTLSec = 0, cs_VolumeID = [], cs_Network = False, cs_Type = []\<rparr>"

record 's sessionServer =
  Sessions :: "'s Session.manager"
  Volumes :: "Volume.manager option"

record sessionEnv =
  se_create :: create_env
  se_vol :: vol_env
  se_host :: host
  se_mint :: string
  se_serr :: "sess_error \<Rightarrow> string"
  se_verr :: "vol_error \<Rightarrow> string"
  se_time :: "int \<Rightarrow> string"

text \<open>\<open>OnDrop\<close> is set to \<open>ReleaseAll\<close> when both managers exist.\<close>

definition applyDrops :: "hostop list \<Rightarrow> Volume.manager option \<Rightarrow> Volume.manager option" where
  "applyDrops ops v = map_option (fold (\<lambda>x m. case x of OnDrop sid \<Rightarrow> ReleaseAll m sid | _ \<Rightarrow> m) ops) v"

definition sessionToken :: "request \<Rightarrow> string" where "sessionToken r = Header_Get r ''X-Session-Token''"

section \<open>Errors\<close>

definition retryAfter :: "string \<Rightarrow> response \<Rightarrow> response" where
  "retryAfter n resp = resp\<lparr>rs_Header := (''Retry-After'', n) # rs_Header resp\<rparr>"

definition jdetail :: "string \<Rightarrow> string \<Rightarrow> json" where
  "jdetail e d = JObj [(''error'', JStr e), (''detail'', JStr d)]"

definition writeCreateSessErr :: "(sess_error \<Rightarrow> string) \<Rightarrow> sess_error \<Rightarrow> response" where
  "writeCreateSessErr errText e =
     (case e of
        sess_error.ErrTooMany \<Rightarrow> retryAfter ''5'' (writeJSON 429 (jerror ''too_many_sessions''))
      | sess_error.ErrDiskFull \<Rightarrow> writeJSON 507 (jdetail ''storage_full'' ''session storage ceiling reached'')
      | ErrKernelDisabled \<Rightarrow> writeJSON 400 (jdetail ''kernel_disabled'' ''kernel sessions are not available on this backend'')
      | ErrKernelBusy \<Rightarrow> retryAfter ''5'' (writeJSON 429 (jdetail ''kernel_busy'' ''no free kernel slot''))
      | _ \<Rightarrow> writeJSON 400 (jdetail ''create_failed'' (errText e)))"

definition writeSessErr :: "(sess_error \<Rightarrow> string) \<Rightarrow> sess_error \<Rightarrow> response" where
  "writeSessErr errText e =
     (case e of
        ErrNotFound \<Rightarrow> writeJSON 404 (jerror ''session_not_found'')
      | ErrForbidden \<Rightarrow> writeJSON 401 (jerror ''invalid_session_token'')
      | ErrCapacity \<Rightarrow> retryAfter ''1'' (writeJSON 429 (jerror ''capacity''))
      | ErrQuota \<Rightarrow> writeJSON 413 (jdetail ''quota_exceeded'' ''workspace disk quota exceeded'')
      | ErrPath \<Rightarrow> writeJSON 400 (jerror ''invalid_path'')
      | ErrIsDir \<Rightarrow> writeJSON 400 (jerror ''is_a_directory'')
      | ErrKernelDisabled \<Rightarrow> writeJSON 400 (jdetail ''kernel_disabled'' ''kernel sessions are not available on this backend'')
      | ErrKernelBusy \<Rightarrow> retryAfter ''5'' (writeJSON 429 (jdetail ''kernel_busy'' ''no free kernel slot''))
      | ErrWrongType \<Rightarrow> writeJSON 409 (jdetail ''wrong_session_type'' ''operation not valid for this session type'')
      | NotExist \<Rightarrow> writeJSON 404 (jerror ''not_found'')
      | _ \<Rightarrow> writeJSON 500 (jdetail ''internal'' (errText e)))"

section \<open>Creation\<close>

definition createSessionResponse :: "sessionEnv \<Rightarrow> Session \<Rightarrow> response" where
  "createSessionResponse E s = writeJSON 201 (JObj [(''id'', JStr (s_ID s)), (''token'', JStr (s_Token s)),
     (''runtime'', JStr (s_Runtime s)), (''type'', JStr (s_Type s)), (''createdAt'', JStr (se_time E (s_CreatedAt s)))])"

definition ttlOf :: "createSessionRequest \<Rightarrow> int" where
  "ttlOf req = wrap64 (cs_TTLSec req * seconds)"

definition memoryMount :: "string \<Rightarrow> Mount" where
  "memoryMount hp = \<lparr>HostPath = hp, Target = ''/memory'', RW = True\<rparr>"

definition createKernelSession :: "'s weighted \<Rightarrow> sessionEnv \<Rightarrow> string \<Rightarrow> createSessionRequest \<Rightarrow> 's sessionServer
    \<Rightarrow> (response \<times> 's sessionServer) option" where
  "createKernelSession S E tenant req st =
     (let sid = MintID (se_mint E);
          create = (\<lambda>extra vols.
            case Session.Create S (se_create E) (Sessions st) (cs_Runtime req)
                \<lparr>o_TTL = ttlOf req, o_ID = sid, o_Tenant = tenant, o_Type = ''kernel'', o_ExtraMounts = extra, o_Network = cs_Network req\<rparr> of
              None \<Rightarrow> None
            | Some (Inl e, m', ops) \<Rightarrow>
                Some (writeCreateSessErr (se_serr E) e,
                  st\<lparr>Sessions := m', Volumes := (if cs_VolumeID req \<noteq> [] then map_option (\<lambda>v. Volume.Release v tenant (cs_VolumeID req) sid) vols else vols)\<rparr>)
            | Some (Inr s, m', ops) \<Rightarrow> Some (createSessionResponse E s, st\<lparr>Sessions := m', Volumes := vols\<rparr>)) in
      if cs_VolumeID req \<noteq> [] then
        (case Volumes st of
           None \<Rightarrow> Some (writeJSON 400 (jerror ''volumes_disabled''), st)
         | Some v \<Rightarrow>
           (case Attach (se_vol E) v tenant (cs_VolumeID req) sid True of
              (Inl e, v') \<Rightarrow> Some (writeVolErr (se_verr E) e, st\<lparr>Volumes := Some v'\<rparr>)
            | (Inr (hp, _), v') \<Rightarrow> create [memoryMount hp] (Some v')))
      else create [] (Volumes st))"

definition rollback :: "'s weighted \<Rightarrow> sessionEnv \<Rightarrow> string \<Rightarrow> Session \<Rightarrow> 's sessionServer \<Rightarrow> 's sessionServer option" where
  "rollback S E tenant s st =
     map_option (\<lambda>(e, m', ops). st\<lparr>Sessions := m', Volumes := applyDrops ops (Volumes st)\<rparr>)
       (Destroy S (se_host E) (Sessions st) (s_ID s) (s_Token s) tenant)"

text \<open>What follows \<open>Create\<close> for a filesystem session: the volume, if one was asked for.\<close>

definition attachVolume :: "'s weighted \<Rightarrow> sessionEnv \<Rightarrow> string \<Rightarrow> string \<Rightarrow> Session \<Rightarrow> 's sessionServer \<Rightarrow> (response \<times> 's sessionServer) option" where
  "attachVolume S E tenant vid s st =
     (case Volumes st of
        None \<Rightarrow> map_option (Pair (writeJSON 400 (jerror ''volumes_disabled''))) (rollback S E tenant s st)
      | Some v \<Rightarrow>
        (case Attach (se_vol E) v tenant vid (s_ID s) True of
           (Inl e, v') \<Rightarrow> map_option (Pair (writeVolErr (se_verr E) e)) (rollback S E tenant s (st\<lparr>Volumes := Some v'\<rparr>))
         | (Inr (hp, _), v') \<Rightarrow>
           (case SetMounts (Sessions st) (s_ID s) (s_Token s) tenant [memoryMount hp] of
              (Some e, m') \<Rightarrow>
                map_option (Pair (writeSessErr (se_serr E) e))
                  (rollback S E tenant s (st\<lparr>Sessions := m', Volumes := Some (Volume.Release v' tenant vid (s_ID s))\<rparr>))
            | (None, m') \<Rightarrow> Some (createSessionResponse E s, st\<lparr>Sessions := m', Volumes := Some v'\<rparr>))))"

definition handleCreateSession :: "'s weighted \<Rightarrow> sessionEnv \<Rightarrow> (bytes \<Rightarrow> createSessionRequest decoded) \<Rightarrow> request \<Rightarrow> ctxt \<Rightarrow> 's sessionServer
    \<Rightarrow> (response \<times> 's sessionServer) option" where
  "handleCreateSession S E decode r c st =
     (case (case decode (rq_Body r) of BadJSON e \<Rightarrow> Inl e | NoJSON \<Rightarrow> Inr zeroCreateRequest | Decoded q \<Rightarrow> Inr q) of
        Inl e \<Rightarrow> Some (writeJSON 400 (jdetail ''invalid_json'' e), st)
      | Inr req \<Rightarrow>
        if cs_Runtime req = [] then Some (writeJSON 400 (jdetail ''runtime_required'' ''see GET /runtimes''), st)
        else reqTenant c (\<lambda>tenant.
          let stype = (if cs_Type req = [] then ''filesystem'' else cs_Type req) in
          if stype = ''kernel'' then createKernelSession S E tenant req st
          else
            (case Session.Create S (se_create E) (Sessions st) (cs_Runtime req)
                \<lparr>o_TTL = ttlOf req, o_ID = [], o_Tenant = tenant, o_Type = stype, o_ExtraMounts = [], o_Network = False\<rparr> of
               None \<Rightarrow> None
             | Some (Inl e, m', ops) \<Rightarrow> Some (writeCreateSessErr (se_serr E) e, st\<lparr>Sessions := m'\<rparr>)
             | Some (Inr s, m', ops) \<Rightarrow>
               if cs_VolumeID req = [] then Some (createSessionResponse E s, st\<lparr>Sessions := m'\<rparr>)
               else attachVolume S E tenant (cs_VolumeID req) s (st\<lparr>Sessions := m'\<rparr>)))
          (\<lambda>resp. Some (resp, st)))"

section \<open>Steps\<close>

record stepEnv =
  st_decode :: "bytes \<Rightarrow> execRequest decoded"
  st_parseFloat :: "string \<Rightarrow> float64"
  st_uni :: "bytes \<Rightarrow> bytes"
  st_flusher :: bool
  st_chunks :: "Spec \<Rightarrow> (bool \<times> bytes) list"
  st_exec :: "Spec \<Rightarrow> Result \<times> string option"
  st_waitOver :: bool
  st_clock :: int
  st_backend :: string
  st_U :: "bytes \<Rightarrow> kResp option"
  st_M :: "string \<Rightarrow> string \<Rightarrow> bytes"
  st_stepID :: string
  st_writeOk :: bool
  st_reads :: "kread list"
  st_serr :: "sess_error \<Rightarrow> string"

definition sseResponse :: "(bool \<times> bytes) list \<Rightarrow> json \<Rightarrow> response" where
  "sseResponse sent ev = \<lparr>rs_Status = 200, rs_Header = [(''Content-Type'', ''text/event-stream''), (''Cache-Control'', ''no-cache''),
       (''X-Accel-Buffering'', ''no'')],
     rs_Body = JArr (map (\<lambda>(isErr, b). sse_event (if isErr then ''stderr'' else ''stdout'') (JObj [(''chunk'', JStr b)])) sent @ [ev]), rs_Raw = []\<rparr>"

definition stepCode :: "execRequest \<Rightarrow> string" where
  "stepCode req = (if q_Code req = [] then (case q_Files req of [] \<Rightarrow> [] | f # _ \<Rightarrow> f_Content f) else q_Code req)"

definition stepMs :: "execRequest \<Rightarrow> int" where
  "stepMs req = (case q_Limits req of None \<Rightarrow> 0 | Some v \<Rightarrow> override (o_WallTimeMs v) 0)"

definition handleKernelExec :: "stepEnv \<Rightarrow> string \<Rightarrow> string \<Rightarrow> string \<Rightarrow> execRequest \<Rightarrow> request \<Rightarrow> 's sessionServer
    \<Rightarrow> (response \<times> 's sessionServer) option" where
  "handleKernelExec E sid token tenant req r st =
     (let code = stepCode req;
          run = KernelExec (st_U E) (st_M E) (st_stepID E) (st_writeOk E) (st_reads E) (st_clock E) (Sessions st) sid token tenant code (stepMs req) in
      if code = [] then Some (writeJSON 400 (jdetail ''no_source'' ''provide `code`''), st)
      else if wantsSSE r then
        (if \<not> st_flusher E then Some (writeJSON 500 (jerror ''streaming_unsupported''), st)
         else map_option (\<lambda>((res, err), sent, m', ops). (sseResponse sent (case err of
             Some e \<Rightarrow> sse_event ''error'' (jerror (st_serr E e))
           | None \<Rightarrow> sse_event ''done'' (JObj [(''backend'', JStr (st_backend E)), (''type'', JStr ''kernel''), (''run'', toRunResult res)])),
             st\<lparr>Sessions := m'\<rparr>)) (run True))
      else map_option (\<lambda>((res, err), sent, m', ops). (case err of
             Some e \<Rightarrow> writeSessErr (st_serr E) e
           | None \<Rightarrow> writeJSON 200 (JObj [(''language'', JStr []), (''version'', JStr []), (''backend'', JStr (st_backend E)), (''run'', toRunResult res)]),
             st\<lparr>Sessions := m'\<rparr>)) (run False))"

definition handleSessionExec :: "'s weighted \<Rightarrow> stepEnv \<Rightarrow> string \<Rightarrow> request \<Rightarrow> ctxt \<Rightarrow> 's sessionServer \<Rightarrow> (response \<times> 's sessionServer) option" where
  "handleSessionExec S E sid r c st = reqTenant c (\<lambda>tenant.
     let token = sessionToken r; m = Sessions st in
     (case IsKernel m sid token tenant of
        Inl e \<Rightarrow> Some (writeSessErr (st_serr E) e, st)
      | Inr isK \<Rightarrow>
        (case st_decode E (rq_Body r) of
           BadJSON e \<Rightarrow> Some (writeJSON 400 (jdetail ''invalid_json'' e), st)
         | NoJSON \<Rightarrow> Some (writeJSON 400 (jdetail ''invalid_json'' ''EOF''), st)
         | Decoded req \<Rightarrow>
           if isK then handleKernelExec E sid token tenant req r st
           else (case Runtime m sid token tenant of
               Inl e \<Rightarrow> Some (writeSessErr (st_serr E) e, st)
             | Inr rt \<Rightarrow>
               (case ResolveLang (st_uni E) (Reg m) rt [] of
                  None \<Rightarrow> Some (writeJSON 500 (jerror ''runtime_gone''), st)
                | Some lang \<Rightarrow>
                  (case buildSpec (st_parseFloat E) lang req of
                     None \<Rightarrow> Some (writeJSON 400 (jdetail ''no_source'' ''provide `code` or `files`''), st)
                   | Some spec \<Rightarrow>
                     (let run = Exec S (st_exec E) (st_waitOver E) (st_clock E) m sid token tenant spec;
                          ident = [(''language'', JStr (r_Name lang)), (''version'', JStr (r_Version lang)), (''backend'', JStr (st_backend E))];
                          warn = (\<lambda>res. if Network spec \<and> \<not> r_Network res then [(''warning'', JStr netWarning)] else []) in
                      if wantsSSE r then
                        (if \<not> st_flusher E then Some (writeJSON 500 (jerror ''streaming_unsupported''), st)
                         else map_option (\<lambda>((res, err), m'). (case err of
                               Some ErrCapacity \<Rightarrow> sseResponse [] (sse_event ''error'' (jerror (st_serr E ErrCapacity)))
                             | Some e \<Rightarrow> sseResponse (case authed m sid token tenant of Inl _ \<Rightarrow> [] | Inr s \<Rightarrow> st_chunks E (stepSpec s spec))
                                           (sse_event ''error'' (jerror (st_serr E e)))
                             | None \<Rightarrow> sseResponse (case authed m sid token tenant of Inl _ \<Rightarrow> [] | Inr s \<Rightarrow> st_chunks E (stepSpec s spec))
                                 (sse_event ''done'' (JObj (ident @ [(''run'', toRunResult res)] @ warn res))),
                             st\<lparr>Sessions := m'\<rparr>)) run)
                      else map_option (\<lambda>((res, err), m'). (case err of
                             Some e \<Rightarrow> writeSessErr (st_serr E) e
                           | None \<Rightarrow> writeJSON 200 (JObj (ident @ [(''run'', toRunResult res)] @ warn res)),
                           st\<lparr>Sessions := m'\<rparr>)) run))))))) (\<lambda>resp. Some (resp, st))"

section \<open>Files\<close>

definition fileJSON :: "(int \<Rightarrow> string) \<Rightarrow> FileInfo \<Rightarrow> json" where
  "fileJSON fmtTime fi = JObj [(''name'', JStr (fi_Name fi)), (''size'', JInt (fi_Size fi)), (''dir'', JBool (fi_Dir fi)),
     (''modTime'', JStr (fmtTime (fi_ModTime fi)))]"

definition handleSessionFSGet :: "sessionEnv \<Rightarrow> string \<Rightarrow> 's sessionServer handler" where
  "handleSessionFSGet E sid r c st = reqTenant c (\<lambda>tenant.
     let token = sessionToken r; p = Query_Get r ''path''; m = Sessions st; h = se_host E in
     (case Stat h m sid token tenant p of
        Inl e \<Rightarrow> (writeSessErr (se_serr E) e, st)
      | Inr fi \<Rightarrow>
        if fi_Dir fi then
          (case ListDir h m sid token tenant p of
             Inl e \<Rightarrow> (writeSessErr (se_serr E) e, st)
           | Inr es \<Rightarrow> (writeJSON 200 (JObj [(''path'', JStr p), (''dir'', JBool True), (''entries'', JArr (map (fileJSON (se_time E)) es))]), st))
        else
          (case ReadFile h m sid token tenant p of
             Inl e \<Rightarrow> (writeSessErr (se_serr E) e, st)
           | Inr d \<Rightarrow> (\<lparr>rs_Status = 200, rs_Header = [(''Content-Type'', ''application/octet-stream'')], rs_Body = JNull, rs_Raw = d\<rparr>, st))))
     (\<lambda>resp. (resp, st))"

definition handleSessionFSPut :: "sessionEnv \<Rightarrow> int \<Rightarrow> string \<Rightarrow> 's sessionServer handler" where
  "handleSessionFSPut E clock sid r c st = reqTenant c (\<lambda>tenant.
     let p = Query_Get r ''path'' in
     if p = [] then (writeJSON 400 (jerror ''path_required''), st)
     else case readBody maxSessionUpload r of
       None \<Rightarrow> (writeJSON 413 (jdetail ''too_large'' ''http: request body too large''), st)
     | Some d \<Rightarrow>
       (case WriteFile (se_host E) clock (Sessions st) sid (sessionToken r) tenant p d of
          (Some e, m', ops) \<Rightarrow> (writeSessErr (se_serr E) e, st\<lparr>Sessions := m'\<rparr>)
        | (None, m', ops) \<Rightarrow> (writeJSON 200 (JObj [(''path'', JStr p), (''bytes'', JInt (int (length d)))]), st\<lparr>Sessions := m'\<rparr>)))
     (\<lambda>resp. (resp, st))"

definition handleSessionFSDelete :: "sessionEnv \<Rightarrow> string \<Rightarrow> 's sessionServer handler" where
  "handleSessionFSDelete E sid r c st = reqTenant c (\<lambda>tenant.
     (case DeletePath (se_host E) (Sessions st) sid (sessionToken r) tenant (Query_Get r ''path'') of
        (Some e, ops) \<Rightarrow> (writeSessErr (se_serr E) e, st)
      | (None, ops) \<Rightarrow> (statusOnly 204, st))) (\<lambda>resp. (resp, st))"

definition handleDestroySession :: "'s weighted \<Rightarrow> sessionEnv \<Rightarrow> string \<Rightarrow> request \<Rightarrow> ctxt \<Rightarrow> 's sessionServer
    \<Rightarrow> (response \<times> 's sessionServer) option" where
  "handleDestroySession S E sid r c st = reqTenant c (\<lambda>tenant.
     map_option (\<lambda>(e, m', ops). (case e of Some x \<Rightarrow> writeSessErr (se_serr E) x | None \<Rightarrow> statusOnly 204,
        st\<lparr>Sessions := m', Volumes := applyDrops ops (Volumes st)\<rparr>))
       (Destroy S (se_host E) (Sessions st) sid (sessionToken r) tenant)) (\<lambda>resp. Some (resp, st))"

end
