(* ===== verification/SessionVolumes.thy ===== *)
theory SessionVolumes
  imports SessionsApi
begin

text \<open>
  Sessions and the volumes they hold.  \<open>hstep\<close> interleaves, at their locks, the
  steps by which \<^verbatim>\<open>sessions.go\<close> attaches a volume to a session and the steps by
  which \<^verbatim>\<open>manager.go\<close> removes a session: a handler is between the attach and the
  moment the session is known to own the volume (\<open>attached\<close>), and a removal has
  claimed a session whose volume it has not released yet (\<open>dropping\<close>).
\<close>

section \<open>Who holds what\<close>

definition vidx :: "Volume.manager \<Rightarrow> bool" where
  "vidx v \<longleftrightarrow> distinct (map fst (vols v)) \<and>
     (\<forall>(k, a) \<in> set (vols v). a < length (heap v) \<and> k = key (Tenant (heap v ! a)) (ID (heap v ! a)))"

definition holds :: "Volume.manager \<Rightarrow> (string \<times> string) set" where
  "holds v = {(k, h). h \<noteq> '''' \<and> (\<exists>a. (k, a) \<in> set (vols v) \<and> rwHolder (heap v ! a) = h)}"

lemma vidx_same:
  assumes "same_volumes v v'" and "vidx v"
  shows "vidx v'"
  using assms(2) same_volumesD(1) [OF assms(1)] same_volumes_key [OF assms(1)] assms(1)
  by (auto simp: vidx_def same_volumes_def)

lemma holds_setHolder:
  assumes "vidx v"
  shows "holds (setHolder a s v) \<subseteq> insert (key (Tenant (heap v ! a)) (ID (heap v ! a)), s) (holds v)"
proof -
  have "vols (setHolder a s v) = vols v" by (simp add: setHolder_def)
  moreover have "(k, b) \<in> set (vols v) \<Longrightarrow> b < length (heap v) \<and> k = key (Tenant (heap v ! b)) (ID (heap v ! b))" for k b
    using assms by (auto simp: vidx_def)
  ultimately show ?thesis by (auto simp: holds_def holder_setHolder)
qed

lemma holds_attachLock:
  assumes "vidx v" and "attachLock v a s = Inr v'"
  shows "vidx v'" and "holds v' \<subseteq> insert (key (Tenant (heap v ! a)) (ID (heap v ! a)), s) (holds v)"
    and "same_volumes v v'"
proof -
  have v': "v' = setHolder a s v" using assms(2) by (auto simp: attachLock_def Let_def split: if_splits)
  show "vidx v'" "same_volumes v v'" using vidx_same [OF same_volumes_setHolder assms(1)] same_volumes_setHolder v' by auto
  show "holds v' \<subseteq> insert (key (Tenant (heap v ! a)) (ID (heap v ! a)), s) (holds v)"
    unfolding v' by (rule holds_setHolder [OF assms(1)])
qed

lemma holds_Release:
  assumes "vidx v"
  shows "vidx (Volume.Release v t i s)" and "holds (Volume.Release v t i s) \<subseteq> holds v - {(key t i, s)}"
proof -
  show "vidx (Volume.Release v t i s)" by (rule vidx_same [OF same_volumes_Release assms])
  have vs: "vols (Volume.Release v t i s) = vols v" using same_volumes_Release [of v t i s] by (simp add: same_volumes_def)
  have d: "distinct (map fst (vols v))" using assms by (simp add: vidx_def)
  show "holds (Volume.Release v t i s) \<subseteq> holds v - {(key t i, s)}"
  proof
    fix x assume "x \<in> holds (Volume.Release v t i s)"
    then obtain k a where x: "x = (k, rwHolder (heap (Volume.Release v t i s) ! a))" "(k, a) \<in> set (vols v)"
        "rwHolder (heap (Volume.Release v t i s) ! a) \<noteq> ''''" by (auto simp: holds_def vs)
    have "a < length (heap v)" using assms x(2) by (auto simp: vidx_def)
    moreover have "map_of (vols v) k = Some a" using d x(2) by simp
    ultimately show "x \<in> holds v - {(key t i, s)}"
      using x by (auto simp: holds_def holder_Release split: if_splits)
  qed
qed

lemma holds_ReleaseAll:
  assumes "vidx v"
  shows "vidx (ReleaseAll v s)" and "holds (ReleaseAll v s) \<subseteq> {(k, h) \<in> holds v. h \<noteq> s}"
proof -
  note f = releaseAll_fold [of s "vols v" v, folded ReleaseAll_def, unfolded Let_def]
  show "vidx (ReleaseAll v s)" by (rule vidx_same [OF f [THEN conjunct1] assms])
  have vs: "vols (ReleaseAll v s) = vols v" using f by (simp add: same_volumes_def)
  show "holds (ReleaseAll v s) \<subseteq> {(k, h) \<in> holds v. h \<noteq> s}"
  proof clarify
    fix k h assume "(k, h) \<in> holds (ReleaseAll v s)"
    then obtain a where a: "h \<noteq> ''''" "(k, a) \<in> set (vols v)" "rwHolder (heap (ReleaseAll v s) ! a) = h" by (auto simp: holds_def vs)
    then have "a < length (heap v)" "a \<in> snd ` set (vols v)" using assms by (auto simp: vidx_def intro: rev_image_eqI)
    then have "rwHolder (heap (ReleaseAll v s) ! a) = (if rwHolder (heap v ! a) = s then '''' else rwHolder (heap v ! a))"
      using f [THEN conjunct2] by simp
    then show "(k, h) \<in> holds v \<and> h \<noteq> s" using a by (auto simp: holds_def split: if_splits)
  qed
qed

lemma holds_sub:
  assumes "vidx v" and "heap v' = heap v" and "set (vols v') \<subseteq> set (vols v)" and "distinct (map fst (vols v'))"
  shows "vidx v'" and "holds v' \<subseteq> holds v"
  using assms by (auto simp: vidx_def holds_def)

lemma holds_addVolume:
  assumes "vidx v" and "rwHolder u = ''''"
  shows "vidx (addVolume u v)" and "holds (addVolume u v) \<subseteq> holds v"
  using assms by (auto simp: vidx_def holds_def addVolume_def in_map_put distinct_map_put nth_append)

lemma holds_Create:
  assumes "vidx v" and "Volume.Create E io u v t nm = (r, v')"
  shows "vidx v' \<and> holds v' \<subseteq> holds v"
  using assms(2)
proof (cases rule: Create_cases)
  case (debris e fs')
  then show ?thesis using assms(1) by (simp add: vidx_def holds_def)
next
  case (made b md fs')
  have "vidx (v\<lparr>vfs := fs'\<rparr>)" "holds (v\<lparr>vfs := fs'\<rparr>) = holds v" using assms(1) by (simp_all add: vidx_def holds_def)
  then show ?thesis using holds_addVolume [of "v\<lparr>vfs := fs'\<rparr>" "volumeOf md"] made by (simp add: volumeOf_def)
qed (use assms(1) in simp)

lemma holds_Delete:
  assumes "vidx v" and "Volume.Delete E v t i = (e, v')"
  shows "vidx v' \<and> holds v' \<subseteq> holds v"
  using assms by (auto simp: Volume.Delete_def deleteLock_def Let_def vidx_def holds_def in_map_del distinct_map_del
    split: sum.splits if_splits)
lemma holds_vfs [simp]: "vidx (v\<lparr>vfs := f\<rparr>) = vidx v" "holds (v\<lparr>vfs := f\<rparr>) = holds v"
    "vidx (v\<lparr>used := n\<rparr>) = vidx v" "holds (v\<lparr>used := n\<rparr>) = holds v"
  by (simp_all add: vidx_def holds_def)

lemma fold_keeps:
  assumes "\<And>x st. P st \<Longrightarrow> P (f x st)" and "P st"
  shows "P (fold f xs st)"
  using assms(2) by (induction xs arbitrary: st) (auto intro: assms(1))

lemma sweepTenant_same: "heap (sweepTenant E known te m) = heap m \<and> vols (sweepTenant E known te m) = vols m"
proof -
  have e: "heap (sweepEntry E known t x m) = heap m \<and> vols (sweepEntry E known t x m) = vols m" for t x and m :: Volume.manager
    by (auto simp: sweepEntry_def split: prod.splits)
  have "heap (fold (sweepEntry E known t) xs m) = heap m \<and> vols (fold (sweepEntry E known t) xs m) = vols m" for t xs
    by (rule fold_keeps [where P = "\<lambda>m'. heap m' = heap m \<and> vols m' = vols m"]) (simp_all add: e)
  then show ?thesis by (simp add: sweepTenant_def split: prod.splits)
qed

lemma holds_Sweep:
  assumes "vidx v"
  shows "vidx (Volume.Sweep E v) \<and> holds (Volume.Sweep E v) \<subseteq> holds v"
proof -
  let ?f = "fold (sweepTenant E (map fst (vols v))) (vfs v) v"
  have f: "heap ?f = heap v \<and> vols ?f = vols v"
    by (rule fold_keeps [where P = "\<lambda>m'. heap m' = heap v \<and> vols m' = vols v"]) (simp_all add: sweepTenant_same)
  have "vidx (dropGone ?f) \<and> holds (dropGone ?f) \<subseteq> holds v"
    using holds_sub [OF assms, of "dropGone ?f"] f assms
    by (auto simp: dropGone_def vidx_def distinct_map_filter)
  then show ?thesis using assms by (simp add: Volume.Sweep_def SweepOrphans_def Let_def)
qed

lemma scan_holds:
  assumes "Volume.NewManager E cf ok fs = Inr v"
  shows "vidx v \<and> holds v = {}"
proof -
  let ?P = "\<lambda>acc. vidx (fst acc) \<and> holds (fst acc) = {}"
  have e: "?P acc \<Longrightarrow> ?P (scanEntry E t x acc)" for t x and acc :: "Volume.manager \<times> int"
    using holds_addVolume [of "fst acc" "volumeOf md" for md]
    by (auto simp: scanEntry_def volumeOf_def split: prod.splits option.splits)
  have en: "?P acc \<Longrightarrow> ?P (fold (scanEntry E t) xs acc)" for t xs and acc :: "Volume.manager \<times> int"
    by (rule fold_keeps [where P = ?P and f = "scanEntry E t"]) (use e in auto)
  have tn: "?P acc \<Longrightarrow> ?P (scanTenant E te acc)" for te and acc :: "Volume.manager \<times> int"
    using en by (cases te) (simp add: scanTenant_def)
  have f: "?P (fold (scanTenant E) fs (v0, 0))" if "vols v0 = []" for v0 and fs
    by (rule fold_keeps [where P = ?P and f = "scanTenant E"]) (use tn that in \<open>auto simp: vidx_def holds_def\<close>)
  have "vidx (scan E v0) \<and> holds (scan E v0) = {}" if "vols v0 = []" for v0
    using f [OF that, of "vfs v0"] that by (auto simp: scan_def case_prod_beta vidx_def holds_def)
  moreover obtain v0 where "v = scan E v0" "vols v0 = []" using assms by (auto simp: Volume.NewManager_def split: if_splits)
  ultimately show ?thesis by blast
qed

section \<open>Interleavings\<close>

record 's hworld =
  hw_s :: "'s Session.manager"
  hw_v :: Volume.manager
  attaching :: "(string \<times> string \<times> string \<times> nat) set"
  attached :: "(string \<times> string \<times> string) set"
  dropping :: "string set"

text \<open>
  \<open>h_kernel\<close> is the insertion of a kernel session whose volume was attached before,
  \<open>h_mounts\<close> the registration of the mount of a filesystem session, \<open>h_release\<close> the
  rollback of either.  The other rules are the insertion of a session, its claim by
  a removal, the drop callback, and the operations of the volume manager.
\<close>

inductive hstep :: "'s hworld \<Rightarrow> 's hworld \<Rightarrow> bool" where
  h_insert: "hstep w (w\<lparr>hw_s := createInsert s (hw_s w)\<rparr>)"
| h_attachPre: "attachPre V (hw_v w) t i sid True = Inr (hp, Some a) \<Longrightarrow>
    hstep w (w\<lparr>attaching := insert (t, i, sid, a) (attaching w)\<rparr>)"
| h_attachLock: "(t, i, sid, a) \<in> attaching w \<Longrightarrow> attachLock (hw_v w) a sid = Inr v' \<Longrightarrow>
    hstep w (w\<lparr>hw_v := v', attached := insert (t, i, sid) (attached w)\<rparr>)"
| h_kernel: "(t, i, s_ID s) \<in> attached w \<Longrightarrow>
    hstep w (w\<lparr>hw_s := createInsert s (hw_s w), attached := attached w - {(t, i, s_ID s)}\<rparr>)"
| h_mounts: "(t, i, sid) \<in> attached w \<Longrightarrow> SetMounts (hw_s w) sid token tenant mounts = (None, m') \<Longrightarrow>
    hstep w (w\<lparr>hw_s := m', attached := attached w - {(t, i, sid)}\<rparr>)"
| h_release: "(t, i, sid) \<in> attached w \<Longrightarrow>
    hstep w (w\<lparr>hw_v := Volume.Release (hw_v w) t i sid, attached := attached w - {(t, i, sid)}\<rparr>)"
| h_claim: "claim sid (hw_s w) = (True, m') \<Longrightarrow> hstep w (w\<lparr>hw_s := m', dropping := insert sid (dropping w)\<rparr>)"
| h_drop: "sid \<in> dropping w \<Longrightarrow> hstep w (w\<lparr>hw_v := ReleaseAll (hw_v w) sid, dropping := dropping w - {sid}\<rparr>)"
| h_touch: "hstep w (w\<lparr>hw_s := updSession sid (touchSession n) (hw_s w)\<rparr>)"
| h_volCreate: "Volume.Create V io u (hw_v w) t nm = (r, v') \<Longrightarrow> hstep w (w\<lparr>hw_v := v'\<rparr>)"
| h_volDelete: "Volume.Delete V (hw_v w) t i = (e, v') \<Longrightarrow> hstep w (w\<lparr>hw_v := v'\<rparr>)"
| h_volSweep: "hstep w (w\<lparr>hw_v := Volume.Sweep V (hw_v w)\<rparr>)"

inductive hreach :: "'s hworld \<Rightarrow> bool" where
  h_start: "Session.NewManager reg sema sc ok1 ents = Inr (m, ops) \<Longrightarrow> Volume.NewManager V vc ok2 fs = Inr v \<Longrightarrow>
    hreach \<lparr>hw_s = m, hw_v = v, attaching = {}, attached = {}, dropping = {}\<rparr>"
| h_next: "hreach w \<Longrightarrow> hstep w w' \<Longrightarrow> hreach w'"

definition ids :: "'s Session.manager \<Rightarrow> string set" where
  "ids m = fst ` set (sessions m)"

definition owned :: "'s hworld \<Rightarrow> string \<times> string \<Rightarrow> bool" where
  "owned w x \<longleftrightarrow> snd x \<in> ids (hw_s w) \<or> snd x \<in> dropping w \<or> (\<exists>t i. (t, i, snd x) \<in> attached w \<and> key t i = fst x)"

definition hold_inv :: "'s hworld \<Rightarrow> bool" where
  "hold_inv w \<longleftrightarrow> vidx (hw_v w) \<and> (\<forall>x \<in> holds (hw_v w). owned w x) \<and>
     (\<forall>(t, i, sid, a) \<in> attaching w. a < length (heap (hw_v w)) \<and> key t i = key (Tenant (heap (hw_v w) ! a)) (ID (heap (hw_v w) ! a)))"

lemma fst_map_del: "fst ` set (map_del k xs) = fst ` set xs - {k}"
  by (auto simp: map_del_def intro: rev_image_eqI)

lemma ids_simps [simp]:
  "ids (createInsert s m) = insert (s_ID s) (ids m)"
  "ids (m\<lparr>sessions := map_del sid (sessions m)\<rparr>) = ids m - {sid}"
  "ids (updSession sid f m) = ids m"
proof -
  have put: "fst ` set (map_put k x xs) = insert k (fst ` set xs)" for k and x :: Session and xs
    using fst_map_del [of k xs] by (auto simp: map_put_def map_del_def)
  show "ids (createInsert s m) = insert (s_ID s) (ids m)" by (simp add: ids_def createInsert_def put)
  show "ids (m\<lparr>sessions := map_del sid (sessions m)\<rparr>) = ids m - {sid}" by (simp add: ids_def fst_map_del)
  show "ids (updSession sid f m) = ids m"
  proof (cases "map_of (sessions m) sid")
    case (Some s)
    then have "sid \<in> fst ` set (sessions m)" by (metis domI dom_map_of_conv_image_fst)
    then show ?thesis using Some by (auto simp: ids_def updSession_def put)
  qed (simp add: updSession_def)
qed
section \<open>The invariant\<close>

lemma owned_mono:
  "owned w x \<Longrightarrow> ids (hw_s w) \<subseteq> ids (hw_s w') \<Longrightarrow> dropping w \<subseteq> dropping w' \<Longrightarrow> attached w \<subseteq> attached w' \<Longrightarrow> owned w' x"
  by (auto simp: owned_def)

lemma attaching_keeps:
  assumes "hold_inv w" and "length (heap v') \<ge> length (heap (hw_v w))"
    and "\<And>a. a < length (heap (hw_v w)) \<Longrightarrow> Tenant (heap v' ! a) = Tenant (heap (hw_v w) ! a) \<and> ID (heap v' ! a) = ID (heap (hw_v w) ! a)"
  shows "\<forall>(t, i, sid, a) \<in> attaching w. a < length (heap v') \<and> key t i = key (Tenant (heap v' ! a)) (ID (heap v' ! a))"
  using assms by (fastforce simp: hold_inv_def)

text \<open>A step of the volume manager that adds no hold.\<close>

lemma hold_inv_vol:
  assumes "hold_inv w" and "vidx v'" and "holds v' \<subseteq> holds (hw_v w)" and "length (heap v') \<ge> length (heap (hw_v w))"
    and "\<And>a. a < length (heap (hw_v w)) \<Longrightarrow> Tenant (heap v' ! a) = Tenant (heap (hw_v w) ! a) \<and> ID (heap v' ! a) = ID (heap (hw_v w) ! a)"
  shows "hold_inv (w\<lparr>hw_v := v'\<rparr>)"
proof -
  have "owned (w\<lparr>hw_v := v'\<rparr>) x" if "x \<in> holds v'" for x
    using assms(1,3) that by (auto simp: hold_inv_def owned_def)
  then show ?thesis using attaching_keeps [OF assms(1,4,5)] assms(2) by (simp add: hold_inv_def)
qed

lemma Create_heap:
  assumes "Volume.Create E io u v t nm = (r, v')"
  shows "length (heap v') \<ge> length (heap v)" and "a < length (heap v) \<Longrightarrow> heap v' ! a = heap v ! a"
  using assms by (cases rule: Create_cases; simp add: addVolume_def nth_append)+

lemma Delete_heap: "Volume.Delete E v t i = (e, v') \<Longrightarrow> heap v' = heap v"
  by (auto simp: Volume.Delete_def deleteLock_def Let_def split: sum.splits if_splits)

lemma Sweep_heap: "heap (Volume.Sweep E v) = heap v"
proof -
  have "heap (fold (sweepTenant E ks) fs v) = heap v" for ks fs
    by (rule fold_keeps [where P = "\<lambda>m'. heap m' = heap v"]) (simp_all add: sweepTenant_same)
  then show ?thesis by (simp add: Volume.Sweep_def SweepOrphans_def Let_def dropGone_def)
qed

lemma hstep_inv: "hstep w w' \<Longrightarrow> hold_inv w \<Longrightarrow> hold_inv w'"
proof (induction rule: hstep.induct)
  case (h_insert w s)
  then show ?case by (auto simp: hold_inv_def owned_def)
next
  case (h_attachPre V w t i sid hp a)
  have "(key t i, a) \<in> set (vols (hw_v w))" using lookup_Inr(3) [OF attachPre_lookup [OF h_attachPre.hyps]] .
  then have "a < length (heap (hw_v w)) \<and> key t i = key (Tenant (heap (hw_v w) ! a)) (ID (heap (hw_v w) ! a))"
    using h_attachPre.prems by (auto simp: hold_inv_def vidx_def)
  then show ?case using h_attachPre.prems by (simp add: hold_inv_def owned_def)
next
  case (h_attachLock t i sid a w v')
  have inv: "vidx (hw_v w)" and k: "key t i = key (Tenant (heap (hw_v w) ! a)) (ID (heap (hw_v w) ! a))"
    using h_attachLock by (auto simp: hold_inv_def)
  note l = holds_attachLock [OF inv h_attachLock.hyps(2)]
  let ?w' = "w\<lparr>hw_v := v', attached := insert (t, i, sid) (attached w)\<rparr>"
  have "owned ?w' x" if "x \<in> holds v'" for x
  proof (cases "x = (key t i, sid)")
    case False
    then have "x \<in> holds (hw_v w)" using that l(2) k by auto
    then have "owned w x" using h_attachLock.prems by (simp add: hold_inv_def)
    then show ?thesis by (rule owned_mono) auto
  qed (simp add: owned_def, blast)
  moreover have "\<forall>(t, i, sid, a) \<in> attaching w. a < length (heap v') \<and> key t i = key (Tenant (heap v' ! a)) (ID (heap v' ! a))"
    by (rule attaching_keeps [OF h_attachLock.prems]) (use same_volumesD(1) [OF l(3)] same_volumes_key [OF l(3)] in auto)
  ultimately show ?case using l(1) by (simp add: hold_inv_def)
next
  case (h_kernel t i s w)
  then show ?case by (auto simp: hold_inv_def owned_def)
next
  case (h_mounts t i sid w token tenant mounts m')
  have "sid \<in> ids (hw_s w)" "ids m' = ids (hw_s w)"
    using h_mounts.hyps(2)
    by (auto simp: SetMounts_def authed_def ids_def [symmetric] split: sum.splits option.splits if_splits dest!: map_of_SomeD)
      (auto simp: ids_def intro: rev_image_eqI)
  then have "owned (w\<lparr>hw_s := m', attached := attached w - {(t, i, sid)}\<rparr>) x" if "owned w x" for x
    using that by (cases "snd x = sid") (auto simp: owned_def)
  then show ?case using h_mounts.prems by (simp add: hold_inv_def)
next
  case (h_release t i sid w)
  have inv: "vidx (hw_v w)" using h_release.prems by (simp add: hold_inv_def)
  note l = holds_Release [OF inv, of t i sid]
  have "owned (w\<lparr>hw_v := Volume.Release (hw_v w) t i sid, attached := attached w - {(t, i, sid)}\<rparr>) x"
    if "x \<in> holds (Volume.Release (hw_v w) t i sid)" for x
  proof -
    have "x \<in> holds (hw_v w)" "x \<noteq> (key t i, sid)" using that l(2) by auto
    then have "owned w x" and n: "\<not> (fst x = key t i \<and> snd x = sid)" using h_release.prems by (auto simp: hold_inv_def prod_eq_iff)
    then consider "snd x \<in> ids (hw_s w)" | "snd x \<in> dropping w" | t' i' where "(t', i', snd x) \<in> attached w" "key t' i' = fst x"
      unfolding owned_def by blast
    then show ?thesis
    proof cases
      case (3 t' i')
      then have "(t', i', snd x) \<noteq> (t, i, sid)" using n by auto
      then show ?thesis using 3 unfolding owned_def by auto
    qed (simp_all add: owned_def)
  qed
  moreover have "\<forall>(t', i', sid', a) \<in> attaching w. a < length (heap (Volume.Release (hw_v w) t i sid)) \<and>
      key t' i' = key (Tenant (heap (Volume.Release (hw_v w) t i sid) ! a)) (ID (heap (Volume.Release (hw_v w) t i sid) ! a))"
    by (rule attaching_keeps [OF h_release.prems])
      (use same_volumesD(1) [OF same_volumes_Release] same_volumes_key [OF same_volumes_Release] in auto)
  ultimately show ?case using l(1) by (simp add: hold_inv_def)
next
  case (h_claim sid w m')
  then show ?case by (auto simp: hold_inv_def owned_def claim_def)
next
  case (h_drop sid w)
  have inv: "vidx (hw_v w)" using h_drop.prems by (simp add: hold_inv_def)
  note l = holds_ReleaseAll [OF inv, of sid]
  have s: "same_volumes (hw_v w) (ReleaseAll (hw_v w) sid)"
    using releaseAll_fold [of sid "vols (hw_v w)" "hw_v w", folded ReleaseAll_def] by (simp add: Let_def)
  have "owned (w\<lparr>hw_v := ReleaseAll (hw_v w) sid, dropping := dropping w - {sid}\<rparr>) x"
    if "x \<in> holds (ReleaseAll (hw_v w) sid)" for x
  proof -
    have "x \<in> holds (hw_v w)" "snd x \<noteq> sid" using that l(2) by auto
    then have "owned w x" "snd x \<noteq> sid" using h_drop.prems by (auto simp: hold_inv_def)
    then show ?thesis unfolding owned_def by auto
  qed
  moreover have "\<forall>(t', i', sid', a) \<in> attaching w. a < length (heap (ReleaseAll (hw_v w) sid)) \<and>
      key t' i' = key (Tenant (heap (ReleaseAll (hw_v w) sid) ! a)) (ID (heap (ReleaseAll (hw_v w) sid) ! a))"
    by (rule attaching_keeps [OF h_drop.prems]) (use same_volumesD(1) [OF s] same_volumes_key [OF s] in auto)
  ultimately show ?case using l(1) by (simp add: hold_inv_def)
next
  case (h_touch w sid n)
  then show ?case by (simp add: hold_inv_def owned_def)
next
  case (h_volCreate V io u w t nm r v')
  have inv: "vidx (hw_v w)" using h_volCreate.prems by (simp add: hold_inv_def)
  then show ?case
    using hold_inv_vol [OF h_volCreate.prems] holds_Create [OF inv h_volCreate.hyps] Create_heap [OF h_volCreate.hyps] by simp
next
  case (h_volDelete V w t i e v')
  have inv: "vidx (hw_v w)" using h_volDelete.prems by (simp add: hold_inv_def)
  then show ?case
    using hold_inv_vol [OF h_volDelete.prems] holds_Delete [OF inv h_volDelete.hyps] Delete_heap [OF h_volDelete.hyps] by simp
next
  case (h_volSweep w V)
  have inv: "vidx (hw_v w)" using h_volSweep.prems by (simp add: hold_inv_def)
  then show ?case using hold_inv_vol [OF h_volSweep.prems] holds_Sweep [OF inv, of V] Sweep_heap [of V "hw_v w"] by simp
qed

lemma hreach_inv: "hreach w \<Longrightarrow> hold_inv w"
proof (induction rule: hreach.induct)
  case (h_start reg sema sc ok1 ents m ops V vc ok2 fs v)
  then show ?case using scan_holds [OF h_start.hyps(2)] by (simp add: hold_inv_def)
next
  case (h_next w w')
  then show ?case using hstep_inv by blast
qed

section \<open>The property\<close>


definition held_world :: "(int \<times> int) hworld" where
  "held_world = \<lparr>hw_s = race_mgr, hw_v = setHolder 0 ''s1'' demo_one, attaching = {(''public'', ''vol_'' @ demo_uuid, ''s1'', 0)},
     attached = {(''public'', ''vol_'' @ demo_uuid, ''s1'')}, dropping = {}\<rparr>"

lemma held_world_reach: "hreach held_world"
proof -
  let ?w = "\<lambda>v ac d. \<lparr>hw_s = race_mgr, hw_v = v, attaching = ac, attached = d, dropping = {}\<rparr>"
  let ?ac = "{(''public'', ''vol_'' @ demo_uuid, ''s1'', 0)}" and ?d = "{(''public'', ''vol_'' @ demo_uuid, ''s1'')}"
  have "Session.NewManager (Reg race_mgr) (manager.Sema race_mgr)
      \<lparr>c_Root = ''/w'', c_DiskQuota = 1, c_GlobalDiskMax = 1, c_MaxSessions = 1, c_TTL = 1\<rparr> True None = Inr (race_mgr, [MkdirAll ''/w''])"
    by (simp add: Session.NewManager_def race_mgr_def)
  from h_start [OF this demo_new] have "hreach (?w demo_start {} {})" .
  from h_next [OF this h_volCreate [of VolumeTheorems.demo_env demo_io demo_uuid]] demo_created have "hreach (?w demo_one {} {})" by simp
  moreover have "attachPre VolumeTheorems.demo_env demo_one ''public'' (''vol_'' @ demo_uuid) ''s1'' True =
      Inr (''/v/public/vol_0a1b2c3d-0000-4000-8000-00000000000a/data'', Some 0)" by code_simp
  ultimately have r: "hreach (?w demo_one ?ac {})" using h_next [OF _ h_attachPre [of VolumeTheorems.demo_env "?w demo_one {} {}"]] by simp
  have "rwHolder (heap demo_one ! 0) = ''''" by code_simp
  then have "attachLock demo_one 0 ''s1'' = Inr (setHolder 0 ''s1'' demo_one)" by (simp add: attachLock_def)
  then have "hstep (?w demo_one ?ac {}) (?w (setHolder 0 ''s1'' demo_one) ?ac ?d)"
    using h_attachLock [of "''public''" "''vol_'' @ demo_uuid" "''s1''" 0 "?w demo_one ?ac {}" "setHolder 0 ''s1'' demo_one"] by simp
  then show ?thesis unfolding held_world_def by (rule h_next [OF r])
qed


end
