(* ===== verification/SessionsApiProps.thy ===== *)
theory SessionsApiProps
  imports SessionVolumes
begin

text \<open>
  What a request to the session endpoints leaves behind: a creation either returns
  a session that owns its volume or leaves sessions and holds as they were, and a
  request without the capability token or from another tenant changes nothing.
\<close>

section \<open>Holds, exactly\<close>

lemma holds_iff:
  assumes "vidx v"
  shows "(k, h) \<in> holds v \<longleftrightarrow> h \<noteq> '''' \<and> (\<exists>a. map_of (vols v) k = Some a \<and> a < length (heap v) \<and> rwHolder (heap v ! a) = h)"
proof -
  have "distinct (map fst (vols v))" and a: "\<And>k a. (k, a) \<in> set (vols v) \<Longrightarrow> a < length (heap v)"
    using assms by (auto simp: vidx_def)
  then have "(k, a) \<in> set (vols v) \<longleftrightarrow> map_of (vols v) k = Some a" for a by simp
  then show ?thesis using a by (auto simp: holds_def)
qed

lemma vidx_key:
  assumes "vidx v" and "map_of (vols v) k = Some a" and "map_of (vols v) k' = Some a"
  shows "k' = k"
proof -
  have "\<And>k. (k, a) \<in> set (vols v) \<Longrightarrow> k = key (Tenant (heap v ! a)) (ID (heap v ! a))" using assms(1) by (auto simp: vidx_def)
  from this [OF map_of_SomeD [OF assms(2)]] this [OF map_of_SomeD [OF assms(3)]] show ?thesis by simp
qed

lemma holds_Release_eq:
  assumes "vidx v"
  shows "holds (Volume.Release v t i s) = holds v - {(key t i, s)}"
proof -
  have e: "vols (Volume.Release v t i s) = vols v" "length (heap (Volume.Release v t i s)) = length (heap v)"
    using same_volumes_Release [of v t i s] same_volumesD(1) [OF same_volumes_Release] by (simp_all add: same_volumes_def)
  have "x \<in> holds (Volume.Release v t i s) \<longleftrightarrow> x \<in> holds v - {(key t i, s)}" for x
    by (cases x) (auto simp: holds_iff [OF assms] holds_iff [OF holds_Release(1) [OF assms]] e holder_Release split: if_splits dest: vidx_key [OF assms])
  then show ?thesis by blast
qed

lemma holds_ReleaseAll_eq:
  assumes "vidx v" and "\<forall>k. (k, s) \<notin> holds v"
  shows "holds (ReleaseAll v s) = holds v" and "vidx (ReleaseAll v s)"
proof -
  note f = releaseAll_fold [of s "vols v" v, folded ReleaseAll_def, unfolded Let_def]
  show v': "vidx (ReleaseAll v s)" by (rule vidx_same [OF f [THEN conjunct1] assms(1)])
  have e: "vols (ReleaseAll v s) = vols v" "length (heap (ReleaseAll v s)) = length (heap v)"
    using f same_volumesD(1) [OF f [THEN conjunct1]] by (simp_all add: same_volumes_def)
  have "rwHolder (heap (ReleaseAll v s) ! a) = rwHolder (heap v ! a)" if "map_of (vols v) k = Some a" "a < length (heap v)" for k a
  proof -
    have "rwHolder (heap v ! a) = s \<Longrightarrow> s = ''''" using assms that by (auto simp: holds_iff)
    then show ?thesis using f [THEN conjunct2] that(2) by auto
  qed
  then have "x \<in> holds (ReleaseAll v s) \<longleftrightarrow> x \<in> holds v" for x
    by (cases x) (auto simp: holds_iff [OF assms(1)] holds_iff [OF v'] e)
  then show "holds (ReleaseAll v s) = holds v" by blast
qed

lemma holds_Attach:
  assumes "vidx v" and "Attach E v t i s True = (r, v')" and "s \<noteq> ''''"
  shows "vidx v'" and "holds v' = (if is_ok r then insert (key t i, s) (holds v) else holds v)"
proof -
  have "vidx v' \<and> holds v' = (if is_ok r then insert (key t i, s) (holds v) else holds v)"
  proof (cases "\<exists>hp a. attachPre E v t i s True = Inr (hp, Some a) \<and> attachLock v a s = Inr v'")
    case True
    then obtain hp a where p: "attachPre E v t i s True = Inr (hp, Some a)" and l: "attachLock v a s = Inr v'" by blast
    have v': "v' = setHolder a s v" "rwHolder (heap v ! a) = '''' \<or> rwHolder (heap v ! a) = s"
      using l by (auto simp: attachLock_def Let_def split: if_splits)
    have m: "map_of (vols v) (key t i) = Some a" using lookup_Inr(4) [OF attachPre_lookup [OF p]] .
    have a: "a < length (heap v)" using assms(1) map_of_SomeD [OF m] by (auto simp: vidx_def)
    have u: "map_of (vols v) k = Some a \<Longrightarrow> k = key t i" for k using vidx_key [OF assms(1) m] by blast
    have w: "vidx v'" using holds_attachLock(1) [OF assms(1) l] .
    have e: "vols v' = vols v" "length (heap v') = length (heap v)" by (simp_all add: v'(1) setHolder_def)
    have h: "b < length (heap v) \<Longrightarrow> rwHolder (heap v' ! b) = (if b = a then s else rwHolder (heap v ! b))" for b
      by (simp add: v'(1) holder_setHolder)
    have "(k, x) \<in> holds v' \<longleftrightarrow> (k, x) \<in> insert (key t i, s) (holds v)" for k x
    proof (cases "map_of (vols v) k = Some a")
      case True
      then show ?thesis using m a v'(2) assms(3) u [OF True] by (auto simp: holds_iff [OF assms(1)] holds_iff [OF w] e h)
    next
      case False
      then have "k \<noteq> key t i" using m by auto
      then show ?thesis using False by (auto simp: holds_iff [OF assms(1)] holds_iff [OF w] e h)
    qed
    then have "holds v' = insert (key t i, s) (holds v)" by (auto simp: set_eq_iff)
    moreover have "is_ok r" using assms(2) p l by (auto simp: Attach_def)
    ultimately show ?thesis using w by simp
  next
    case False
    have "\<not> is_ok r \<and> v' = v" using assms(2) False
      by (auto simp: Attach_def attachPre_def andThen_def split: sum.splits option.splits if_splits prod.splits)
    then show ?thesis using assms(1) by simp
  qed
  then show "vidx v'" and "holds v' = (if is_ok r then insert (key t i, s) (holds v) else holds v)" by auto
qed

section \<open>What Create returns\<close>

lemma startKernel_session:
  "startKernel S E m lang co s = Some (r, m', ops) \<Longrightarrow> sessions m' = sessions m \<and>
   (\<forall>s'. r = Inr s' \<longrightarrow> (\<exists>c. s' = s\<lparr>s_k := Some c\<rparr>))"
  by (auto simp: startKernel_def Let_def split: option.splits prod.splits bool.splits sum.splits)

lemma createBegin_session:
  assumes "createBegin S E m rt co = Some (r, m', ops)"
  shows "sessions m' = sessions m" and "r = Inr s \<Longrightarrow> s_ID s = (if o_ID co \<noteq> [] then o_ID co else MintID (ce_uuid E)) \<and>
    s_Tenant s = o_Tenant co \<and> ExtraMounts s = o_ExtraMounts co"
proof -
  have "(\<exists>e. r = Inl e \<and> m' = m) \<or> (\<exists>lang tok. r = Inr (newSession E m lang co tok) \<and> m' = m) \<or>
      (\<exists>lang tok ops'. startKernel S E m lang co (newSession E m lang co tok) = Some (r, m', ops'))"
  proof (cases "ResolveLang (ce_uni E) (Reg m) rt []")
    case None
    then show ?thesis using assms by (auto simp: createBegin_def)
  next
    case L: (Some lang)
    show ?thesis
    proof (cases "mintToken (ce_rand E)")
      case None
      then show ?thesis using assms L by (auto simp: createBegin_def split: if_splits)
    next
      case (Some tok)
      then show ?thesis using assms L by (auto simp: createBegin_def Let_def split: if_splits)
    qed
  qed
  then consider e where "r = Inl e" "m' = m" | lang tok where "r = Inr (newSession E m lang co tok)" "m' = m"
    | lang tok ops' where "startKernel S E m lang co (newSession E m lang co tok) = Some (r, m', ops')" by blast
  then have "sessions m' = sessions m \<and> (r = Inr s \<longrightarrow> s_ID s = (if o_ID co \<noteq> [] then o_ID co else MintID (ce_uuid E)) \<and>
      s_Tenant s = o_Tenant co \<and> ExtraMounts s = o_ExtraMounts co)" for s
    by cases (auto dest!: startKernel_session simp: newSession_def Let_def)
  then show "sessions m' = sessions m" and "r = Inr s \<Longrightarrow> s_ID s = (if o_ID co \<noteq> [] then o_ID co else MintID (ce_uuid E)) \<and>
    s_Tenant s = o_Tenant co \<and> ExtraMounts s = o_ExtraMounts co" by blast+
qed

lemma Create_session:
  assumes "Session.Create S E m rt co = Some (r, m', ops)"
  shows "r = Inl e \<Longrightarrow> sessions m' = sessions m"
    and "r = Inr s \<Longrightarrow> sessions m' = map_put (s_ID s) s (sessions m) \<and>
      s_ID s = (if o_ID co \<noteq> [] then o_ID co else MintID (ce_uuid E)) \<and> s_Tenant s = o_Tenant co \<and> ExtraMounts s = o_ExtraMounts co"
  using assms createBegin_session [of S E m rt co r] by (auto simp: Session.Create_def createInsert_def)

lemma finishDrop_ops:
  assumes "finishDrop S b m s = Some (m', ops)"
  shows "sessions m' = sessions m" and "applyDrops ops vv = map_option (\<lambda>v. ReleaseAll v (s_ID s)) vv"
proof -
  obtain acts where o: "ops = map Engine acts @ [OnDrop (s_ID s), RemoveAll (Dir (Workspace s))]" and m: "sessions m' = sessions m"
    using assms by (auto simp: finishDrop_def Let_def split: option.splits prod.splits)
  have "fold (\<lambda>x m. case x of OnDrop sid \<Rightarrow> ReleaseAll m sid | _ \<Rightarrow> m) (map Engine acts) v = v" for v
    by (induction acts) simp_all
  then show "sessions m' = sessions m" and "applyDrops ops vv = map_option (\<lambda>v. ReleaseAll v (s_ID s)) vv"
    using m by (simp_all add: applyDrops_def o) (cases vv, simp_all)
qed

lemma rollback_session:
  assumes "rollback S E t s st = Some st'" and "map_of (sessions (Sessions st)) (s_ID s) = Some s" and "s_Tenant s = t"
    and "\<And>v. Volumes st = Some v \<Longrightarrow> vidx v \<and> (\<forall>k. (k, s_ID s) \<notin> holds v)"
  shows "sessions (Sessions st') = map_del (s_ID s) (sessions (Sessions st)) \<and>
    (Volumes st = None \<longrightarrow> Volumes st' = None) \<and>
    (\<forall>v. Volumes st = Some v \<longrightarrow> (\<exists>v'. Volumes st' = Some v' \<and> vidx v' \<and> holds v' = holds v))"
proof -
  let ?m = "Sessions st" and ?m1 = "Sessions st\<lparr>sessions := map_del (s_ID s) (sessions (Sessions st))\<rparr>"
  have a: "authed ?m (s_ID s) (s_Token s) t = Inr s" using assms(2,3) by (simp add: authed_Inr)
  have c: "claim (s_ID s) ?m = (True, ?m1)" using assms(2) by (simp add: claim_def)
  obtain m2 ops where f: "finishDrop S False ?m1 s = Some (m2, ops)" and st': "st' = st\<lparr>Sessions := m2, Volumes := applyDrops ops (Volumes st)\<rparr>"
    using assms(1) a c by (auto simp: rollback_def Destroy_def)
  have r: "Sessions st' = m2" "Volumes st' = map_option (\<lambda>v. ReleaseAll v (s_ID s)) (Volumes st)"
    using finishDrop_ops(2) [OF f] st' by simp_all
  have "\<exists>v'. Volumes st' = Some v' \<and> vidx v' \<and> holds v' = holds v" if "Volumes st = Some v" for v
    using that r(2) assms(4) [OF that] holds_ReleaseAll_eq [of v "s_ID s"] by simp
  then show ?thesis using finishDrop_ops(1) [OF f] r by simp
qed
section \<open>Creation\<close>

definition newID :: "sessionEnv \<Rightarrow> createSessionRequest \<Rightarrow> string" where
  "newID E req = (if cs_Type req = ''kernel'' then MintID (se_mint E) else MintID (ce_uuid (se_create E)))"

definition vholds :: "'s sessionServer \<Rightarrow> (string \<times> string) set" where
  "vholds st = (case Volumes st of None \<Rightarrow> {} | Some v \<Rightarrow> holds v)"

text \<open>A new session: its id is fresh, and its volume, if it asked for one, is held by it and mounted.\<close>

definition created :: "sessionEnv \<Rightarrow> string \<Rightarrow> createSessionRequest \<Rightarrow> 's sessionServer \<Rightarrow> 's sessionServer \<Rightarrow> bool" where
  "created E t req st st' \<longleftrightarrow> (\<exists>s. map_of (sessions (Sessions st')) (newID E req) = Some s \<and> s_Tenant s = t \<and>
     ids (Sessions st') = insert (newID E req) (ids (Sessions st)) \<and>
     (if cs_VolumeID req = [] then vholds st' = vholds st
      else vholds st' = insert (key t (cs_VolumeID req), newID E req) (vholds st) \<and> (\<exists>hp. ExtraMounts s = [memoryMount hp])))"

definition untouched :: "'s sessionServer \<Rightarrow> 's sessionServer \<Rightarrow> bool" where
  "untouched st st' \<longleftrightarrow> ids (Sessions st') = ids (Sessions st) \<and> vholds st' = vholds st"

definition clean :: "sessionEnv \<Rightarrow> createSessionRequest \<Rightarrow> 's sessionServer \<Rightarrow> bool" where
  "clean E req st \<longleftrightarrow> newID E req \<notin> ids (Sessions st) \<and> (\<forall>v. Volumes st = Some v \<longrightarrow> vidx v \<and> (\<forall>k. (k, newID E req) \<notin> holds v))"

lemma MintID_nonempty [simp]: "MintID x \<noteq> ''''"
  by (simp add: MintID_def)

lemma writeCreateSessErr_status: "rs_Status (writeCreateSessErr f e) \<noteq> 201"
  by (cases e) (simp_all add: writeCreateSessErr_def retryAfter_def writeJSON_def)

lemma writeSessErr_status: "rs_Status (writeSessErr f e) \<noteq> 201"
  by (cases e) (simp_all add: writeSessErr_def retryAfter_def writeJSON_def)

lemma writeVolErr_status: "rs_Status (writeVolErr f e) \<noteq> 201"
  by (cases e) (simp_all add: writeVolErr_def writeJSON_def)

lemmas create_status = writeCreateSessErr_status writeSessErr_status writeVolErr_status

lemma ids_map_put: "sessions m' = map_put k s (sessions m) \<Longrightarrow> ids m' = insert k (ids m)"
  using fst_map_del [of k "sessions m"] by (auto simp: ids_def map_put_def map_del_def)

lemma ids_map_del: "sessions m' = map_del k (sessions m) \<Longrightarrow> ids m' = ids m - {k}"
  by (simp add: ids_def fst_map_del)

lemma kernel_created:
  assumes "createKernelSession S E t req st = Some (resp, st')" and "cs_Type req = ''kernel''" and "clean E req st"
  shows "if rs_Status resp = 201 then created E t req st st' else untouched st st'"
proof -
  let ?sid = "MintID (se_mint E)"
  have sid: "newID E req = ?sid" using assms(2) by (simp add: newID_def)
  let ?co = "\<lambda>extra. \<lparr>o_TTL = ttlOf req, o_ID = ?sid, o_Tenant = t, o_Type = ''kernel'', o_ExtraMounts = extra, o_Network = cs_Network req\<rparr>"
  let ?C = "\<lambda>extra. Session.Create S (se_create E) (Sessions st) (cs_Runtime req) (?co extra)"
  have ok: "map_of (sessions m') ?sid = Some s \<and> s_Tenant s = t \<and> ExtraMounts s = extra \<and> ids m' = insert ?sid (ids (Sessions st))"
    if "?C extra = Some (Inr s, m', ops)" for extra s m' ops
  proof -
    have c: "sessions m' = map_put ?sid s (sessions (Sessions st))" "s_Tenant s = t" "ExtraMounts s = extra"
      using Create_session(2) [OF that refl] by auto
    then show ?thesis using ids_map_put [OF c(1)] by (simp add: map_of_map_put)
  qed
  have bad: "ids m' = ids (Sessions st)" if "?C extra = Some (Inl e, m', ops)" for extra e m' ops
    using Create_session(1) [OF that refl] by (simp add: ids_def)
  show ?thesis
  proof (cases "cs_VolumeID req = []")
    case True
    then show ?thesis using assms(1) ok bad create_status
      by (auto simp: createKernelSession_def Let_def created_def untouched_def vholds_def sid createSessionResponse_def writeJSON_def
        split: option.splits prod.splits sum.splits)
  next
    case vol: False
    show ?thesis
    proof (cases "Volumes st")
      case None
      then show ?thesis using assms(1) vol by (auto simp: createKernelSession_def Let_def untouched_def writeJSON_def)
    next
      case (Some v)
      obtain r v' where a: "Attach (se_vol E) v t (cs_VolumeID req) ?sid True = (r, v')" by force
      have cl: "vidx v" "(key t (cs_VolumeID req), ?sid) \<notin> holds v" using assms(3) Some sid by (auto simp: clean_def)
      note h = holds_Attach [OF cl(1) a MintID_nonempty]
      show ?thesis
      proof (cases r)
        case (Inl e)
        then show ?thesis using assms(1) vol Some a h create_status
          by (auto simp: createKernelSession_def Let_def untouched_def vholds_def)
      next
        case (Inr hb)
        obtain hp b where hb: "hb = (hp, b)" by force
        have rel: "holds (Volume.Release v' t (cs_VolumeID req) ?sid) = holds v"
          using holds_Release_eq [OF h(1)] h(2) Inr cl(2) by simp
        show ?thesis
          using assms(1) vol Some a h(2) Inr hb ok bad rel create_status
          by (auto simp: createKernelSession_def Let_def created_def untouched_def vholds_def sid createSessionResponse_def writeJSON_def
            split: option.splits prod.splits sum.splits)
      qed
    qed
  qed
qed
lemma attachVolume_created:
  assumes "attachVolume S E t vid s st = Some (resp, st')" and "map_of (sessions (Sessions st)) (s_ID s) = Some s" and "s_Tenant s = t"
    and "s_ID s \<noteq> ''''" and "\<And>v. Volumes st = Some v \<Longrightarrow> vidx v \<and> (\<forall>k. (k, s_ID s) \<notin> holds v)"
  shows "if rs_Status resp = 201
    then ids (Sessions st') = ids (Sessions st) \<and> vholds st' = insert (key t vid, s_ID s) (vholds st) \<and>
      (\<exists>hp. map_of (sessions (Sessions st')) (s_ID s) = Some (s\<lparr>ExtraMounts := [memoryMount hp]\<rparr>))
    else ids (Sessions st') = ids (Sessions st) - {s_ID s} \<and> vholds st' = vholds st"
proof (cases "Volumes st")
  case None
  obtain st2 where r: "rollback S E t s st = Some st2" "resp = writeJSON 400 (jerror ''volumes_disabled'')" "st' = st2"
    using assms(1) None by (auto simp: attachVolume_def)
  have "sessions (Sessions st2) = map_del (s_ID s) (sessions (Sessions st))" "Volumes st2 = None"
    using rollback_session [OF r(1) assms(2,3)] None by auto
  then show ?thesis using r None ids_map_del by (simp add: writeJSON_def vholds_def)
next
  case (Some v)
  obtain r v' where a: "Attach (se_vol E) v t vid (s_ID s) True = (r, v')" by force
  have cl: "vidx v" "\<forall>k. (k, s_ID s) \<notin> holds v" using assms(5) [OF Some] by auto
  note h = holds_Attach [OF cl(1) a assms(4)]
  have au: "authed (Sessions st) (s_ID s) (s_Token s) t = Inr s" using assms(2,3) by (simp add: authed_Inr)
  show ?thesis
  proof (cases r)
    case (Inl e)
    obtain st2 where r: "rollback S E t s (st\<lparr>Volumes := Some v'\<rparr>) = Some st2" "resp = writeVolErr (se_verr E) e" "st' = st2"
      using assms(1) Some a Inl by (auto simp: attachVolume_def)
    have "sessions (Sessions st2) = map_del (s_ID s) (sessions (Sessions st))" "\<exists>v2. Volumes st2 = Some v2 \<and> holds v2 = holds v'"
      using rollback_session [OF r(1)] assms(2,3) h cl Inl by auto
    then show ?thesis using r Some Inl h create_status ids_map_del [of "Sessions st2" "s_ID s" "Sessions st"] by (auto simp: vholds_def)
  next
    case (Inr hb)
    obtain hp b where hb: "hb = (hp, b)" by force
    let ?m = "updSession (s_ID s) (\<lambda>s. s\<lparr>ExtraMounts := [memoryMount hp]\<rparr>) (Sessions st)"
    have "SetMounts (Sessions st) (s_ID s) (s_Token s) t [memoryMount hp] = (None, ?m)" using au by (simp add: SetMounts_def)
    then have "resp = createSessionResponse E s" "st' = st\<lparr>Sessions := ?m, Volumes := Some v'\<rparr>"
      using assms(1) Some a Inr hb by (simp_all add: attachVolume_def)
    moreover have "map_of (sessions ?m) (s_ID s) = Some (s\<lparr>ExtraMounts := [memoryMount hp]\<rparr>)"
      using assms(2) by (simp add: updSession_def map_of_map_put)
    ultimately show ?thesis using h(2) Inr Some by (auto simp: createSessionResponse_def writeJSON_def vholds_def)
  qed
qed

lemma filesystem_created:
  assumes "Session.Create S (se_create E) (Sessions st) (cs_Runtime req)
      \<lparr>o_TTL = ttlOf req, o_ID = [], o_Tenant = t, o_Type = ty, o_ExtraMounts = [], o_Network = False\<rparr> = Some (r, m', ops)"
    and "cs_Type req \<noteq> ''kernel''" and "clean E req st"
    and "case r of Inl e \<Rightarrow> Some (resp, st') = Some (writeCreateSessErr (se_serr E) e, st\<lparr>Sessions := m'\<rparr>)
      | Inr s \<Rightarrow> (if cs_VolumeID req = [] then Some (createSessionResponse E s, st\<lparr>Sessions := m'\<rparr>)
          else attachVolume S E t (cs_VolumeID req) s (st\<lparr>Sessions := m'\<rparr>)) = Some (resp, st')"
  shows "if rs_Status resp = 201 then created E t req st st' else untouched st st'"
proof (cases r)
  case (Inl e)
  then show ?thesis using assms(4) Create_session(1) [OF assms(1) Inl] create_status by (simp add: untouched_def ids_def vholds_def)
next
  case (Inr s)
  have n: "newID E req = MintID (ce_uuid (se_create E))" using assms(2) by (simp add: newID_def)
  have c: "sessions m' = map_put (s_ID s) s (sessions (Sessions st))" "s_ID s = newID E req" "s_Tenant s = t"
    using Create_session(2) [OF assms(1) Inr] n by auto
  have i: "ids m' = insert (newID E req) (ids (Sessions st))" using ids_map_put [OF c(1)] c(2) by simp
  have m: "map_of (sessions m') (s_ID s) = Some s" using c(1) by (simp add: map_of_map_put)
  show ?thesis
  proof (cases "cs_VolumeID req = []")
    case True
    then have "resp = createSessionResponse E s" "st' = st\<lparr>Sessions := m'\<rparr>" using assms(4) Inr by simp_all
    then show ?thesis using True m i c(2,3) by (auto simp: created_def createSessionResponse_def writeJSON_def vholds_def)
  next
    case False
    then have a: "attachVolume S E t (cs_VolumeID req) s (st\<lparr>Sessions := m'\<rparr>) = Some (resp, st')" using assms(4) Inr by simp
    have nid: "newID E req \<notin> ids (Sessions st)" using assms(3) by (simp add: clean_def)
    have f: "if rs_Status resp = 201
      then ids (Sessions st') = ids m' \<and> vholds st' = insert (key t (cs_VolumeID req), s_ID s) (vholds st) \<and>
        (\<exists>hp. map_of (sessions (Sessions st')) (s_ID s) = Some (s\<lparr>ExtraMounts := [memoryMount hp]\<rparr>))
      else ids (Sessions st') = ids m' - {s_ID s} \<and> vholds st' = vholds st"
    proof -
      have v: "vholds (st\<lparr>Sessions := m'\<rparr>) = vholds st" by (simp add: vholds_def)
      have p: "map_of (sessions (Sessions (st\<lparr>Sessions := m'\<rparr>))) (s_ID s) = Some s" "s_ID s \<noteq> ''''" using m c(2) n by simp_all
      have q: "vidx v \<and> (\<forall>k. (k, s_ID s) \<notin> holds v)" if "Volumes (st\<lparr>Sessions := m'\<rparr>) = Some v" for v
        using assms(3) that c(2) by (simp add: clean_def)
      show ?thesis using attachVolume_created [OF a p(1) c(3) p(2) q] unfolding v by simp
    qed
    show ?thesis
    proof (cases "rs_Status resp = 201")
      case True
      then obtain hp where "map_of (sessions (Sessions st')) (newID E req) = Some (s\<lparr>ExtraMounts := [memoryMount hp]\<rparr>)"
        using f c(2) by auto
      then show ?thesis using True f i c(2,3) False by (auto simp: created_def)
    next
      case bad: False
      then show ?thesis using f i c(2) nid by (auto simp: untouched_def)
    qed
  qed
qed

text \<open>
  C12: Creating a session is all or nothing.  When the answer is 201 the new session
  is in the map under its fresh id, for the caller's tenant, and if a volume was
  asked for, that volume is now held by this session and mounted at /memory; on
  every other answer the sessions and the volume holds are as they were, so a failed
  creation leaks neither a session nor a lock.
\<close>
theorem create_session_atomic:
  assumes "handleCreateSession S E decode r (Some t) st = Some (resp, st')" and "decode (rq_Body r) = Decoded req" and "clean E req st"
  shows "if rs_Status resp = 201 then created E t req st st' else untouched st st'"
proof (cases "cs_Runtime req = [] \<or> t = []")
  case True
  have e: "reqTenant (Some []) k stop = stop noTenant" for k :: "string \<Rightarrow> (response \<times> 'a sessionServer) option" and stop
    by (simp add: reqTenant_def TenantFrom_def)
  have "rs_Status resp \<noteq> 201 \<and> st' = st"
    using assms(1,2) True e by (cases "cs_Runtime req = []") (auto simp: handleCreateSession_def noTenant_def writeJSON_def)
  then show ?thesis by (simp add: untouched_def)
next
  case False
  show ?thesis
  proof (cases "cs_Type req = ''kernel''")
    case True
    then show ?thesis using kernel_created [OF _ True assms(3)] assms(1,2) False by (simp add: handleCreateSession_def)
  next
    case fs: False
    let ?ty = "if cs_Type req = [] then ''filesystem'' else cs_Type req"
    let ?C = "Session.Create S (se_create E) (Sessions st) (cs_Runtime req)
      \<lparr>o_TTL = ttlOf req, o_ID = [], o_Tenant = t, o_Type = ?ty, o_ExtraMounts = [], o_Network = False\<rparr>"
    have h: "handleCreateSession S E decode r (Some t) st = (case ?C of None \<Rightarrow> None
        | Some (Inl e, m', ops) \<Rightarrow> Some (writeCreateSessErr (se_serr E) e, st\<lparr>Sessions := m'\<rparr>)
        | Some (Inr s, m', ops) \<Rightarrow> if cs_VolumeID req = [] then Some (createSessionResponse E s, st\<lparr>Sessions := m'\<rparr>)
            else attachVolume S E t (cs_VolumeID req) s (st\<lparr>Sessions := m'\<rparr>))"
      using assms(2) False fs by (simp add: handleCreateSession_def Let_def)
    obtain x m' ops where c: "?C = Some (x, m', ops)" using assms(1) h by (cases ?C) auto
    show ?thesis by (rule filesystem_created [OF c fs assms(3)]) (use assms(1) h c in \<open>auto split: sum.splits\<close>)
  qed
qed

definition demo_senv :: sessionEnv where
  "demo_senv = \<lparr>se_create = race_env, se_vol = VolumeTheorems.demo_env, se_host = demo_host, se_mint = ''9'',
     se_serr = (\<lambda>_. []), se_verr = (\<lambda>_. []), se_time = (\<lambda>_. [])\<rparr>"

definition demo_server :: "(int \<times> int) sessionServer" where
  "demo_server = \<lparr>Sessions = race_mgr, Volumes = Some demo_one\<rparr>"

definition demo_creq :: createSessionRequest where
  "demo_creq = \<lparr>cs_Runtime = ''py'', cs_TTLSec = 0, cs_VolumeID = ''vol_'' @ demo_uuid, cs_Network = False, cs_Type = []\<rparr>"

lemma demo_vidx: "vidx demo_one \<and> holds demo_one = {}"
proof -
  have "Volume.Create VolumeTheorems.demo_env demo_io demo_uuid demo_start ''public'' '''' = (fst (Volume.Create VolumeTheorems.demo_env demo_io demo_uuid demo_start ''public'' ''''), demo_one)"
    by (simp add: demo_one_def)
  moreover have "vidx demo_start" "holds demo_start = {}" by (simp_all add: vidx_def holds_def demo_start_def)
  ultimately show ?thesis using holds_Create by blast
qed

lemma demo_create:
  "\<exists>s m' ops. Session.Create counter race_env race_mgr ''py''
     \<lparr>o_TTL = 0, o_ID = [], o_Tenant = ''public'', o_Type = ''filesystem'', o_ExtraMounts = [], o_Network = False\<rparr> = Some (Inr s, m', ops)"
  by (simp add: Session.Create_def createBegin_def race_mgr_def race_env_def newSession_def Let_def ResolveLang_def mintToken_def)

lemma demo_attach:
  "\<exists>hp b v'. Attach VolumeTheorems.demo_env demo_one ''public'' (''vol_'' @ demo_uuid) ''sess_1'' True = (Inr (hp, b), v')"
proof -
  have "attachPre VolumeTheorems.demo_env demo_one ''public'' (''vol_'' @ demo_uuid) ''sess_1'' True =
      Inr (''/v/public/vol_0a1b2c3d-0000-4000-8000-00000000000a/data'', Some 0)" "rwHolder (heap demo_one ! 0) = ''''" by code_simp+
  then show ?thesis by (auto simp: Attach_def attachLock_def)
qed

theorem create_session_atomic_witness:
  "\<exists>resp st'. handleCreateSession counter demo_senv (\<lambda>_. Decoded demo_creq) demo_put (Some ''public'') demo_server = Some (resp, st') \<and>
     rs_Status resp = 201 \<and> created demo_senv ''public'' demo_creq demo_server st'"
proof -
  obtain s m' ops where c: "Session.Create counter race_env race_mgr ''py''
     \<lparr>o_TTL = 0, o_ID = [], o_Tenant = ''public'', o_Type = ''filesystem'', o_ExtraMounts = [], o_Network = False\<rparr> = Some (Inr s, m', ops)"
    using demo_create by blast
  have s: "s_ID s = ''sess_1''" "s_Tenant s = ''public''" "map_of (sessions m') ''sess_1'' = Some s"
    using Create_session(2) [OF c refl] by (simp_all add: race_env_def MintID_def map_of_map_put)
  obtain hp b v' where a: "Attach VolumeTheorems.demo_env demo_one ''public'' (''vol_'' @ demo_uuid) ''sess_1'' True = (Inr (hp, b), v')"
    using demo_attach by blast
  have au: "authed m' ''sess_1'' (s_Token s) ''public'' = Inr s" using s by (simp add: authed_Inr)
  have w: "wrap64 0 = 0" by (rule wrap64_id) simp_all
  let ?m = "updSession ''sess_1'' (\<lambda>s. s\<lparr>ExtraMounts := [memoryMount hp]\<rparr>) m'"
  have h: "handleCreateSession counter demo_senv (\<lambda>_. Decoded demo_creq) demo_put (Some ''public'') demo_server =
      Some (createSessionResponse demo_senv s, demo_server\<lparr>Sessions := ?m, Volumes := Some v'\<rparr>)"
    using c a au s by (simp add: handleCreateSession_def attachVolume_def SetMounts_def demo_creq_def demo_server_def demo_senv_def ttlOf_def w)
  have "clean demo_senv demo_creq demo_server"
    using demo_vidx by (simp add: clean_def demo_server_def ids_def race_mgr_def)
  from create_session_atomic [OF h refl this] show ?thesis using h by (simp add: createSessionResponse_def writeJSON_def)
qed
section \<open>Access\<close>

lemma applyDrops_Nil [simp]: "applyDrops [] v = v"
  by (cases v) (simp_all add: applyDrops_def)

text \<open>
  The capability token and the tenant gate the session endpoints.  A request for
  a session that does not exist is answered 404, and one with the wrong token, or
  with the right token from another tenant, 401, on every endpoint of a session; it
  changes neither sessions nor volumes.  (An upload without a path or above the size
  limit is answered 400 or 413 before the check.)
\<close>
theorem session_http_gate:
  assumes "t \<noteq> []" and "\<forall>s. map_of (sessions (Sessions st)) sid = Some s \<longrightarrow> s_Token s \<noteq> sessionToken r \<or> s_Tenant s \<noteq> t"
  defines "denied \<equiv> if map_of (sessions (Sessions st)) sid = None then ErrNotFound else ErrForbidden"
  shows "handleSessionExec S X sid r (Some t) st = Some (writeSessErr (st_serr X) denied, st) \<and>
    handleSessionFSGet E sid r (Some t) st = (writeSessErr (se_serr E) denied, st) \<and>
    handleSessionFSPut E n sid r (Some t) st =
      (if Query_Get r ''path'' = [] then writeJSON 400 (jerror ''path_required'')
       else if length (rq_Body r) > maxSessionUpload then writeJSON 413 (jdetail ''too_large'' ''http: request body too large'')
       else writeSessErr (se_serr E) denied, st) \<and>
    handleSessionFSDelete E sid r (Some t) st = (writeSessErr (se_serr E) denied, st) \<and>
    handleDestroySession S E sid r (Some t) st = Some (writeSessErr (se_serr E) denied, st)"
proof -
  have "authed (Sessions st) sid (sessionToken r) t = Inl denied"
    using assms(1,2) by (auto simp: denied_def authed_def ConstantTimeCompare_eq split: option.splits)
  then show ?thesis using assms(1)
    by (simp add: handleSessionExec_def IsKernel_def handleSessionFSGet_def Stat_def withPath_def andThen_def handleSessionFSPut_def WriteFile_def
      readBody_def handleSessionFSDelete_def DeletePath_def handleDestroySession_def Destroy_def Let_def)
qed

theorem session_http_gate_witness:
  "handleDestroySession counter demo_senv ''sess_1'' demo_put (Some ''t1'') \<lparr>Sessions = demo_manager, Volumes = None\<rparr> =
     Some (writeSessErr (\<lambda>_. []) ErrForbidden, \<lparr>Sessions = demo_manager, Volumes = None\<rparr>)"
proof -
  have "sessionToken demo_put \<noteq> s_Token demo_session" "map_of (sessions demo_manager) ''sess_1'' = Some demo_session"
    by (simp_all add: sessionToken_def Header_Get_def demo_put_def demo_session_def demo_manager_def)
  then show ?thesis
    using session_http_gate [of "''t1''" "\<lparr>Sessions = demo_manager, Volumes = None\<rparr>" "''sess_1''" demo_put counter _ demo_senv]
    by (simp add: demo_senv_def)
qed

end
