(* ===== verification/GoNet.thy ===== *)
theory GoNet
  imports GoText "HOL-Library.Code_Target_Nat"
begin

text \<open>
  What the program uses of Go's package \<^verbatim>\<open>net\<close>: splitting of a host and a port, and
  parsing of IP addresses, with the test for the loopback address.  An address is its
  sixteen bytes, an IPv4 address in its mapped form.
\<close>

fun index :: "char \<Rightarrow> string \<Rightarrow> nat option" where
  "index x [] = None"
| "index x (c # s) = (if c = x then Some 0 else map_option Suc (index x s))"

fun lastIndex :: "char \<Rightarrow> string \<Rightarrow> nat option" where
  "lastIndex x [] = None"
| "lastIndex x (c # s) = (case lastIndex x s of Some n \<Rightarrow> Some (Suc n) | None \<Rightarrow> if c = x then Some 0 else None)"

definition SplitHostPort :: "string \<Rightarrow> (string \<times> string) option" where
  "SplitHostPort hp =
     (case lastIndex CHR '':'' hp of
        None \<Rightarrow> None
      | Some i \<Rightarrow>
        if take 1 hp = ''['' then
          (case index CHR '']'' hp of
             None \<Rightarrow> None
           | Some e \<Rightarrow>
             if e + 1 \<noteq> i then None
             else if CHR ''['' \<in> set (drop 1 hp) \<or> CHR '']'' \<in> set (drop (e + 1) hp) then None
             else Some (take (e - 1) (drop 1 hp), drop (i + 1) hp))
        else
          let host = take i hp in
          if CHR '':'' \<in> set host \<or> CHR ''['' \<in> set hp \<or> CHR '']'' \<in> set hp then None
          else Some (host, drop (i + 1) hp))"

section \<open>Addresses\<close>

definition octet :: "string \<Rightarrow> nat option" where
  "octet f =
     (if f = [] \<or> (length f > 1 \<and> hd f = CHR ''0'') then None
      else case digits_value 0 f of Some v \<Rightarrow> if v \<le> 255 then Some v else None | None \<Rightarrow> None)"

definition parseIPv4 :: "string \<Rightarrow> nat list option" where
  "parseIPv4 s = (let fs = map octet (split_on CHR ''.'' s) in if length fs = 4 \<and> None \<notin> set fs then Some (map the fs) else None)"

definition hexDigit :: "char \<Rightarrow> nat option" where
  "hexDigit c =
     (if between CHR ''0'' CHR ''9'' c then Some (of_char c - 48)
      else if between CHR ''a'' CHR ''f'' c then Some (of_char c - 87)
      else if between CHR ''A'' CHR ''F'' c then Some (of_char c - 55) else None)"

text \<open>A run of at most four hexadecimal digits: how many, their value, and the rest.\<close>

fun hexRun :: "nat \<Rightarrow> nat \<Rightarrow> string \<Rightarrow> (nat \<times> nat \<times> string) option" where
  "hexRun off acc [] = Some (off, acc, [])"
| "hexRun off acc (c # s) =
     (case hexDigit c of
        None \<Rightarrow> Some (off, acc, c # s)
      | Some d \<Rightarrow> if off > 3 then None else hexRun (Suc off) (16 * acc + d) s)"

text \<open>
  The groups of an IPv6 address: \<open>n\<close> more fit, \<open>ip\<close> are the bytes so far and \<open>ell\<close> where
  the ellipsis stood.
\<close>

fun ip6Groups :: "nat \<Rightarrow> nat list \<Rightarrow> nat option \<Rightarrow> string \<Rightarrow> (nat list \<times> nat option \<times> string) option" where
  "ip6Groups 0 ip ell s = Some (ip, ell, s)"
| "ip6Groups (Suc n) ip ell s =
     (case hexRun 0 0 s of
        None \<Rightarrow> None
      | Some (off, acc, rest) \<Rightarrow>
        if off = 0 then None
        else if take 1 rest = ''.'' then
          (if (ell = None \<and> length ip \<noteq> 12) \<or> length ip + 4 > 16 then None
           else map_option (\<lambda>f. (ip @ f, ell, [])) (parseIPv4 s))
        else
          let ip' = ip @ [acc div 256, acc mod 256] in
          (case rest of
             [] \<Rightarrow> Some (ip', ell, [])
           | [c] \<Rightarrow> None
           | c # d # s' \<Rightarrow>
             if c \<noteq> CHR '':'' then None
             else if d = CHR '':'' then
               (if ell \<noteq> None then None
                else if s' = [] then Some (ip', Some (length ip'), [])
                else ip6Groups n ip' (Some (length ip')) s')
             else ip6Groups n ip' ell (d # s')))"

definition parseIPv6 :: "string \<Rightarrow> nat list option" where
  "parseIPv6 s =
     (let lead = (take 2 s = ''::''); s1 = (if lead then drop 2 s else s) in
      if lead \<and> s1 = [] then Some (replicate 16 0)
      else case ip6Groups 8 [] (if lead then Some 0 else None) s1 of
        None \<Rightarrow> None
      | Some (ip, ell, rest) \<Rightarrow>
        if rest \<noteq> [] then None
        else if length ip < 16 then map_option (\<lambda>e. take e ip @ replicate (16 - length ip) 0 @ drop e ip) ell
        else if ell \<noteq> None then None else Some ip)"

definition v4in6 :: "nat list" where "v4in6 = replicate 10 0 @ [255, 255]"

text \<open>An address with a zone is refused by \<open>ParseIP\<close>, so a percent sign always is.\<close>

definition ParseIP :: "string \<Rightarrow> nat list option" where
  "ParseIP s =
     (if CHR ''%'' \<in> set s then None
      else case dropWhile (\<lambda>c. c \<noteq> CHR ''.'' \<and> c \<noteq> CHR '':'') s of
        [] \<Rightarrow> None
      | c # _ \<Rightarrow> if c = CHR ''.'' then map_option ((@) v4in6) (parseIPv4 s) else parseIPv6 s)"

definition IsLoopback :: "nat list \<Rightarrow> bool" where
  "IsLoopback ip = (if take 12 ip = v4in6 then drop 12 (take 13 ip) = [127] else ip = replicate 15 0 @ [1])"

lemma loopback_examples:
  "map_option IsLoopback (ParseIP ''127.0.0.1'') = Some True" "map_option IsLoopback (ParseIP ''::1'') = Some True"
  "map_option IsLoopback (ParseIP ''0:0:0:0:0:0:0:1'') = Some True" "map_option IsLoopback (ParseIP ''::ffff:127.9.9.9'') = Some True"
  "map_option IsLoopback (ParseIP ''10.0.0.1'') = Some False" "map_option IsLoopback (ParseIP ''fe80::1'') = Some False"
  "ParseIP ''127.0.0.01'' = None" "ParseIP ''1::2::3'' = None" "ParseIP ''::1%lo'' = None" "ParseIP ''1:2:3'' = None"
  by code_simp+

lemma split_examples:
  "SplitHostPort ''10.0.0.1:80'' = Some (''10.0.0.1'', ''80'')" "SplitHostPort ''[::1]:80'' = Some (''::1'', ''80'')"
  "SplitHostPort ''::1:80'' = None" "SplitHostPort ''10.0.0.1'' = None" "SplitHostPort ''[::1]'' = None"
  by code_simp+

end
