(* ===== verification/RateLimit.thy ===== *)
theory RateLimit
  imports Http GoNet
begin

text \<open>
  The per-client rate limiter of \<^verbatim>\<open>internal/api/ratelimit.go\<close>.  A token bucket
  (\<^verbatim>\<open>golang.org/x/time/rate\<close>) is a parameter: the record \<open>buckets\<close> has the two calls
  the limiter makes, and the locale \<open>token_bucket\<close> their documented behaviour, a
  bucket of a given size that starts full and refills at a constant rate.  Rates and
  levels are exact rationals.  The clock, in nanoseconds, is an argument.
\<close>

section \<open>The limiter\<close>

record 'l buckets =
  NewLimiter :: "rat \<Rightarrow> int \<Rightarrow> 'l"
  Allow :: "int \<Rightarrow> 'l \<Rightarrow> bool \<times> 'l"

record 'l entry =
  e_lim :: 'l
  e_seen :: int

record 'l ipLimiter =
  clients :: "string \<rightharpoonup> 'l entry"
  il_rate :: rat
  il_burst :: int

definition newIPLimiter :: "int \<Rightarrow> int \<Rightarrow> 'l ipLimiter" where
  "newIPLimiter perMin burst =
     (let perMin = (if perMin \<le> 0 then 30 else perMin); burst = (if burst \<le> 0 then 10 else burst) in
      \<lparr>clients = Map.empty, il_rate = of_int perMin / 60, il_burst = burst\<rparr>)"

definition getLimiter :: "'l buckets \<Rightarrow> int \<Rightarrow> string \<Rightarrow> 'l ipLimiter \<Rightarrow> 'l \<times> 'l ipLimiter" where
  "getLimiter B now ip i =
     (let e = (case clients i ip of Some e \<Rightarrow> e | None \<Rightarrow> \<lparr>e_lim = NewLimiter B (il_rate i) (il_burst i), e_seen = 0\<rparr>) in
      (e_lim e, i\<lparr>clients := (clients i)(ip \<mapsto> e\<lparr>e_seen := now\<rparr>)\<rparr>))"

definition idleLimit :: int where "idleLimit = 15 * 60 * seconds"

text \<open>One tick of the janitor.\<close>

definition janitor :: "int \<Rightarrow> 'l ipLimiter \<Rightarrow> 'l ipLimiter" where
  "janitor now i =
     i\<lparr>clients := (\<lambda>ip. case clients i ip of None \<Rightarrow> None | Some e \<Rightarrow> if now - e_seen e > idleLimit then None else Some e)\<rparr>"

text \<open>The peer of the connection, and the key of its bucket.\<close>

definition peerHost :: "request \<Rightarrow> string" where
  "peerHost r = (case SplitHostPort (rq_RemoteAddr r) of Some (h, _) \<Rightarrow> h | None \<Rightarrow> rq_RemoteAddr r)"

definition clientIP :: "request \<Rightarrow> string" where
  "clientIP r =
     (let host = peerHost r; xr = TrimSpace (Header_Get r ''X-Real-IP'') in
      case ParseIP host of
        Some ip \<Rightarrow> if IsLoopback ip \<and> xr \<noteq> [] then xr else host
      | None \<Rightarrow> host)"

text \<open>The decision \<open>i.get(clientIP(r)).Allow()\<close>; \<open>Allow\<close> updates the bucket the entry points to.\<close>

definition admit :: "'l buckets \<Rightarrow> int \<Rightarrow> request \<Rightarrow> 'l ipLimiter \<Rightarrow> bool \<times> 'l ipLimiter" where
  "admit B now r i =
     (let ip = clientIP r; (lim, i1) = getLimiter B now ip i; (ok, lim') = Allow B now lim in
      (ok, i1\<lparr>clients := (clients i1)(ip \<mapsto> (the (clients i1 ip))\<lparr>e_lim := lim'\<rparr>)\<rparr>))"

definition rateLimited :: response where
  "rateLimited = (writeJSON StatusTooManyRequests (jerror ''rate_limited''))
     \<lparr>rs_Header := [(''Retry-After'', ''1''), (''Content-Type'', ''application/json'')]\<rparr>"

definition middleware :: "'l buckets \<Rightarrow> int \<Rightarrow> 'st handler \<Rightarrow> ('l ipLimiter \<times> 'st) handler" where
  "middleware B now next r c s =
     (case admit B now r (fst s) of
        (False, i') \<Rightarrow> (rateLimited, (i', snd s))
      | (True, i') \<Rightarrow> (case next r c (snd s) of (resp, st') \<Rightarrow> (resp, (i', st'))))"

section \<open>Runs\<close>

text \<open>Requests and janitor ticks in the order of their instants; the run records which requests were let through.\<close>

datatype levent = Arrive int request | Tick int

fun instant :: "levent \<Rightarrow> int" where
  "instant (Arrive t r) = t"
| "instant (Tick t) = t"

definition isTick :: "levent \<Rightarrow> bool" where
  "isTick e = (case e of Tick _ \<Rightarrow> True | Arrive _ _ \<Rightarrow> False)"

lemma isTick_simps [simp]: "isTick (Tick t)" "\<not> isTick (Arrive t r)"
  by (simp_all add: isTick_def)

fun serveAll :: "'l buckets \<Rightarrow> levent list \<Rightarrow> 'l ipLimiter \<Rightarrow> (request \<times> bool) list \<times> 'l ipLimiter" where
  "serveAll B [] i = ([], i)"
| "serveAll B (Arrive t r # es) i =
     (case admit B t r i of (ok, i1) \<Rightarrow> (case serveAll B es i1 of (out, i2) \<Rightarrow> ((r, ok) # out, i2)))"
| "serveAll B (Tick t # es) i = serveAll B es (janitor t i)"

section \<open>The contract of a token bucket\<close>

definition secs :: "int \<Rightarrow> rat" where "secs d = of_int d / of_int seconds"

locale token_bucket =
  fixes B :: "'l buckets" and level :: "'l \<Rightarrow> int \<Rightarrow> rat" and rate_of :: "'l \<Rightarrow> rat" and burst_of :: "'l \<Rightarrow> int"
  assumes new_level: "level (NewLimiter B q b) t = of_int b"
    and new_params: "rate_of (NewLimiter B q b) = q" "burst_of (NewLimiter B q b) = b"
    and refill: "0 \<le> rate_of l \<Longrightarrow> t \<le> t' \<Longrightarrow> level l t' = min (of_int (burst_of l)) (level l t + rate_of l * secs (t' - t))"
    and allow_ok: "fst (Allow B t l) \<longleftrightarrow> 1 \<le> level l t"
    and allow_level: "level (snd (Allow B t l)) t = (if 1 \<le> level l t then level l t - 1 else level l t)"
    and allow_params: "rate_of (snd (Allow B t l)) = rate_of l" "burst_of (snd (Allow B t l)) = burst_of l"

text \<open>A bucket that stores its level at the instant of the last call.\<close>

record bucket =
  b_rate :: rat
  b_burst :: int
  b_tokens :: rat
  b_last :: "int option"

definition bucket_level :: "bucket \<Rightarrow> int \<Rightarrow> rat" where
  "bucket_level l t =
     (case b_last l of
        None \<Rightarrow> of_int (b_burst l)
      | Some t0 \<Rightarrow> min (of_int (b_burst l)) (b_tokens l + b_rate l * secs (t - t0)))"

definition exact_buckets :: "bucket buckets" where
  "exact_buckets = \<lparr>NewLimiter = (\<lambda>q b. \<lparr>b_rate = q, b_burst = b, b_tokens = of_int b, b_last = None\<rparr>),
     Allow = (\<lambda>t l. let v = bucket_level l t; ok = (1 \<le> v) in (ok, l\<lparr>b_tokens := (if ok then v - 1 else v), b_last := Some t\<rparr>))\<rparr>"

lemma secs_add: "secs (a + b) = secs a + secs b" by (simp add: secs_def add_divide_distrib)
lemma secs_nonneg: "0 \<le> a \<Longrightarrow> 0 \<le> secs a" by (simp add: secs_def seconds_def)
lemma secs_zero [simp]: "secs 0 = 0" by (simp add: secs_def)


interpretation exact: token_bucket exact_buckets bucket_level b_rate b_burst
proof unfold_locales
  fix l :: bucket and t t' :: int assume q: "0 \<le> b_rate l" "t \<le> t'"
  have d: "0 \<le> b_rate l * secs (t' - t)" using q by (simp add: secs_nonneg)
  show "bucket_level l t' = min (of_int (b_burst l)) (bucket_level l t + b_rate l * secs (t' - t))"
  proof (cases "b_last l")
    case (Some t0)
    have "b_rate l * secs (t' - t0) = b_rate l * secs (t - t0) + b_rate l * secs (t' - t)"
      using secs_add [of "t - t0" "t' - t"] by (simp add: distrib_left)
    then show ?thesis using d Some by (simp add: bucket_level_def min_def)
  qed (use d in \<open>simp add: bucket_level_def\<close>)
qed (auto simp: exact_buckets_def bucket_level_def Let_def min_def split: option.splits)

section \<open>The level of a client\<close>

text \<open>
  \<open>lev\<close> abstracts the limiter to the tokens each client has: those of its bucket, or a
  full bucket when it has none.  \<open>patient\<close> says that a bucket fills within the time
  after which the janitor forgets it.
\<close>

definition patient :: "'l ipLimiter \<Rightarrow> bool" where
  "patient i \<longleftrightarrow> of_int (il_burst i) \<le> il_rate i * secs idleLimit"

context token_bucket
begin

definition lev :: "'l ipLimiter \<Rightarrow> string \<Rightarrow> int \<Rightarrow> rat" where
  "lev i ip t = (case clients i ip of None \<Rightarrow> of_int (il_burst i) | Some e \<Rightarrow> level (e_lim e) t)"

definition lim_inv :: "int \<Rightarrow> 'l ipLimiter \<Rightarrow> bool" where
  "lim_inv t i \<longleftrightarrow> 0 < il_rate i \<and> 0 < il_burst i \<and>
     (\<forall>ip e. clients i ip = Some e \<longrightarrow> rate_of (e_lim e) = il_rate i \<and> burst_of (e_lim e) = il_burst i \<and>
        e_seen e \<le> t \<and> 0 \<le> level (e_lim e) (e_seen e))"

lemma lim_inv_entry:
  assumes "lim_inv t i" and "clients i ip = Some e"
  shows "rate_of (e_lim e) = il_rate i" "burst_of (e_lim e) = il_burst i" "e_seen e \<le> t" "0 \<le> level (e_lim e) (e_seen e)" "0 < il_rate i"
  using assms by (auto simp: lim_inv_def)

lemma lim_inv_later: "lim_inv t i \<Longrightarrow> t \<le> t' \<Longrightarrow> lim_inv t' i"
  by (fastforce simp: lim_inv_def)

lemma lim_inv_new: "lim_inv t (newIPLimiter perMin burst)"
  by (simp add: lim_inv_def newIPLimiter_def Let_def)

lemma lev_refill:
  assumes "lim_inv t i" and "t \<le> t'"
  shows "lev i ip t' = min (of_int (il_burst i)) (lev i ip t + il_rate i * secs (t' - t))"
proof (cases "clients i ip")
  case None
  have "0 \<le> il_rate i * secs (t' - t)" using assms by (simp add: lim_inv_def secs_nonneg)
  then show ?thesis using None by (simp add: lev_def)
next
  case (Some e)
  note e = lim_inv_entry [OF assms(1) Some]
  show ?thesis using refill [of "e_lim e" t t'] Some e assms(2) by (simp add: lev_def)
qed

lemma lev_bounds:
  assumes "lim_inv t i"
  shows "0 \<le> lev i ip t" "lev i ip t \<le> of_int (il_burst i)"
proof -
  have "0 \<le> lev i ip t \<and> lev i ip t \<le> of_int (il_burst i)"
  proof (cases "clients i ip")
    case (Some e)
    note e = lim_inv_entry [OF assms Some]
    have "0 \<le> il_rate i * secs (t - e_seen e)" using e by (simp add: secs_nonneg)
    then show ?thesis using refill [of "e_lim e" "e_seen e" t] Some e assms by (simp add: lev_def lim_inv_def)
  qed (use assms in \<open>simp add: lev_def lim_inv_def\<close>)
  then show "0 \<le> lev i ip t" "lev i ip t \<le> of_int (il_burst i)" by simp_all
qed

lemma entry_upd: "(e :: 'l entry)\<lparr>e_seen := t, e_lim := x\<rparr> = \<lparr>e_lim = x, e_seen = t\<rparr>"
  by (cases e) simp

lemma admit_eq:
  "\<exists>lim. level lim t = lev i (clientIP r) t \<and> (lim_inv t i \<longrightarrow> rate_of lim = il_rate i \<and> burst_of lim = il_burst i) \<and>
     admit B t r i = (1 \<le> level lim t, i\<lparr>clients := (clients i)(clientIP r \<mapsto> \<lparr>e_lim = snd (Allow B t lim), e_seen = t\<rparr>)\<rparr>)"
proof (cases "clients i (clientIP r)")
  case None
  then show ?thesis
    by (intro exI [of _ "NewLimiter B (il_rate i) (il_burst i)"])
       (auto simp: admit_def getLimiter_def Let_def lev_def new_level new_params allow_ok split_def)
next
  case (Some e)
  then show ?thesis
    by (intro exI [of _ "e_lim e"]) (auto simp: entry_upd admit_def getLimiter_def Let_def lev_def allow_ok lim_inv_def split_def)
qed

lemma admit_lev:
  assumes "lim_inv t i" and "admit B t r i = (ok, i')"
  shows "ok \<longleftrightarrow> 1 \<le> lev i (clientIP r) t" and "lev i' ip t = lev i ip t - (if ok \<and> ip = clientIP r then 1 else 0)"
    and "il_rate i' = il_rate i" "il_burst i' = il_burst i" and "lim_inv t i'"
proof -
  obtain lim where l: "level lim t = lev i (clientIP r) t" "rate_of lim = il_rate i" "burst_of lim = il_burst i"
      "ok \<longleftrightarrow> 1 \<le> level lim t" "i' = i\<lparr>clients := (clients i)(clientIP r \<mapsto> \<lparr>e_lim = snd (Allow B t lim), e_seen = t\<rparr>)\<rparr>"
    using admit_eq [of t i r] assms by auto
  show "ok \<longleftrightarrow> 1 \<le> lev i (clientIP r) t" "il_rate i' = il_rate i" "il_burst i' = il_burst i" using l by simp_all
  show "lev i' ip t = lev i ip t - (if ok \<and> ip = clientIP r then 1 else 0)"
    using l(1,4) by (cases "ip = clientIP r"; cases "clients i ip") (auto simp: l(5) lev_def allow_level)
  have "0 \<le> level (snd (Allow B t lim)) t" using l(1) lev_bounds(1) [OF assms(1)] by (simp add: allow_level)
  then show "lim_inv t i'" using l assms(1) by (auto simp: lim_inv_def allow_params)
qed

lemma janitor_lev:
  assumes "lim_inv t i" and "patient i"
  shows "lev (janitor t i) ip t = lev i ip t" "il_rate (janitor t i) = il_rate i" "il_burst (janitor t i) = il_burst i" "lim_inv t (janitor t i)"
proof -
  show "il_rate (janitor t i) = il_rate i" "il_burst (janitor t i) = il_burst i" by (simp_all add: janitor_def)
  show "lim_inv t (janitor t i)" using assms(1) by (auto simp: lim_inv_def janitor_def split: option.splits if_splits)
  show "lev (janitor t i) ip t = lev i ip t"
  proof (cases "clients i ip")
    case (Some e)
    note e = lim_inv_entry [OF assms(1) Some]
    have "level (e_lim e) t = of_int (il_burst i)" if "t - e_seen e > idleLimit"
    proof -
      have "secs idleLimit \<le> secs (t - e_seen e)" using that by (simp add: secs_def seconds_def divide_right_mono)
      then have "il_rate i * secs idleLimit \<le> il_rate i * secs (t - e_seen e)" using e(5) by (simp add: mult_left_mono)
      then have "of_int (il_burst i) \<le> level (e_lim e) (e_seen e) + il_rate i * secs (t - e_seen e)"
        using e(4) assms(2) unfolding patient_def by linarith
      then show ?thesis using refill [of "e_lim e" "e_seen e" t] e by simp
    qed
    then show ?thesis using Some by (simp add: lev_def janitor_def)
  qed (simp add: lev_def janitor_def)
qed

text \<open>What passes through the limiter is paid for by the tokens the client had and those added since.\<close>

lemma serveAll_count:
  assumes "lim_inv t i" and "patient i" and "sorted (t # map instant es @ [t1])"
  shows "of_nat (length (filter (\<lambda>(r, ok). ok \<and> clientIP r = ip) (fst (serveAll B es i)))) \<le> lev i ip t + il_rate i * secs (t1 - t)"
  using assms
proof (induction es arbitrary: t i)
  case Nil
  then show ?case using lev_bounds(1) [of t i ip] by (simp add: secs_nonneg lim_inv_def)
next
  case (Cons e es)
  let ?t = "instant e"
  have t: "t \<le> ?t" "?t \<le> t1" "sorted (?t # map instant es @ [t1])" using Cons.prems(3) by (auto simp: sorted_append)
  have inv: "lim_inv ?t i" by (rule lim_inv_later [OF Cons.prems(1) t(1)])
  have up: "lev i ip ?t \<le> lev i ip t + il_rate i * secs (?t - t)" using lev_refill [OF Cons.prems(1) t(1)] by simp
  have split: "il_rate i * secs (t1 - t) = il_rate i * secs (?t - t) + il_rate i * secs (t1 - ?t)"
    using secs_add [of "?t - t" "t1 - ?t"] by (simp add: distrib_left)
  show ?case
  proof (cases e)
    case (Arrive u r)
    obtain ok i' where a: "admit B ?t r i = (ok, i')" by fastforce
    note l = admit_lev [OF inv a]
    have "patient i'" using Cons.prems(2) l by (simp add: patient_def)
    from Cons.IH [OF l(5) this t(3)] show ?thesis
      using up split l(2) [of ip] l(3) a Arrive by (auto simp: split_def)
  next
    case (Tick u)
    note l = janitor_lev [OF inv Cons.prems(2)]
    have "patient (janitor ?t i)" using Cons.prems(2) l by (simp add: patient_def)
    from Cons.IH [OF l(4) this t(3)] show ?thesis using up split l Tick by simp
  qed
qed

text \<open>Decisions depend on the levels only, so two limiters with the same levels decide alike.\<close>

definition alike :: "int \<Rightarrow> 'l ipLimiter \<Rightarrow> 'l ipLimiter \<Rightarrow> bool" where
  "alike t i j \<longleftrightarrow> lim_inv t i \<and> lim_inv t j \<and> il_rate i = il_rate j \<and> il_burst i = il_burst j \<and> (\<forall>ip. lev i ip t = lev j ip t)"

lemma alikeD:
  assumes "alike t i j"
  shows "lim_inv t i" "lim_inv t j" "il_rate i = il_rate j" "il_burst i = il_burst j" "lev i ip t = lev j ip t"
  using assms unfolding alike_def by blast+

lemma alike_later:
  assumes "alike t i j" and "t \<le> t'"
  shows "alike t' i j"
proof -
  note d = alikeD [OF assms(1)]
  have "lev i ip t' = lev j ip t'" for ip
    unfolding lev_refill [OF d(1) assms(2)] lev_refill [OF d(2) assms(2)] d(3,4) d(5) [of ip] ..
  then show ?thesis using d(3,4) lim_inv_later [OF d(1) assms(2)] lim_inv_later [OF d(2) assms(2)] by (simp add: alike_def)
qed

lemma alike_admit:
  assumes "alike t i j"
  shows "fst (admit B t r i) = fst (admit B t r j) \<and> alike t (snd (admit B t r i)) (snd (admit B t r j))"
proof -
  obtain oi i' oj j' where a: "admit B t r i = (oi, i')" "admit B t r j = (oj, j')" by fastforce
  note d = alikeD [OF assms]
  note li = admit_lev [OF d(1) a(1)] and lj = admit_lev [OF d(2) a(2)]
  have ok: "oi = oj" using li(1) lj(1) d(5) by metis
  have "lev i' ip t = lev j' ip t" for ip unfolding li(2) lj(2) ok d(5) [of ip] ..
  then have "alike t i' j'" using li(3-5) lj(3-5) d(3,4) by (simp add: alike_def)
  then show ?thesis by (simp add: a ok)
qed

lemma serveAll_alike:
  assumes "alike t i j" and "patient i" and "sorted (t # map instant es)"
  shows "fst (serveAll B es i) = fst (serveAll B (filter (\<lambda>e. \<not> isTick e) es) j)"
  using assms
proof (induction es arbitrary: t i j)
  case (Cons e es)
  let ?t = "instant e"
  have t: "t \<le> ?t" "sorted (?t # map instant es)" using Cons.prems(3) by auto
  have al: "alike ?t i j" by (rule alike_later [OF Cons.prems(1) t(1)])
  note inv = alikeD(1) [OF al]
  show ?case
  proof (cases e)
    case (Arrive u r)
    note a = alike_admit [OF al, of r]
    have "patient (snd (admit B ?t r i))"
      using admit_lev(3,4) [OF inv, of r "fst (admit B ?t r i)" "snd (admit B ?t r i)"] Cons.prems(2) by (simp add: patient_def)
    from Cons.IH [OF conjunct2 [OF a] this t(2)] show ?thesis using a Arrive by (simp add: split_def)
  next
    case (Tick u)
    note l = janitor_lev [OF inv Cons.prems(2)]
    have "alike ?t (janitor ?t i) j" using alikeD [OF al] l by (simp add: alike_def)
    moreover have "patient (janitor ?t i)" using Cons.prems(2) l by (simp add: patient_def)
    ultimately show ?thesis using Cons.IH [OF _ _ t(2)] Tick by simp
  qed
qed simp

lemma serveAll_inv:
  assumes "lim_inv t i" and "patient i" and "sorted (t # map instant es @ [t1])"
  shows "lim_inv t1 (snd (serveAll B es i)) \<and> patient (snd (serveAll B es i)) \<and>
    il_rate (snd (serveAll B es i)) = il_rate i \<and> il_burst (snd (serveAll B es i)) = il_burst i"
  using assms
proof (induction es arbitrary: t i)
  case Nil
  then show ?case using lim_inv_later [of t i t1] by simp
next
  case (Cons e es)
  let ?t = "instant e"
  have t: "t \<le> ?t" "sorted (?t # map instant es @ [t1])" using Cons.prems(3) by auto
  have inv: "lim_inv ?t i" by (rule lim_inv_later [OF Cons.prems(1) t(1)])
  show ?case
  proof (cases e)
    case (Arrive u r)
    obtain ok i' where a: "admit B ?t r i = (ok, i')" by fastforce
    note l = admit_lev [OF inv a]
    have "patient i'" using Cons.prems(2) l by (simp add: patient_def)
    from Cons.IH [OF l(5) this t(2)] show ?thesis using l a Arrive by (simp add: split_def)
  next
    case (Tick u)
    note l = janitor_lev [OF inv Cons.prems(2)]
    have "patient (janitor ?t i)" using Cons.prems(2) l by (simp add: patient_def)
    from Cons.IH [OF l(4) this t(2)] show ?thesis using l Tick by simp
  qed
qed

end
section \<open>Properties\<close>

definition loopback :: "string \<Rightarrow> bool" where
  "loopback h = (case ParseIP h of Some ip \<Rightarrow> IsLoopback ip | None \<Rightarrow> False)"

lemma clientIP_peer: "\<not> loopback (peerHost r) \<Longrightarrow> clientIP r = peerHost r"
  by (auto simp: clientIP_def loopback_def Let_def split: option.splits)


definition demo_peer :: "string \<Rightarrow> request" where
  "demo_peer x = \<lparr>rq_Method = ''POST'', rq_Path = ''/execute'', rq_Header = [''X-Real-IP'' \<mapsto> x], rq_Query = Map.empty,
     rq_Body = [], rq_RemoteAddr = ''9.8.7.6:1''\<rparr>"

lemma demo_patient: "patient (newIPLimiter 1 1)"
  by (simp add: patient_def newIPLimiter_def secs_def idleLimit_def seconds_def)




end
