(* ===== verification/WarmPool.thy ===== *)
theory WarmPool
  imports Gvisor
begin

text \<open>
  The warm pool of \<^verbatim>\<open>internal/executor/warmpool.go\<close>: its construction, the decision
  which jobs it serves, the boot command line, the execution inside a leased
  container, and the pool's life cycle (prime, lease, retire, replenish, close) as
  a step relation over the pool and the set of running containers, with the
  critical sections of the pool's mutex as the atomic steps.
\<close>

section \<open>The pool\<close>

record WarmPool =
  wp_gv :: Gvisor
  wp_size :: int
  wp_image :: string
  memBytes :: int
  wp_cpus :: float64
  wp_pids :: int
  wp_scratchMB :: int
  ready :: "string list"
  wp_closed :: bool

record WarmPoolConfig =
  c_Size :: int
  c_Image :: string
  c_MemBytes :: int
  c_CPUs :: float64
  c_Pids :: int
  c_ScratchMB :: int

definition NewWarmPool :: "Gvisor \<Rightarrow> WarmPoolConfig \<Rightarrow> WarmPool" where
  "NewWarmPool gv cfg =
     \<lparr>wp_gv = gv, wp_size = c_Size cfg, wp_image = c_Image cfg,
      memBytes = orDefault (c_MemBytes cfg) 402653184,
      wp_cpus = (if fle (c_CPUs cfg) (Fin 0) then Fin (3 / 2) else c_CPUs cfg),
      wp_pids = orDefault (c_Pids cfg) 128,
      wp_scratchMB = orDefault (c_ScratchMB cfg) 64,
      ready = [], wp_closed = False\<rparr>"

definition Enabled :: "WarmPool option \<Rightarrow> bool" where
  "Enabled wp = (case wp of None \<Rightarrow> False | Some p \<Rightarrow> wp_size p > 0)"

definition Size :: "WarmPool option \<Rightarrow> int" where
  "Size wp = (case wp of None \<Rightarrow> 0 | Some p \<Rightarrow> wp_size p)"

definition Ready :: "WarmPool option \<Rightarrow> nat" where
  "Ready wp = (case wp of None \<Rightarrow> 0 | Some p \<Rightarrow> length (ready p))"

definition poolable :: "WarmPool \<Rightarrow> Spec \<Rightarrow> bool" where
  "poolable p s \<longleftrightarrow> Enabled (Some p) \<and> Image s = wp_image p \<and> Mounts s = [] \<and> Compile s = [] \<and> \<not> Network s"

definition take_warm :: "WarmPool \<Rightarrow> string option \<times> WarmPool" where
  "take_warm p =
     (if wp_closed p \<or> ready p = [] then (None, p)
      else (Some (last (ready p)), p\<lparr>ready := butlast (ready p)\<rparr>))"

definition bootArgs :: "WarmPool \<Rightarrow> string \<Rightarrow> string list" where
  "bootArgs p name =
     [''run'', ''-d'', ''--name'', name, ''--runtime'', g_Runtime (wp_gv p), ''--network=none'', ''--read-only'', ''--tmpfs'',
      ''/tmp:rw,noexec,nosuid,nodev,size='' @ Itoa (wp_scratchMB p) @ ''m,nr_inodes='' @ Itoa (wrap64 (wp_scratchMB p * 64)),
      ''--memory'', Itoa (memBytes p), ''--memory-swap'', Itoa (memBytes p), ''--cpus'', FormatFloat2 (wp_cpus p),
      ''--pids-limit'', Itoa (wp_pids p), ''--cap-drop=ALL'', ''--security-opt=no-new-privileges'', ''--user='' @ User (wp_gv p),
      ''--cgroup-parent='' @ Slice (wp_gv p), ''--hostname=sandbox'', ''--label'', ''isobox.managed=true'', ''--label'',
      ''isobox.warm=true'', ''--env'', ''HOME=/tmp'', wp_image p, ''sleep'', ''infinity'']"

section \<open>Running a job in a leased container\<close>

definition rewriteBoxPaths :: "string list \<Rightarrow> string list" where
  "rewriteBoxPaths run =
     map (\<lambda>p. if HasPrefix p ''/box/'' then ''/tmp/box/'' @ drop 5 p else if p = ''/box'' then ''/tmp/box'' else p) run"

fun stageFiles :: "(bytes \<Rightarrow> bytes) \<Rightarrow> string \<Rightarrow> File list \<Rightarrow> exec_error option \<times> string \<times> action list" where
  "stageFiles uni jobDir [] = (None, [], [])"
| "stageFiles uni jobDir (f # fs) =
     (let nm = sanitizeName (f_Name f) in
      if nm = [] then stageFiles uni jobDir fs
      else case decodeFile uni f of
        None \<Rightarrow> (Some (DecodeErr (f_Name f)), [], [])
      | Some data \<Rightarrow>
          (case stageFiles uni jobDir fs of (err, script, acts) \<Rightarrow>
             (err, ''printf %s '' @ shQuote (Std_EncodeToString data) @ '' | base64 -d > '' @ shQuote nm @ ''; '' @ script,
              WriteFile (Join [jobDir, nm]) data # acts)))"

definition execArgs :: "exec_env \<Rightarrow> string \<Rightarrow> string \<Rightarrow> Spec \<Rightarrow> string list" where
  "execArgs e name staged s =
     [''exec'', ''-i'', ''-e'', ''HOME=/tmp''] @ concat (map (\<lambda>(k, v). [''-e'', k @ ''='' @ v]) (e_ord e (Env s))) @
     [''-w'', ''/tmp'', name, ''sh'', ''-c'',
      ''set -e; mkdir -p /tmp/box; cd /tmp/box; '' @ staged @ ''exec '' @ shJoin (rewriteBoxPaths (Run s)) @ '' '' @
        [CHR 0x22, CHR ''$'', CHR ''@'', CHR 0x22], ''iso''] @ Argv s"

definition startFailed :: "Result \<Rightarrow> bool" where
  "startFailed res \<longleftrightarrow> \<not> TimedOut res \<and> Stdout res = [] \<and> (ExitCode res = 125 \<or> ExitCode res = 126 \<or> ExitCode res = 127) \<and>
     sublist ''OCI runtime exec failed'' (Stderr res)"

definition warmResult :: "exec_env \<Rightarrow> bool \<Rightarrow> Spec \<Rightarrow> Result" where
  "warmResult e hasSink s =
     (let outW = fst (pump hasSink (e_out e) (new_capWriter (outputLimit s)));
          errW = fst (pump hasSink (e_err e) (new_capWriter (outputLimit s)));
          res1 = zero_Result\<lparr>DurationMs := e_duration e, Stdout := cw_buf outW, Stderr := cw_buf errW,
            Truncated := cw_truncated outW \<or> cw_truncated errW, TimedOut := e_timer e\<rparr>;
          res2 = (case e_exit e of Some c \<Rightarrow> res1\<lparr>ExitCode := c\<rparr> | None \<Rightarrow> res1)
      in if TimedOut res2 then res2\<lparr>ExitCode := 137\<rparr> else res2)"

definition execInto :: "exec_env \<Rightarrow> string \<Rightarrow> Spec \<Rightarrow> bool \<Rightarrow> Result \<times> exec_error option \<times> action list" where
  "execInto e name s hasSink =
     (case e_mkdir e of
        None \<Rightarrow> (zero_Result, Some CreateJobDir, [])
      | Some jobDir \<Rightarrow>
        (let fin = (\<lambda>acts. MkdirTemp jobDir # acts @ [RemoveAll jobDir]) in
         case stageFiles (e_lower e) jobDir (Files s) of
           (Some err, _, acts) \<Rightarrow> (zero_Result, Some err, fin acts)
         | (None, staged, acts) \<Rightarrow>
           if \<not> e_outPipe e \<or> \<not> e_errPipe e then (zero_Result, Some PipeErr, fin acts)
           else if \<not> e_start e then (zero_Result, Some StartErr, fin (acts @ [DockerExec (execArgs e name staged s)]))
           else let res = warmResult e hasSink s;
                    done = fin (acts @ [DockerExec (execArgs e name staged s)] @ (if e_timer e then [DockerKill name] else []))
             in if startFailed res then (res, Some ExecStartFailed, done) else (res, None, done)))"

text \<open>\<open>ew\<close> and \<open>ec\<close> are the environments of the warm attempt and of a cold run.\<close>

definition warmExecute :: "exec_env \<Rightarrow> exec_env \<Rightarrow> WarmPool \<Rightarrow> Spec \<Rightarrow> bool \<Rightarrow> (Result \<times> exec_error option \<times> action list) \<times> WarmPool" where
  "warmExecute ew ec p s hasSink =
     (if hasSink \<or> \<not> poolable p s then (Execute ec (wp_gv p) s hasSink, p)
      else case take_warm p of
        (None, p') \<Rightarrow> (Execute ec (wp_gv p) s hasSink, p')
      | (Some name, p') \<Rightarrow>
          (case execInto ew name s hasSink of
             (res, err, acts) \<Rightarrow>
               if err = Some ExecStartFailed
               then (case Execute ec (wp_gv p) s hasSink of (r, er, a) \<Rightarrow> ((r, er, acts @ a @ [DockerRm name]), p'))
               else ((res, err, acts @ [DockerRm name]), p')))"

section \<open>The life cycle\<close>

record pool_world =
  pool :: WarmPool
  running :: "string set"
  leased :: "string set"
  fresh :: "string set"
  pending :: nat
  jobs :: "string list"
  booted :: "string set"

inductive wp_step :: "pool_world \<Rightarrow> pool_world \<Rightarrow> bool" where
  wp_lease: "take_warm (pool w) = (Some nm, p') \<Longrightarrow>
    wp_step w (w\<lparr>pool := p', leased := insert nm (leased w), jobs := nm # jobs w\<rparr>)"
| wp_retire: "nm \<in> leased w \<Longrightarrow>
    wp_step w (w\<lparr>running := running w - {nm}, leased := leased w - {nm},
      pending := (if wp_closed (pool w) then pending w else pending w + 1)\<rparr>)"
| wp_boot: "pending w > 0 \<Longrightarrow> nm \<notin> booted w \<Longrightarrow>
    wp_step w (w\<lparr>running := insert nm (running w), fresh := insert nm (fresh w), booted := insert nm (booted w),
      pending := pending w - 1\<rparr>)"
| wp_boot_fail: "pending w > 0 \<Longrightarrow> wp_step w (w\<lparr>pending := pending w - 1\<rparr>)"
| wp_publish: "nm \<in> fresh w \<Longrightarrow> \<not> wp_closed (pool w) \<Longrightarrow>
    wp_step w (w\<lparr>pool := (pool w)\<lparr>ready := ready (pool w) @ [nm]\<rparr>, fresh := fresh w - {nm}\<rparr>)"
| wp_discard: "nm \<in> fresh w \<Longrightarrow> wp_closed (pool w) \<Longrightarrow>
    wp_step w (w\<lparr>running := running w - {nm}, fresh := fresh w - {nm}\<rparr>)"
| wp_close: "wp_step w (w\<lparr>pool := (pool w)\<lparr>wp_closed := True, ready := []\<rparr>, running := running w - set (ready (pool w))\<rparr>)"

text \<open>\<open>Prime\<close> runs before any request: it boots up to \<open>size\<close> containers with distinct names.\<close>

definition Prime :: "WarmPool \<Rightarrow> string option list \<Rightarrow> WarmPool" where
  "Prime p boots = (if \<not> Enabled (Some p) then p
     else p\<lparr>ready := ready p @ List.map_filter id (take (nat (wp_size p)) boots)\<rparr>)"

definition primed :: "WarmPool \<Rightarrow> string option list \<Rightarrow> pool_world" where
  "primed p boots = \<lparr>pool = Prime p boots, running = set (ready (Prime p boots)), leased = {}, fresh = {}, pending = 0, jobs = [],
     booted = set (ready (Prime p boots))\<rparr>"

inductive wp_reach :: "WarmPool \<Rightarrow> string option list \<Rightarrow> pool_world \<Rightarrow> bool" for p boots where
  wp_start: "ready p = [] \<Longrightarrow> \<not> wp_closed p \<Longrightarrow> distinct (List.map_filter id boots) \<Longrightarrow> wp_reach p boots (primed p boots)"
| wp_next: "wp_reach p boots w \<Longrightarrow> wp_step w w' \<Longrightarrow> wp_reach p boots w'"

section \<open>Lemmas\<close>

definition wp_inv :: "pool_world \<Rightarrow> bool" where
  "wp_inv w \<longleftrightarrow> running w = set (ready (pool w)) \<union> leased w \<union> fresh w \<and>
     set (ready (pool w)) \<inter> leased w = {} \<and> set (ready (pool w)) \<inter> fresh w = {} \<and> leased w \<inter> fresh w = {} \<and>
     distinct (ready (pool w)) \<and> running w \<subseteq> booted w \<and> set (jobs w) \<subseteq> booted w \<and> distinct (jobs w) \<and>
     set (jobs w) \<inter> (set (ready (pool w)) \<union> fresh w) = {} \<and> leased w \<subseteq> set (jobs w) \<and>
     (wp_closed (pool w) \<longrightarrow> ready (pool w) = [])"

lemma take_warm_Some:
  assumes "take_warm p = (Some nm, p')"
  shows "ready p = ready p' @ [nm] \<and> \<not> wp_closed p \<and> wp_closed p' = wp_closed p"
  using assms by (auto simp: take_warm_def split: if_splits)

lemma distinct_map_filter_take: "distinct (List.map_filter id xs) \<Longrightarrow> distinct (List.map_filter id (take k xs))"
proof -
  assume "distinct (List.map_filter id xs)"
  moreover have "List.map_filter id (ys @ zs) = List.map_filter id ys @ List.map_filter id zs" for ys zs :: "'a option list"
    by (simp add: List.map_filter_def)
  then have "List.map_filter id xs = List.map_filter id (take k xs) @ List.map_filter id (drop k xs)"
    by (metis append_take_drop_id)
  ultimately show ?thesis by simp
qed

lemma wp_inv_primed:
  "ready p = [] \<Longrightarrow> \<not> wp_closed p \<Longrightarrow> distinct (List.map_filter id boots) \<Longrightarrow> wp_inv (primed p boots)"
  by (auto simp: wp_inv_def primed_def Prime_def distinct_map_filter_take)

lemma wp_inv_step: "wp_step w w' \<Longrightarrow> wp_inv w \<Longrightarrow> wp_inv w'"
proof (induction rule: wp_step.induct)
  case (wp_lease w nm p')
  note t = take_warm_Some [OF wp_lease.hyps]
  show ?case using wp_lease.prems t unfolding wp_inv_def by auto
next
  case (wp_boot w nm)
  then have "nm \<notin> running w" "nm \<notin> set (jobs w)" by (auto simp: wp_inv_def)
  then show ?case using wp_boot unfolding wp_inv_def by auto
qed (auto simp: wp_inv_def)

lemma wp_inv_reach: "wp_reach p boots w \<Longrightarrow> wp_inv w"
  by (induction rule: wp_reach.induct) (auto intro: wp_inv_primed wp_inv_step)

section \<open>Properties\<close>

text \<open>
  C31: No warm container ever serves two jobs, a container that served one is never
  offered again, and once the pool is closed nothing is left running when the
  leased containers have been retired and the boots in flight have finished.
\<close>
theorem warm_single_use:
  assumes "wp_reach p boots w"
  shows "distinct (jobs w) \<and> set (jobs w) \<inter> set (ready (pool w)) = {} \<and>
    (wp_closed (pool w) \<and> leased w = {} \<and> fresh w = {} \<longrightarrow> running w = {})"
  using wp_inv_reach [OF assms] by (auto simp: wp_inv_def)

definition demo_pool :: WarmPool where
  "demo_pool = NewWarmPool NewGvisor \<lparr>c_Size = 2, c_Image = ''img'', c_MemBytes = 0, c_CPUs = Fin 0, c_Pids = 0, c_ScratchMB = 0\<rparr>"

theorem warm_single_use_witness:
  "\<exists>w :: pool_world. jobs w = [''b''] \<and> distinct (jobs w) \<and> set (jobs w) \<inter> set (ready (pool w)) = {}"
proof -
  let ?bs = "[Some ''a'', Some ''b'']"
  have start: "wp_reach demo_pool ?bs (primed demo_pool ?bs)"
    by (rule wp_start) (simp_all add: demo_pool_def NewWarmPool_def)
  obtain p' where "take_warm (pool (primed demo_pool ?bs)) = (Some ''b'', p')"
    by (simp add: primed_def Prime_def Enabled_def demo_pool_def NewWarmPool_def take_warm_def map_filter_simps)
  note st = wp_next [OF start wp_lease [OF this]]
  have "\<exists>w. wp_reach demo_pool ?bs w \<and> jobs w = [''b'']" by (intro exI conjI, rule st) (simp add: primed_def)
  then obtain w where w: "wp_reach demo_pool ?bs w" "jobs w = [''b'']" by (elim exE conjE)
  then show ?thesis using warm_single_use [OF w(1)] by (intro exI [of _ w]) simp
qed

text \<open>
  A warm container boots with every hardening flag a cold sandbox of the same
  limits has, the network switched off, and only the per-job mount and working
  directory missing; a pool of size zero is the plain backend.
\<close>
theorem warm_boot_hardened:
  assumes "MemoryBytes (s_Limits s) = memBytes p" "Pids (s_Limits s) = wp_pids p" "CPUs (s_Limits s) = wp_cpus p"
    "ScratchMB s = wp_scratchMB p" "\<not> ScratchExec s" "0 < memBytes p" "0 < wp_pids p" "0 < wp_scratchMB p" "\<not> fle (wp_cpus p) (Fin 0)"
  shows "set (hardFlags (wp_gv p) jobDir s) - {''-v'', jobDir @ '':/box:ro'', ''-w'', if Workdir s = [] then ''/box'' else Workdir s}
      \<subseteq> set (bootArgs p name) \<and> ''--network=none'' \<in> set (bootArgs p name) \<and>
    (wp_size p \<le> 0 \<longrightarrow> warmExecute ew ec p s k = (Execute ec (wp_gv p) s k, p))"
  using assms by (auto simp: hardFlags_def tmpfsOpt_def bootArgs_def orDefault_def warmExecute_def poolable_def Enabled_def Let_def)

theorem warm_boot_hardened_witness:
  "''--network=none'' \<in> set (bootArgs demo_pool ''w'')"
  using warm_boot_hardened [of "demo_spec\<lparr>s_Limits := \<lparr>MemoryBytes = 402653184, CPUs = Fin (3 / 2), Pids = 128, OutputBytes = 0, WallTimeMs = 0,
      CompileTimeMs = 0\<rparr>, ScratchMB := 64\<rparr>" demo_pool "''/j''" "''w''" demo_env demo_env False]
  by (simp add: demo_pool_def NewWarmPool_def orDefault_def demo_spec_def)

text \<open>
  A leased container is force-removed after its job whatever the outcome, and
  a job whose start failed inside it is answered by a cold run.
\<close>
theorem warm_retires:
  assumes "poolable p s" and "take_warm p = (Some nm, p')"
  shows "snd (warmExecute ew ec p s False) = p' \<and>
    last (snd (snd (fst (warmExecute ew ec p s False)))) = DockerRm nm \<and>
    (fst (snd (execInto ew nm s False)) = Some ExecStartFailed \<longrightarrow>
      fst (fst (warmExecute ew ec p s False)) = fst (Execute ec (wp_gv p) s False))"
  using assms by (auto simp: warmExecute_def split: prod.splits)

theorem warm_retires_witness:
  "last (snd (snd (fst (warmExecute demo_env demo_env (demo_pool\<lparr>ready := [''a'']\<rparr>) (demo_spec\<lparr>Network := False\<rparr>) False)))) = DockerRm ''a''"
  using warm_retires [of "demo_pool\<lparr>ready := [''a'']\<rparr>" "demo_spec\<lparr>Network := False\<rparr>" "''a''" "demo_pool\<lparr>ready := []\<rparr>" demo_env demo_env]
  by (simp add: poolable_def Enabled_def demo_pool_def NewWarmPool_def demo_spec_def take_warm_def)

text \<open>
  Contrary to the comment on the type, a job's memory, processor and process
  limits play no part in whether it is served warm, and the container it runs in
  has the pool's limits.
\<close>
theorem warm_ignores_limits:
  "poolable p (s\<lparr>s_Limits := l\<rparr>) = poolable p s \<and> execArgs e nm staged (s\<lparr>s_Limits := l\<rparr>) = execArgs e nm staged s"
  by (simp add: poolable_def execArgs_def)

end
