(* ===== verification/Metrics.thy ===== *)
theory Metrics
  imports ExecuteApi Session WarmPool
begin

text \<open>
  Observability: the metrics registry of \<^verbatim>\<open>internal/obs/metrics.go\<close> with its text
  exposition, the gauges and the handler of \<^verbatim>\<open>internal/api/metrics.go\<close>, and the log
  level of \<^verbatim>\<open>internal/obs/log.go\<close>.  The execution counters are the field \<open>execTotal\<close> of
  the server.  A gauge is read from the live components when the page is rendered;
  the formats \<open>%q\<close> and \<open>%g\<close> and the scan of a number are arguments.
\<close>

section \<open>The registry\<close>

record 'w gauge =
  g_name :: string
  g_help :: string
  g_fn :: "'w \<Rightarrow> float64"

definition RegisterGauge :: "string \<Rightarrow> string \<Rightarrow> ('w \<Rightarrow> float64) \<Rightarrow> 'w gauge list \<Rightarrow> 'w gauge list" where
  "RegisterGauge name help fn gs = gs @ [\<lparr>g_name = name, g_help = help, g_fn = fn\<rparr>]"

text \<open>A float that is a 64-bit integer prints as one.\<close>

definition showValue :: "(float64 \<Rightarrow> string) \<Rightarrow> float64 \<Rightarrow> string" where
  "showValue fmtg v =
     (case v of
        Fin q \<Rightarrow> if of_int \<lfloor>q\<rfloor> = q \<and> - (2 ^ 63) \<le> q \<and> q < 2 ^ 63 then Itoa \<lfloor>q\<rfloor> else fmtg v
      | _ \<Rightarrow> fmtg v)"

definition statuses :: "(string \<times> int) list \<Rightarrow> string list" where
  "statuses m = sort (map fst m)"

definition counterLine :: "(string \<Rightarrow> string) \<Rightarrow> (string \<times> int) list \<Rightarrow> string \<Rightarrow> string" where
  "counterLine fmtq m s = ''isobox_exec_total{status='' @ fmtq s @ ''} '' @ Itoa (the (map_of m s))"

definition gaugeLines :: "(float64 \<Rightarrow> string) \<Rightarrow> 'w \<Rightarrow> 'w gauge \<Rightarrow> string list" where
  "gaugeLines fmtg w g =
     (if g_help g \<noteq> [] then [''# HELP '' @ g_name g @ '' '' @ g_help g] else []) @
     [''# TYPE '' @ g_name g @ '' gauge'', g_name g @ '' '' @ showValue fmtg (g_fn g w)]"

definition Render :: "(string \<Rightarrow> string) \<Rightarrow> (float64 \<Rightarrow> string) \<Rightarrow> (string \<times> int) list \<Rightarrow> 'w gauge list \<Rightarrow> 'w \<Rightarrow> string list" where
  "Render fmtq fmtg m gs w =
     [''# HELP isobox_exec_total Total executions by terminal status.'', ''# TYPE isobox_exec_total counter''] @
     (if statuses m = [] then [''isobox_exec_total{status='' @ [CHR 0x22] @ ''ok'' @ [CHR 0x22] @ ''} 0''] else []) @
     map (counterLine fmtq m) (statuses m) @
     concat (map (gaugeLines fmtg w) gs)"

section \<open>The gauges of the server\<close>

record 's live =
  lv_Sema :: "'s Limiter option"
  lv_Sessions :: "'s Session.manager option"
  lv_Pool :: "WarmPool option"
  lv_readFile :: "string \<Rightarrow> bytes option"

abbreviation fint :: "int \<Rightarrow> float64" where "fint n \<equiv> Fin (of_int n)"

fun firstScanned :: "(string \<Rightarrow> int option) \<Rightarrow> (string \<Rightarrow> bytes option) \<Rightarrow> string list \<Rightarrow> float64" where
  "firstScanned scan readFile [] = fint 0"
| "firstScanned scan readFile (p # ps) =
     (case readFile p of
        None \<Rightarrow> firstScanned scan readFile ps
      | Some b \<Rightarrow>
          (let v = TrimSpace b in
           if v = [] then firstScanned scan readFile ps
           else case scan v of Some n \<Rightarrow> fint n | None \<Rightarrow> firstScanned scan readFile ps))"

definition SliceMemoryBytes :: "(string \<Rightarrow> int option) \<Rightarrow> (string \<Rightarrow> bytes option) \<Rightarrow> float64" where
  "SliceMemoryBytes scan readFile =
     firstScanned scan readFile [''/sys/fs/cgroup/isobox.slice/memory.current'', ''/sys/fs/cgroup/system.slice/isobox.slice/memory.current'']"

definition registerGauges :: "(string \<Rightarrow> int option) \<Rightarrow> 's live gauge list \<Rightarrow> 's live gauge list" where
  "registerGauges scan gs =
     fold (\<lambda>(n, h, f) gs. RegisterGauge n h f gs)
       [(''isobox_sema_inuse'', ''Concurrency slots currently held.'', \<lambda>w. case lv_Sema w of None \<Rightarrow> fint 0 | Some l \<Rightarrow> fint (InUse l)),
        (''isobox_sema_max'', ''Configured concurrency ceiling.'', \<lambda>w. case lv_Sema w of None \<Rightarrow> fint 0 | Some l \<Rightarrow> fint (Max l)),
        (''isobox_sessions'', ''Live stateful sessions.'', \<lambda>w. case lv_Sessions w of None \<Rightarrow> fint 0 | Some m \<Rightarrow> fint (int (Session.Count m))),
        (''isobox_kernels'', ''Resident kernel containers.'', \<lambda>w. case lv_Sessions w of None \<Rightarrow> fint 0
           | Some m \<Rightarrow> (case Kernels m of None \<Rightarrow> fint 0 | Some e \<Rightarrow> fint (int (Kernel.Count e)))),
        (''isobox_slice_memory_bytes'', ''Current memory usage of isobox.slice (cgroup memory.current).'', \<lambda>w. SliceMemoryBytes scan (lv_readFile w)),
        (''isobox_warmpool_size'', ''Configured warm-pool target size.'', \<lambda>w. fint (Size (lv_Pool w))),
        (''isobox_warmpool_ready'', ''Warm containers currently booted and idle.'', \<lambda>w. fint (int (Ready (lv_Pool w))))] gs"

text \<open>The state of the exposition: whether the gauges have been registered, and the registry.\<close>

record 's scrape =
  once :: bool
  gauges :: "'s live gauge list"

definition handleMetrics :: "(string \<Rightarrow> int option) \<Rightarrow> (string \<Rightarrow> string) \<Rightarrow> (float64 \<Rightarrow> string) \<Rightarrow> (string \<times> int) list \<Rightarrow> 's live
    \<Rightarrow> 's scrape \<Rightarrow> (response \<times> string list) \<times> 's scrape" where
  "handleMetrics scan fmtq fmtg m w st =
     (let st' = (if once st then st else st\<lparr>once := True, gauges := registerGauges scan (gauges st)\<rparr>) in
      ((\<lparr>rs_Status = 200, rs_Header = [(''Content-Type'', ''text/plain; version=0.0.4; charset=utf-8'')], rs_Body = JNull, rs_Raw = []\<rparr>,
        Render fmtq fmtg m (gauges st') w), st'))"

section \<open>The log level\<close>

datatype level = LevelDebug | LevelInfo | LevelWarn | LevelError

definition Setup :: "(bytes \<Rightarrow> bytes) \<Rightarrow> string \<Rightarrow> level" where
  "Setup uni lvl =
     (let l = ToLower uni lvl in
      if l = ''debug'' then LevelDebug else if l = ''warn'' then LevelWarn else if l = ''error'' then LevelError else LevelInfo)"
section \<open>Lemmas\<close>

lemma ExecTotal_counts:
  assumes "execTotal st = []" and "int (length evs) < 2 ^ 63"
  defines "m \<equiv> execTotal (fold ExecTotal evs st)"
  shows "map_of m s = (if s \<in> set evs then Some (int (count_list evs s)) else None) \<and> distinct (map fst m)"
  using assms(2) unfolding m_def
proof (induction evs arbitrary: s rule: rev_induct)
  case (snoc x evs)
  let ?m = "execTotal (fold ExecTotal evs st)"
  have len: "int (length evs) < 2 ^ 63" using snoc.prems by simp
  note IH = snoc.IH [OF len]
  have c: "int (count_list evs x) + 1 < 2 ^ 63" using count_le_length [of evs x] snoc.prems by simp
  then have "wrap64 ((case map_of ?m x of None \<Rightarrow> 0 | Some n \<Rightarrow> n) + 1) = int (count_list (evs @ [x]) x)"
    using IH [of x] by (auto simp: wrap64_id)
  then have "execTotal (fold ExecTotal (evs @ [x]) st) = map_put x (int (count_list (evs @ [x]) x)) ?m"
    by (simp add: ExecTotal_def [of x])
  then show ?case using IH [of s] by (simp only: map_of_map_put) (simp add: distinct_map_put)
qed (simp add: assms(1))

lemma statuses_counts:
  assumes "execTotal st = []" and "int (length evs) < 2 ^ 63"
  shows "statuses (execTotal (fold ExecTotal evs st)) = sorted_list_of_set (set evs)"
proof -
  let ?m = "execTotal (fold ExecTotal evs st)"
  have m: "map_of ?m s = (if s \<in> set evs then Some (int (count_list evs s)) else None)" "distinct (map fst ?m)" for s
    using ExecTotal_counts [OF assms, of s] by simp_all
  have "fst ` set ?m = set evs" unfolding dom_map_of_conv_image_fst [symmetric] dom_def using m(1) by auto
  then show ?thesis using m(2) unfolding statuses_def by (metis distinct_remdups_id list.set_map sorted_list_of_set_sort_remdups)
qed

lemma registerGauges_names: "distinct (map g_name (registerGauges scan []))"
  by (simp add: registerGauges_def RegisterGauge_def)

lemma scrapes_once:
  assumes "once st = (gauges st = registerGauges scan [])" and "once st \<or> gauges st = []"
  shows "gauges (snd (handleMetrics scan fmtq fmtg m w st)) = registerGauges scan [] \<and> once (snd (handleMetrics scan fmtq fmtg m w st))"
  using assms by (auto simp: handleMetrics_def Let_def)

lemma scrapes_fold:
  "fold (\<lambda>(m, w) st. snd (handleMetrics scan fmtq fmtg m w st)) ps \<lparr>once = False, gauges = []\<rparr> \<in>
    {\<lparr>once = False, gauges = []\<rparr>, \<lparr>once = True, gauges = registerGauges scan []\<rparr>}"
  by (induction ps rule: rev_induct) (auto simp: handleMetrics_def Let_def)

section \<open>Properties\<close>

text \<open>
  A scrape shows exactly what happened.  After any executions, and however often the
  page was read before, it lists each status that occurred once, in order, with the
  number of executions that ended in it, and then each of the seven gauges once, with
  the value its component has at this instant.
\<close>
theorem metrics_scrape:
  assumes "execTotal st = []" and "evs \<noteq> []" and "int (length evs) < 2 ^ 63"
    and "sc = fold (\<lambda>(m, w) sc. snd (handleMetrics scan fmtq fmtg m w sc)) earlier \<lparr>once = False, gauges = []\<rparr>"
  shows "snd (fst (handleMetrics scan fmtq fmtg (execTotal (fold ExecTotal evs st)) w sc)) =
      [''# HELP isobox_exec_total Total executions by terminal status.'', ''# TYPE isobox_exec_total counter''] @
      map (\<lambda>s. ''isobox_exec_total{status='' @ fmtq s @ ''} '' @ Itoa (int (count_list evs s))) (sorted_list_of_set (set evs)) @
      concat (map (gaugeLines fmtg w) (registerGauges scan [])) \<and>
    distinct (map g_name (registerGauges scan [])) \<and> length (registerGauges scan []) = 7"
proof -
  let ?m = "execTotal (fold ExecTotal evs st)"
  have g: "gauges (snd (handleMetrics scan fmtq fmtg ?m w sc)) = registerGauges scan []"
    using scrapes_fold [of scan fmtq fmtg earlier] unfolding assms(4) [symmetric] by (auto simp: handleMetrics_def Let_def)
  have "counterLine fmtq ?m s = ''isobox_exec_total{status='' @ fmtq s @ ''} '' @ Itoa (int (count_list evs s))" if "s \<in> set evs" for s
    using ExecTotal_counts [OF assms(1,3), of s] that by (simp add: counterLine_def)
  then have "map (counterLine fmtq ?m) (sorted_list_of_set (set evs)) =
      map (\<lambda>s. ''isobox_exec_total{status='' @ fmtq s @ ''} '' @ Itoa (int (count_list evs s))) (sorted_list_of_set (set evs))"
    by (intro map_cong) auto
  moreover have "sorted_list_of_set (set evs) \<noteq> []" using assms(2) by simp
  moreover have "snd (fst (handleMetrics scan fmtq fmtg ?m w sc)) = Render fmtq fmtg ?m (gauges (snd (handleMetrics scan fmtq fmtg ?m w sc))) w"
    by (simp add: handleMetrics_def Let_def)
  ultimately show ?thesis
    unfolding g using registerGauges_names [of scan] statuses_counts [OF assms(1,3)]
    by (simp add: Render_def registerGauges_def RegisterGauge_def)
qed

definition demo_live :: "(int \<times> int) live" where
  "demo_live = \<lparr>lv_Sema = Some (New counter 4), lv_Sessions = None, lv_Pool = None, lv_readFile = (\<lambda>_. None)\<rparr>"

theorem metrics_scrape_witness:
  "take 4 (snd (fst (handleMetrics Atoi id (\<lambda>_. []) (execTotal (fold ExecTotal [''ok'', ''error'', ''ok''] \<lparr>server.Sema = New counter 4, execTotal = []\<rparr>))
     demo_live \<lparr>once = False, gauges = []\<rparr>))) =
   [''# HELP isobox_exec_total Total executions by terminal status.'', ''# TYPE isobox_exec_total counter'',
    ''isobox_exec_total{status=error} 1'', ''isobox_exec_total{status=ok} 2'']"
proof -
  let ?st = "\<lparr>server.Sema = New counter 4, execTotal = []\<rparr> :: (int \<times> int) server"
  have "sorted_list_of_set (set [''ok'', ''error'', ''ok'']) = [''error'', ''ok'']" by code_simp
  moreover have "Itoa 1 = ''1''" "Itoa 2 = ''2''" by code_simp+
  ultimately show ?thesis
    by (subst metrics_scrape [THEN conjunct1, of ?st "[''ok'', ''error'', ''ok'']" "\<lparr>once = False, gauges = []\<rparr>" Atoi id "\<lambda>_. []" "[]" demo_live])
       simp_all
qed

end
