(* ===== verification/Web.thy ===== *)
theory Web
  imports Http GoPath
begin

text \<open>
  The static pages of \<^verbatim>\<open>internal/web/web.go\<close>: three embedded documents and the bundle
  under \<^verbatim>\<open>/assets/\<close>.  The embedded files are an argument, from a name to its contents.
\<close>

definition rawResponse :: "int \<Rightarrow> (string \<times> string) list \<Rightarrow> bytes \<Rightarrow> response" where
  "rawResponse status hdr b = \<lparr>rs_Status = status, rs_Header = hdr, rs_Body = JNull, rs_Raw = b\<rparr>"

definition serve :: "bytes \<Rightarrow> string \<Rightarrow> request \<Rightarrow> response" where
  "serve body contentType r = rawResponse 200 [(''Content-Type'', contentType), (''Cache-Control'', ''public, max-age=300'')] body"

definition Handler :: "bytes \<Rightarrow> request \<Rightarrow> response" where
  "Handler indexHTML = serve indexHTML ''text/html; charset=utf-8''"

definition LLMs :: "bytes \<Rightarrow> request \<Rightarrow> response" where
  "LLMs llmsTxt = serve llmsTxt ''text/plain; charset=utf-8''"

definition OpenAPI :: "bytes \<Rightarrow> request \<Rightarrow> response" where
  "OpenAPI openapiYAML = serve openapiYAML ''application/yaml''"

definition assetContentType :: "string \<Rightarrow> string" where
  "assetContentType name =
     (if HasSuffix name ''.wasm'' then ''application/wasm''
      else if HasSuffix name ''.js'' then ''text/javascript; charset=utf-8''
      else if HasSuffix name ''.css'' then ''text/css; charset=utf-8''
      else if HasSuffix name ''.json'' then ''application/json''
      else if HasSuffix name ''.map'' then ''application/json''
      else ''application/octet-stream'')"

definition NotFound :: response where
  "NotFound = rawResponse 404 [(''Content-Type'', ''text/plain; charset=utf-8''), (''X-Content-Type-Options'', ''nosniff'')]
     (''404 page not found'' @ [CHR 0x0A])"

definition TrimPrefix :: "string \<Rightarrow> string \<Rightarrow> string" where
  "TrimPrefix s p = (if prefix p s then drop (length p) s else s)"

definition Assets :: "(string \<Rightarrow> bytes option) \<Rightarrow> request \<Rightarrow> response" where
  "Assets assetsFS r =
     (let name = Clean (TrimPrefix (rq_Path r) ''/assets/'') in
      if name = ''.'' \<or> name = ''/'' \<or> sublist ''..'' name then NotFound
      else case assetsFS (''assets/'' @ name) of
        None \<Rightarrow> NotFound
      | Some body \<Rightarrow> rawResponse 200 [(''Content-Type'', assetContentType name), (''Cache-Control'', ''public, max-age=3600'')] body)"

section \<open>Properties\<close>

lemma join_slash_sublist: "w \<in> set ws \<Longrightarrow> sublist w (join_slash ws)"
proof (induction ws rule: join_slash.induct)
  case (3 w' v ws)
  then show ?case using sublist_append_rightI sublist_append_leftI
    by (metis append.assoc append_Cons append_Nil join_slash.simps(3) set_ConsD sublist_append)
qed auto

lemma stack_ok_names: "stack_ok r st \<Longrightarrow> ''..'' \<notin> set st \<Longrightarrow> c \<in> set st \<Longrightarrow> name_ok c"
  by (induction r st rule: stack_ok.induct) (auto split: if_splits)

text \<open>
  The asset handler serves files of the embedded bundle only.  An answer other than
  404 is the contents of one embedded file, named by \<^verbatim>\<open>assets/\<close> and a clean path of
  ordinary names, never \<^verbatim>\<open>..\<close>; and a \<^verbatim>\<open>.wasm\<close> file is sent as \<^verbatim>\<open>application/wasm\<close>, without
  which browsers refuse to compile it.
\<close>
theorem assets_contained:
  assumes "Assets assetsFS r = resp" and "resp \<noteq> NotFound"
  shows "\<exists>b cs. (\<forall>c \<in> set cs. name_ok c) \<and> cs \<noteq> [] \<and> assetsFS (''assets/'' @ print_path b cs) = Some (rs_Raw resp) \<and>
    rs_Status resp = 200 \<and> map_of (rs_Header resp) ''Content-Type'' = Some (assetContentType (print_path b cs)) \<and>
    (HasSuffix (print_path b cs) ''.wasm'' \<longrightarrow> map_of (rs_Header resp) ''Content-Type'' = Some ''application/wasm'')"
proof -
  let ?p = "TrimPrefix (rq_Path r) ''/assets/''" and ?n = "Clean (TrimPrefix (rq_Path r) ''/assets/'')"
  obtain body where n: "?n \<noteq> ''.''" "?n \<noteq> ''/''" "\<not> sublist ''..'' ?n" "assetsFS (''assets/'' @ ?n) = Some body"
      "resp = rawResponse 200 [(''Content-Type'', assetContentType ?n), (''Cache-Control'', ''public, max-age=3600'')] body"
    using assms by (auto simp: Assets_def Let_def split: if_splits option.splits)
  have "?p \<noteq> []" using n(1) by (auto simp: Clean_def)
  then have e: "?n = print_path (rooted ?p) (comps ?p)" by (simp add: Clean_def)
  have ne: "comps ?p \<noteq> []" using n(1,2) e by (auto simp: print_path_def split: if_splits)
  have "sublist ''..'' ?n" if "''..'' \<in> set (comps ?p)"
  proof -
    have "sublist ''..'' (join_slash (comps ?p))" by (rule join_slash_sublist [OF that])
    then show ?thesis unfolding e print_path_def using ne by (auto intro: sublist_Cons_right [THEN iffD2])
  qed
  then have "\<forall>c \<in> set (comps ?p). name_ok c" using n(3) stack_ok_names [OF stack_of_path_ok [of ?p]] by auto
  then show ?thesis using n(4,5) ne
    by (intro exI [of _ "rooted ?p"] exI [of _ "comps ?p"]) (auto simp: e [symmetric] rawResponse_def assetContentType_def)
qed

definition demo_asset :: request where
  "demo_asset = \<lparr>rq_Method = ''GET'', rq_Path = ''/assets/x/../flux.wasm'', rq_Header = Map.empty, rq_Query = Map.empty,
     rq_Body = [], rq_RemoteAddr = []\<rparr>"

theorem assets_contained_witness:
  "\<exists>b cs. (\<forall>c \<in> set cs. name_ok c) \<and> cs \<noteq> [] \<and> print_path b cs = ''flux.wasm'' \<and>
     rs_Status (Assets (\<lambda>p. if p = ''assets/flux.wasm'' then Some ''W'' else None) demo_asset) = 200"
proof -
  let ?F = "\<lambda>p. if p = ''assets/flux.wasm'' then Some ''W'' else None"
  have "rs_Raw (Assets ?F demo_asset) = ''W''" by code_simp
  then have "Assets ?F demo_asset \<noteq> NotFound" by (auto simp: NotFound_def rawResponse_def)
  from assets_contained [OF refl this] show ?thesis by (auto split: if_splits)
qed

end
