(* ===== verification/Health.thy ===== *)
theory Health
  imports Http Registry Gvisor
begin

text \<open>
  The unauthenticated probes of \<^verbatim>\<open>internal/api/health.go\<close> and the choice of the
  isolation backend in \<^verbatim>\<open>internal/executor/select.go\<close>.  The files of the host and the
  outcome of the backend's health check are arguments.
\<close>

section \<open>Probes\<close>

definition handleHealthz :: response where
  "handleHealthz = \<lparr>rs_Status = 200, rs_Header = [(''Content-Type'', ''text/plain'')], rs_Body = JNull, rs_Raw = ''ok''\<rparr>"

fun capped_in :: "(string \<Rightarrow> bytes option) \<Rightarrow> string list \<Rightarrow> bool" where
  "capped_in readFile [] = False"
| "capped_in readFile (p # ps) =
     (case readFile p of
        None \<Rightarrow> capped_in readFile ps
      | Some b \<Rightarrow> let v = TrimSpace b in v \<noteq> [] \<and> v \<noteq> ''max'')"

definition sliceCapped :: "(string \<Rightarrow> bytes option) \<Rightarrow> bool" where
  "sliceCapped readFile =
     capped_in readFile [''/sys/fs/cgroup/isobox.slice/memory.max'', ''/sys/fs/cgroup/system.slice/isobox.slice/memory.max'']"

definition handleReadyz :: "(health_error \<Rightarrow> string) \<Rightarrow> (string \<Rightarrow> bytes option) \<Rightarrow> health_error option \<Rightarrow> string \<Rightarrow> response" where
  "handleReadyz errText readFile health backend =
     (if \<not> sliceCapped readFile
      then writeJSON 503 (JObj [(''ready'', JBool False), (''reason'', JStr ''isobox.slice not memory-capped'')])
      else case health of
        Some e \<Rightarrow> writeJSON 503 (JObj [(''ready'', JBool False), (''reason'', JStr (''backend: '' @ errText e))])
      | None \<Rightarrow> writeJSON 200 (JObj [(''ready'', JBool True), (''backend'', JStr backend)]))"

text \<open>A language without aliases has a nil slice, which JSON shows as \<open>null\<close>.\<close>

definition runtimeInfo :: "string \<Rightarrow> Language \<Rightarrow> json" where
  "runtimeInfo backend l =
     JObj [(''language'', JStr (r_Name l)), (''version'', JStr (r_Version l)),
       (''aliases'', if r_Aliases l = [] then JNull else JArr (map JStr (r_Aliases l))),
       (''compiled'', JBool (r_Compile l \<noteq> [])), (''backend'', JStr backend)]"

definition handleRuntimes :: "string \<Rightarrow> Registry \<Rightarrow> response" where
  "handleRuntimes backend reg = writeJSON 200 (JArr (map (runtimeInfo backend) (All reg)))"

section \<open>The backend\<close>

definition Detect :: "bool \<Rightarrow> Gvisor" where
  "Detect hasKVM = (if hasKVM then NewGvisor else NewGvisor)"

section \<open>Readiness\<close>

text \<open>
  The daemon reports ready only when the slice of the sandboxes has a memory ceiling
  and the runtime that confines them is registered: the first of the two control
  files that can be read names a limit, and docker lists the runtime.
\<close>

lemma readyz_fail_closed:
  "rs_Status (handleReadyz errText readFile (HealthCheck g info unmarshal) backend) = 200 \<longleftrightarrow>
    sliceCapped readFile \<and> (\<exists>out rts. info = Some out \<and> unmarshal out = Some rts \<and> g_Runtime g \<in> set rts)"
  by (auto simp: handleReadyz_def HealthCheck_def writeJSON_def split: option.splits if_splits)

end
