(* ===== verification/Router.thy ===== *)
theory Router
  imports SessionsApiProps RateLimit Metrics Web Health
begin

text \<open>
  The HTTP server of \<^verbatim>\<open>internal/api/router.go\<close>: the routes, the middleware chain of
  each and the composition of all handlers over one state.  The state of the server
  is its rate limiter and the components behind it; it is \<open>None\<close> after a handler has
  panicked, which the recoverer answers with 500.  The path matching of the router
  library is an argument, from the registered routes, a method and a path to the
  route and its parameters.
\<close>

section \<open>Routes\<close>

datatype ep =
    EIndex | ELLMs | EOpenAPI | EAssets | EHealthz | EReadyz | ERuntimes | EMetrics
  | EExecute
  | ESessCreate | ESessExec | ESessFSGet | ESessFSPut | ESessFSDelete | ESessDestroy
  | EVolCreate | EVolList | EVolGet | EVolDelete
  | EKVPut | EKVGet | EKVDelete | EKVList

type_synonym route = "string \<times> string \<times> ep"

definition publicRoutes :: "route list" where
  "publicRoutes =
     [(''GET'', ''/'', EIndex), (''GET'', ''/llms.txt'', ELLMs), (''GET'', ''/openapi.yaml'', EOpenAPI), (''*'', ''/assets/*'', EAssets),
      (''GET'', ''/healthz'', EHealthz), (''GET'', ''/readyz'', EReadyz), (''GET'', ''/runtimes'', ERuntimes), (''GET'', ''/metrics'', EMetrics)]"

definition sessionRoutes :: "route list" where
  "sessionRoutes =
     [(''POST'', ''/v1/sessions'', ESessCreate), (''POST'', ''/v1/sessions/{id}/exec'', ESessExec), (''GET'', ''/v1/sessions/{id}/fs'', ESessFSGet),
      (''PUT'', ''/v1/sessions/{id}/fs'', ESessFSPut), (''DELETE'', ''/v1/sessions/{id}/fs'', ESessFSDelete),
      (''DELETE'', ''/v1/sessions/{id}'', ESessDestroy)]"

definition volumeRoutes :: "route list" where
  "volumeRoutes =
     [(''POST'', ''/v1/volumes'', EVolCreate), (''GET'', ''/v1/volumes'', EVolList), (''GET'', ''/v1/volumes/{id}'', EVolGet),
      (''DELETE'', ''/v1/volumes/{id}'', EVolDelete)]"

definition memoryRoutes :: "route list" where
  "memoryRoutes =
     [(''PUT'', ''/v1/memory/{namespace}/{key}'', EKVPut), (''GET'', ''/v1/memory/{namespace}/{key}'', EKVGet),
      (''DELETE'', ''/v1/memory/{namespace}/{key}'', EKVDelete), (''GET'', ''/v1/memory/{namespace}'', EKVList)]"

text \<open>A group of routes is registered when its component exists.\<close>

definition routes :: "bool \<Rightarrow> bool \<Rightarrow> bool \<Rightarrow> route list" where
  "routes hasSessions hasVolumes hasMemory =
     publicRoutes @ [(''POST'', ''/execute'', EExecute)] @ (if hasSessions then sessionRoutes else []) @
     (if hasVolumes then volumeRoutes else []) @ (if hasMemory then memoryRoutes else [])"

section \<open>The server\<close>

record ('tx, 's) backend =
  sv_sema :: "'s Limiter"
  sv_execTotal :: "(string \<times> int) list"
  sv_reg :: Registry
  sv_sessions :: "'s Session.manager option"
  sv_volumes :: "Volume.manager option"
  sv_memory :: "'tx store option"
  sv_pool :: "WarmPool option"
  sv_scrape :: "'s scrape"

type_synonym ('tx, 's, 'l) server_state = "'l ipLimiter \<times> ('tx, 's) backend option"

text \<open>Everything outside the program: the clock, the host, docker, the decoders and the configuration.\<close>

record ('tx, 's, 'l) apiEnv =
  a_chi :: "route list \<Rightarrow> string \<Rightarrow> string \<Rightarrow> (ep \<times> (string \<Rightarrow> string)) option"
  a_noRoute :: "request \<Rightarrow> response"
  a_buckets :: "'l buckets"
  a_now :: int
  a_sha :: "bytes \<Rightarrow> bytes"
  a_keys :: KeyStore
  a_requireAuth :: bool
  a_memoryRequireKey :: bool
  a_bolt :: "'tx bolt"
  a_codec :: codec
  a_kvText :: "kv_error \<Rightarrow> string"
  a_statfs :: "(int \<times> int) option"
  a_fmtTime :: "int \<Rightarrow> string"
  a_vol :: vol_env
  a_volIO :: create_io
  a_volUUID :: string
  a_volText :: "vol_error \<Rightarrow> string"
  a_decVol :: "bytes \<Rightarrow> string decoded"
  a_sem :: "'s weighted"
  a_sess :: sessionEnv
  a_step :: stepEnv
  a_decSess :: "bytes \<times> bool \<Rightarrow> createSessionRequest decoded"
  a_decStep :: "bytes \<times> bool \<Rightarrow> execRequest decoded"
  a_decExec :: "bytes \<times> bool \<Rightarrow> execRequest + string"
  a_fmtq :: "string \<Rightarrow> string"
  a_fmtg :: "float64 \<Rightarrow> string"
  a_scan :: "string \<Rightarrow> int option"
  a_driver :: driver
  a_ctxDone :: bool
  a_flusher :: bool
  a_chunks :: "Spec \<Rightarrow> (bool \<times> bytes) list"
  a_exec :: "Spec \<Rightarrow> Result \<times> string option"
  a_backend :: string
  a_health :: "health_error option"
  a_healthText :: "health_error \<Rightarrow> string"
  a_readFile :: "string \<Rightarrow> bytes option"
  a_index :: bytes
  a_llms :: bytes
  a_openapi :: bytes
  a_assets :: "string \<Rightarrow> bytes option"

section \<open>Middlewares\<close>

text \<open>
  \<open>maxBody\<close> replaces the body by one that fails past the limit; the limit in force is
  passed along, and \<open>bodyReader\<close> is what reading the body then yields: the bytes before
  the failure and whether there is one.
\<close>

definition maxBody :: "nat \<Rightarrow> (nat option \<Rightarrow> 'h) \<Rightarrow> nat option \<Rightarrow> 'h" where
  "maxBody n next cap = next (Some (case cap of None \<Rightarrow> n | Some m \<Rightarrow> min m n))"

definition bodyReader :: "nat option \<Rightarrow> request \<Rightarrow> bytes \<times> bool" where
  "bodyReader cap r = (case cap of None \<Rightarrow> (rq_Body r, False) | Some n \<Rightarrow> (take n (rq_Body r), length (rq_Body r) > n))"

definition corsHeaders :: "(string \<times> string) list" where
  "corsHeaders =
     [(''Access-Control-Allow-Origin'', ''*''), (''Access-Control-Allow-Methods'', ''GET, POST, PUT, DELETE, OPTIONS''),
      (''Access-Control-Allow-Headers'', ''Content-Type, Authorization, X-API-Key, X-Session-Token, X-TTL-Seconds, If-None-Match''),
      (''Access-Control-Expose-Headers'', ''ETag, X-Expires-At'')]"

definition withCors :: "response \<Rightarrow> response" where
  "withCors resp = resp\<lparr>rs_Header := corsHeaders @ rs_Header resp\<rparr>"

definition corsMiddleware :: "'st handler \<Rightarrow> 'st handler" where
  "corsMiddleware next r c st =
     (if rq_Method r = ''OPTIONS'' then (withCors (statusOnly 204), st)
      else case next r c st of (resp, st') \<Rightarrow> (withCors resp, st'))"

text \<open>A handler of the components, with a panic caught by the recoverer.\<close>

definition recovered :: "(request \<Rightarrow> ctxt \<Rightarrow> 'b \<Rightarrow> (response \<times> 'b) option) \<Rightarrow> 'b option handler" where
  "recovered h r c st =
     (case Option.bind st (h r c) of
        None \<Rightarrow> (statusOnly 500, None)
      | Some (resp, b') \<Rightarrow> (resp, Some b'))"

section \<open>Handlers over the whole state\<close>

definition onMemory :: "'tx store handler \<Rightarrow> request \<Rightarrow> ctxt \<Rightarrow> ('tx, 's) backend \<Rightarrow> (response \<times> ('tx, 's) backend) option" where
  "onMemory h r c b =
     (case sv_memory b of None \<Rightarrow> None | Some s \<Rightarrow> (case h r c s of (resp, s') \<Rightarrow> Some (resp, b\<lparr>sv_memory := Some s'\<rparr>)))"

definition onVolumes :: "Volume.manager handler \<Rightarrow> request \<Rightarrow> ctxt \<Rightarrow> ('tx, 's) backend \<Rightarrow> (response \<times> ('tx, 's) backend) option" where
  "onVolumes h r c b =
     (case sv_volumes b of None \<Rightarrow> None | Some m \<Rightarrow> (case h r c m of (resp, m') \<Rightarrow> Some (resp, b\<lparr>sv_volumes := Some m'\<rparr>)))"

text \<open>The session manager points to the server's limiter and registry.\<close>

definition onSessions :: "(request \<Rightarrow> ctxt \<Rightarrow> 's sessionServer \<Rightarrow> (response \<times> 's sessionServer) option) \<Rightarrow> request \<Rightarrow> ctxt
    \<Rightarrow> ('tx, 's) backend \<Rightarrow> (response \<times> ('tx, 's) backend) option" where
  "onSessions h r c b =
     (case sv_sessions b of
        None \<Rightarrow> None
      | Some m \<Rightarrow>
          map_option (\<lambda>(resp, st). (resp, b\<lparr>sv_sessions := Some (Sessions st), sv_volumes := Volumes st, sv_sema := manager.Sema (Sessions st)\<rparr>))
            (h r c \<lparr>Sessions = m\<lparr>manager.Sema := sv_sema b, Reg := sv_reg b\<rparr>, Volumes = sv_volumes b\<rparr>))"

definition onExecute :: "(request \<Rightarrow> 's server \<Rightarrow> (response \<times> 's server) option) \<Rightarrow> request \<Rightarrow> ctxt
    \<Rightarrow> ('tx, 's) backend \<Rightarrow> (response \<times> ('tx, 's) backend) option" where
  "onExecute h r c b =
     map_option (\<lambda>(resp, st). (resp, b\<lparr>sv_sema := server.Sema st, sv_execTotal := execTotal st\<rparr>))
       (h r \<lparr>server.Sema = sv_sema b, execTotal = sv_execTotal b\<rparr>)"

abbreviation total :: "'st handler \<Rightarrow> request \<Rightarrow> ctxt \<Rightarrow> 'st \<Rightarrow> (response \<times> 'st) option" where
  "total h r c st \<equiv> Some (h r c st)"

definition handleMetricsB :: "('tx, 's, 'l) apiEnv \<Rightarrow> request \<Rightarrow> ctxt \<Rightarrow> ('tx, 's) backend \<Rightarrow> (response \<times> ('tx, 's) backend) option" where
  "handleMetricsB E r c b =
     (case handleMetrics (a_scan E) (a_fmtq E) (a_fmtg E) (sv_execTotal b)
        \<lparr>lv_Sema = Some (sv_sema b), lv_Sessions = sv_sessions b, lv_Pool = sv_pool b, lv_readFile = a_readFile E\<rparr> (sv_scrape b) of
        ((resp, page), sc) \<Rightarrow> Some (resp\<lparr>rs_Raw := concat (map (\<lambda>l. l @ [CHR 0x0A]) page)\<rparr>, b\<lparr>sv_scrape := sc\<rparr>))"

section \<open>Endpoints\<close>

text \<open>The handler at the end of the chain; \<open>cap\<close> is the body limit in force and \<open>ps\<close> the path parameters.\<close>

definition leaf :: "('tx, 's, 'l) apiEnv \<Rightarrow> ep \<Rightarrow> (string \<Rightarrow> string) \<Rightarrow> nat option \<Rightarrow> request \<Rightarrow> ctxt
    \<Rightarrow> ('tx, 's) backend \<Rightarrow> (response \<times> ('tx, 's) backend) option" where
  "leaf E e ps cap r c b =
     (case e of
        EIndex \<Rightarrow> Some (Handler (a_index E) r, b)
      | ELLMs \<Rightarrow> Some (LLMs (a_llms E) r, b)
      | EOpenAPI \<Rightarrow> Some (OpenAPI (a_openapi E) r, b)
      | EAssets \<Rightarrow> Some (Assets (a_assets E) r, b)
      | EHealthz \<Rightarrow> Some (handleHealthz, b)
      | EReadyz \<Rightarrow> Some (handleReadyz (a_healthText E) (a_readFile E) (a_health E) (a_backend E), b)
      | ERuntimes \<Rightarrow> Some (handleRuntimes (a_backend E) (sv_reg b), b)
      | EMetrics \<Rightarrow> handleMetricsB E r c b
      | EExecute \<Rightarrow> onExecute (handleExecute (a_fmtq E) (st_uni (a_step E)) (st_parseFloat (a_step E)) (\<lambda>_. a_decExec E (bodyReader cap r))
          (sv_reg b) (a_driver E) (a_sem E) (a_ctxDone E) (a_flusher E) (a_chunks E) (a_exec E) (a_backend E)) r c b
      | ESessCreate \<Rightarrow> onSessions (handleCreateSession (a_sem E) (a_sess E) (\<lambda>_. a_decSess E (bodyReader cap r))) r c b
      | ESessExec \<Rightarrow> onSessions (handleSessionExec (a_sem E) ((a_step E)\<lparr>st_decode := \<lambda>_. a_decStep E (bodyReader cap r)\<rparr>) (ps ''id'')) r c b
      | ESessFSGet \<Rightarrow> onSessions (total (handleSessionFSGet (a_sess E) (ps ''id''))) r c b
      | ESessFSPut \<Rightarrow> onSessions (total (handleSessionFSPut (a_sess E) (a_now E) (ps ''id''))) r c b
      | ESessFSDelete \<Rightarrow> onSessions (total (handleSessionFSDelete (a_sess E) (ps ''id''))) r c b
      | ESessDestroy \<Rightarrow> onSessions (handleDestroySession (a_sem E) (a_sess E) (ps ''id'')) r c b
      | EVolCreate \<Rightarrow> onVolumes (handleCreateVolume (a_vol E) (a_volIO E) (a_volUUID E) (a_volText E) (a_fmtTime E) (a_decVol E)) r c b
      | EVolList \<Rightarrow> onVolumes (handleListVolumes (a_volText E) (a_fmtTime E)) r c b
      | EVolGet \<Rightarrow> onVolumes (handleGetVolume (a_volText E) (a_fmtTime E) (ps ''id'')) r c b
      | EVolDelete \<Rightarrow> onVolumes (handleDeleteVolume (a_vol E) (a_volText E) (ps ''id'')) r c b
      | EKVPut \<Rightarrow> onMemory (handleKVPut (a_bolt E) (a_codec E) (a_kvText E) (a_statfs E) (a_now E) (ps ''namespace'') (ps ''key'')) r c b
      | EKVGet \<Rightarrow> onMemory (handleKVGet (a_bolt E) (a_codec E) (a_kvText E) (a_fmtTime E) (a_now E) (ps ''namespace'') (ps ''key'')) r c b
      | EKVDelete \<Rightarrow> onMemory (handleKVDelete (a_bolt E) (a_codec E) (a_kvText E) (ps ''namespace'') (ps ''key'')) r c b
      | EKVList \<Rightarrow> onMemory (handleKVList (a_bolt E) (a_codec E) (a_kvText E) (a_now E) (ps ''namespace'')) r c b)"

text \<open>The chain of each group: rate limit, authentication, the key requirement of the memory groups, body limits.\<close>

definition rateGate :: "('tx, 's, 'l) apiEnv \<Rightarrow> 'b handler \<Rightarrow> ('l ipLimiter \<times> 'b) handler" where
  "rateGate E = middleware (a_buckets E) (a_now E)"

definition authGate :: "('tx, 's, 'l) apiEnv \<Rightarrow> 'b handler \<Rightarrow> 'b handler" where
  "authGate E = authMiddleware (a_sha E) (a_keys E) (a_requireAuth E)"

definition endpoint :: "('tx, 's, 'l) apiEnv \<Rightarrow> ep \<Rightarrow> (string \<Rightarrow> string) \<Rightarrow> ('tx, 's, 'l) server_state handler" where
  "endpoint E e ps =
     (let h = (\<lambda>cap. recovered (leaf E e ps cap));
          openly = (\<lambda>r c st. case h None r c (snd st) of (resp, b') \<Rightarrow> (resp, (fst st, b')));
          session = (\<lambda>h'. rateGate E (authGate E h'));
          keyed = (\<lambda>h'. rateGate E (authGate E (requireTenantKey (a_memoryRequireKey E) h'))) in
      case e of
        EExecute \<Rightarrow> maxBody (nat maxBodyBytes) (\<lambda>cap. rateGate E (authGate E (h cap))) None
      | ESessCreate \<Rightarrow> session (maxBody (nat maxBodyBytes) h None)
      | ESessExec \<Rightarrow> session (maxBody (nat maxBodyBytes) h None)
      | ESessFSGet \<Rightarrow> session (h None)
      | ESessFSPut \<Rightarrow> session (maxBody maxSessionUpload h None)
      | ESessFSDelete \<Rightarrow> session (h None)
      | ESessDestroy \<Rightarrow> session (h None)
      | EVolCreate \<Rightarrow> keyed (maxBody (nat maxBodyBytes) h None)
      | EVolList \<Rightarrow> keyed (h None)
      | EVolGet \<Rightarrow> keyed (h None)
      | EVolDelete \<Rightarrow> keyed (h None)
      | EKVPut \<Rightarrow> keyed (maxBody maxKVValue h None)
      | EKVGet \<Rightarrow> keyed (h None)
      | EKVDelete \<Rightarrow> keyed (h None)
      | EKVList \<Rightarrow> keyed (h None)
      | _ \<Rightarrow> openly)"

text \<open>One request through the whole server.\<close>

definition ServeHTTP :: "('tx, 's, 'l) apiEnv \<Rightarrow> route list \<Rightarrow> request \<Rightarrow> ('tx, 's, 'l) server_state \<Rightarrow> response \<times> ('tx, 's, 'l) server_state" where
  "ServeHTTP E rts r st =
     corsMiddleware (\<lambda>r c st. case a_chi E rts (rq_Method r) (rq_Path r) of
         None \<Rightarrow> (a_noRoute E r, st)
       | Some (e, ps) \<Rightarrow> endpoint E e ps r c st) r None st"

text \<open>Construction: the default wait for a slot, a fresh limiter, and the routes of the components that exist.\<close>

definition Router :: "int \<Rightarrow> int \<Rightarrow> int \<Rightarrow> ('tx, 's) backend \<Rightarrow> int \<times> 'l ipLimiter \<times> route list" where
  "Router acquireWait ratePerMin rateBurst b =
     ((if acquireWait \<le> 0 then 2 * seconds else acquireWait), newIPLimiter ratePerMin rateBurst,
      routes (sv_sessions b \<noteq> None) (sv_volumes b \<noteq> None) (sv_memory b \<noteq> None))"

end
