(* ===== verification/RouterProps.thy ===== *)
theory RouterProps
  imports Router
begin

text \<open>
  The server as a whole: what has to happen before a handler runs, and the isolation
  of the tenants' memory over any sequence of requests to any endpoints.
\<close>

section \<open>The gates\<close>

definition open_eps :: "ep list" where
  "open_eps = [EIndex, ELLMs, EOpenAPI, EAssets, EHealthz, EReadyz, ERuntimes, EMetrics]"

definition keyed_eps :: "ep list" where
  "keyed_eps = [EVolCreate, EVolList, EVolGet, EVolDelete, EKVPut, EKVGet, EKVDelete, EKVList]"

definition capOf :: "ep \<Rightarrow> nat option" where
  "capOf e =
     (if e \<in> {EExecute, ESessCreate, ESessExec, EVolCreate} then Some (nat maxBodyBytes)
      else if e = ESessFSPut then Some maxSessionUpload else if e = EKVPut then Some maxKVValue else None)"

text \<open>The tenant a request runs as, if it passes authentication.\<close>

definition tenantOf :: "('tx, 's, 'l) apiEnv \<Rightarrow> request \<Rightarrow> string option" where
  "tenantOf E r =
     (if requestKey r = [] then (if a_requireAuth E then None else Some PublicTenant)
      else case Resolve (a_sha E) (a_keys E) (requestKey r) of (t, ok) \<Rightarrow> if ok then Some t else None)"

lemma authGate_eq:
  "authGate E h r c st = (case tenantOf E r of None \<Rightarrow> (writeJSON 401 (jerror ''unauthorized''), st) | Some t \<Rightarrow> h r (Some t) st)"
  by (auto simp: authGate_def authMiddleware_def tenantOf_def WithTenant_def StatusUnauthorized_def Let_def split: prod.splits)

lemma rateGate_eq:
  "rateGate E h r c (L, b) =
     (case admit (a_buckets E) (a_now E) r L of
        (False, L') \<Rightarrow> (rateLimited, (L', b))
      | (True, L') \<Rightarrow> (case h r c b of (resp, b') \<Rightarrow> (resp, (L', b'))))"
  by (cases "admit (a_buckets E) (a_now E) r L") (auto simp: rateGate_def middleware_def split: bool.splits)

definition keyRefused :: "('tx, 's, 'l) apiEnv \<Rightarrow> ep \<Rightarrow> string \<Rightarrow> bool" where
  "keyRefused E e t \<longleftrightarrow> e \<in> set keyed_eps \<and> a_memoryRequireKey E \<and> (t = [] \<or> t = PublicTenant)"

definition keyRequired :: response where
  "keyRequired = writeJSON 403 (JObj [(''error'', JStr ''api_key_required''),
     (''detail'', JStr ''persistent memory requires an API key (X-API-Key or Bearer); the rest of the API is open'')])"

lemma requireTenantKey_eq:
  "requireTenantKey k h r (Some t) b = (if k \<and> (t = [] \<or> t = PublicTenant) then (keyRequired, b) else h r (Some t) b)"
  by (auto simp: requireTenantKey_def TenantFrom_def keyRequired_def StatusForbidden_def)

lemma endpoint_open:
  assumes "e \<in> set open_eps"
  shows "endpoint E e ps r c (L, b) = (case recovered (leaf E e ps None) r c b of (resp, b') \<Rightarrow> (resp, (L, b')))"
  by (insert assms, cases e) (simp_all add: open_eps_def endpoint_def)

lemma endpoint_gated:
  assumes "e \<notin> set open_eps"
  shows "endpoint E e ps r c (L, b) =
    (case admit (a_buckets E) (a_now E) r L of
       (False, L') \<Rightarrow> (rateLimited, (L', b))
     | (True, L') \<Rightarrow>
       (case tenantOf E r of
          None \<Rightarrow> (writeJSON 401 (jerror ''unauthorized''), (L', b))
        | Some t \<Rightarrow>
          if keyRefused E e t then (keyRequired, (L', b))
          else (case recovered (leaf E e ps (capOf e)) r (Some t) b of (resp, b') \<Rightarrow> (resp, (L', b')))))"
  by (insert assms, cases e; cases "admit (a_buckets E) (a_now E) r L"; cases "tenantOf E r")
     (auto simp: open_eps_def endpoint_def maxBody_def capOf_def keyRefused_def keyed_eps_def rateGate_eq authGate_eq requireTenantKey_eq
       split: bool.splits)

text \<open>
  C9: No handler of the execution, session, volume or memory groups runs before its
  gates.  A request to one of them takes one token of its client's bucket; unless the
  bucket had one, the request has a tenant, and, for volumes and memory when keys are
  required, this is not the public tenant, it is answered 429, 401 or 403 and no
  component changes; otherwise the outcome is that of the handler for this tenant.
\<close>
theorem router_gates:
  assumes "ServeHTTP E rts r (L, b) = (resp, (L', b'))" and "rq_Method r \<noteq> ''OPTIONS''"
    and "a_chi E rts (rq_Method r) (rq_Path r) = Some (e, ps)" and "e \<notin> set open_eps"
  shows "L' = snd (admit (a_buckets E) (a_now E) r L) \<and>
    (b' = b \<and> rs_Status resp \<in> {429, 401, 403} \<or>
     (\<exists>t resp'. fst (admit (a_buckets E) (a_now E) r L) \<and> tenantOf E r = Some t \<and>
        (e \<in> set keyed_eps \<and> a_memoryRequireKey E \<longrightarrow> t \<noteq> [] \<and> t \<noteq> PublicTenant) \<and>
        recovered (leaf E e ps (capOf e)) r (Some t) b = (resp', b') \<and> resp = withCors resp'))"
proof -
  obtain resp0 where "endpoint E e ps r None (L, b) = (resp0, (L', b'))" "resp = withCors resp0"
    using assms(1-3) by (auto simp: ServeHTTP_def corsMiddleware_def split: prod.splits)
  then show ?thesis
    unfolding endpoint_gated [OF assms(4)]
    by (auto simp: rateLimited_def keyRequired_def writeJSON_def withCors_def StatusTooManyRequests_def keyRefused_def
      split: prod.splits bool.splits option.splits if_splits)
qed
text \<open>What one request does to the components: nothing, or one handler.\<close>

lemma serve_leaf:
  assumes "ServeHTTP E rts r (L, Some b) = (resp, (L', Some b'))"
  shows "b' = b \<or> (\<exists>e ps resp. e \<in> set open_eps \<and> leaf E e ps None r None b = Some (resp, b')) \<or>
    (\<exists>e ps t resp. e \<notin> set open_eps \<and> tenantOf E r = Some t \<and> leaf E e ps (capOf e) r (Some t) b = Some (resp, b'))"
proof (cases "b' = b")
  case ne: False
  obtain e ps resp' where x: "endpoint E e ps r None (L, Some b) = (resp', (L', Some b'))"
    using assms ne by (auto simp: ServeHTTP_def corsMiddleware_def split: if_splits option.splits prod.splits)
  show ?thesis
  proof (cases "e \<in> set open_eps")
    case True
    then show ?thesis using x by (auto simp: endpoint_open recovered_def split: prod.splits option.splits)
  next
    case False
    then obtain t resp' where "tenantOf E r = Some t" "leaf E e ps (capOf e) r (Some t) b = Some (resp', b')"
      using x ne by (auto simp: endpoint_gated recovered_def split: prod.splits option.splits bool.splits if_splits)
    then show ?thesis using False by blast
  qed
qed simp

section \<open>Isolation\<close>

lemma leaf_memory_other:
  assumes "leaf E e ps cap r c b = Some (resp, b')" and "e \<notin> {EKVPut, EKVGet, EKVDelete, EKVList}"
  shows "sv_memory b' = sv_memory b"
  by (insert assms, cases e)
     (auto simp: leaf_def handleMetricsB_def onExecute_def onSessions_def onVolumes_def split: prod.splits option.splits)

text \<open>What a memory handler does to the store is at most one call of it, for the tenant of the context.\<close>

lemma handleKVGet_op:
  assumes "handleKVGet B C errText fmtTime c ns k r (Some x) s = (resp, s')"
  shows "s' = s \<or> s' = kv_exec B C c (OpGet x ns k) s"
  using assms by (auto simp: handleKVGet_def reqTenant_def TenantFrom_def Let_def split: if_splits sum.splits prod.splits)

lemma handleKVList_op:
  assumes "handleKVList B C errText c ns r (Some x) s = (resp, s')"
  shows "s' = s \<or> (\<exists>pfx limit cursor. s' = kv_exec B C c (OpList x ns pfx limit cursor) s)"
proof -
  have "s' = s \<or> s' = snd (ListKeys B C c s x ns (Query_Get r ''prefix'')
      (if Query_Get r ''limit'' \<noteq> [] then atoiValue (Query_Get r ''limit'') else 0) (Query_Get r ''cursor''))"
    using assms by (auto simp: handleKVList_def reqTenant_def TenantFrom_def Let_def split: if_splits sum.splits prod.splits)
  then show ?thesis by (metis kv_exec.simps(4))
qed

definition opOf :: "string \<Rightarrow> kv_op \<Rightarrow> bool" where
  "opOf x cmd \<longleftrightarrow> (\<exists>ns k v ct ttl. cmd = OpPut x ns k v ct ttl) \<or> (\<exists>ns k. cmd = OpGet x ns k) \<or> (\<exists>ns k. cmd = OpDelete x ns k) \<or>
     (\<exists>ns pfx limit cursor. cmd = OpList x ns pfx limit cursor)"

lemma opOf_simps [simp]: "opOf x (OpPut x ns k v ct ttl)" "opOf x (OpGet x ns k)" "opOf x (OpDelete x ns k)" "opOf x (OpList x ns pfx limit cursor)"
  by (simp_all add: opOf_def)

lemma leaf_memory:
  assumes "leaf E e ps cap r (Some x) b = Some (resp, b')" and "sv_memory b = Some s"
    and "\<forall>ttl. ttlHeader r = Inr ttl \<longrightarrow> a_now E + ttl < 2 ^ 63" and "a_now E < 2 ^ 63"
  shows "\<exists>s'. sv_memory b' = Some s' \<and> (s' = s \<or> (\<exists>cmd. opOf x cmd \<and> a_now E + op_ttl cmd < 2 ^ 63 \<and>
     s' = kv_exec (a_bolt E) (a_codec E) (a_now E) cmd s))"
proof (cases "e \<in> {EKVPut, EKVGet, EKVDelete, EKVList}")
  case False
  then show ?thesis using leaf_memory_other [OF assms(1)] assms(2) by simp
next
  case True
  let ?B = "a_bolt E" and ?C = "a_codec E" and ?n = "a_now E" and ?ns = "ps ''namespace''" and ?k = "ps ''key''"
  have call: ?thesis if "sv_memory b' = Some s'" "s' = s \<or> s' = kv_exec ?B ?C ?n cmd s" "opOf x cmd" "?n + op_ttl cmd < 2 ^ 63" for s' cmd
    using that by blast
  have on: "\<exists>s'. h r (Some x) s = (resp, s') \<and> sv_memory b' = Some s'" if "onMemory h r (Some x) b = Some (resp, b')" for h
    using that assms(2) by (auto simp: onMemory_def split: prod.splits)
  consider (p) "e = EKVPut" | (g) "e = EKVGet" | (d) "e = EKVDelete" | (l) "e = EKVList" using True by blast
  then show ?thesis
  proof cases
    case p
    then obtain s' where s': "handleKVPut ?B ?C (a_kvText E) (a_statfs E) ?n ?ns ?k r (Some x) s = (resp, s')" "sv_memory b' = Some s'"
      using on assms(1) by (auto simp: leaf_def)
    show ?thesis
    proof (cases "s' = s")
      case False
      then obtain ttl where "ttlHeader r = Inr ttl" "s' = kv_exec ?B ?C ?n (OpPut x ?ns ?k (rq_Body r) (Header_Get r ''Content-Type'') ttl) s"
        using handleKVPut_op [OF s'(1)] by blast
      then show ?thesis using call [OF s'(2)] assms(3) opOf_simps(1) op_ttl.simps(1) by metis
    qed (use s'(2) in blast)
  next
    case g
    then obtain s' where s': "handleKVGet ?B ?C (a_kvText E) (a_fmtTime E) ?n ?ns ?k r (Some x) s = (resp, s')" "sv_memory b' = Some s'"
      using on assms(1) by (auto simp: leaf_def)
    show ?thesis by (rule call [OF s'(2) handleKVGet_op [OF s'(1)]]) (use assms(4) in simp_all)
  next
    case d
    then obtain s' where s': "handleKVDelete ?B ?C (a_kvText E) ?ns ?k r (Some x) s = (resp, s')" "sv_memory b' = Some s'"
      using on assms(1) by (auto simp: leaf_def)
    have "s' = s \<or> s' = kv_exec ?B ?C ?n (OpDelete x ?ns ?k) s" using handleKVDelete_op [OF s'(1), of ?n] by blast
    then show ?thesis by (rule call [OF s'(2)]) (use assms(4) in simp_all)
  next
    case l
    then obtain s' where s': "handleKVList ?B ?C (a_kvText E) ?n ?ns r (Some x) s = (resp, s')" "sv_memory b' = Some s'"
      using on assms(1) by (auto simp: leaf_def)
    obtain pfx limit cursor where "s' = s \<or> s' = kv_exec ?B ?C ?n (OpList x ?ns pfx limit cursor) s" using handleKVList_op [OF s'(1)] by blast
    then show ?thesis by (rule call [OF s'(2)]) (use assms(4) in simp_all)
  qed
qed

lemma mem_step_other: "opOf x cmd \<Longrightarrow> t \<noteq> x \<Longrightarrow> mem_step c cmd ok M t = M t"
  by (cases ok) (auto simp: opOf_def)


text \<open>One request: the store stays reachable, and only the memory of the request's own tenant can change.\<close>

lemma serve_memory:
  assumes "kv_backend (a_bolt E) view (a_codec E)" and "kv_reach (a_bolt E) (a_codec E) s P (a_now E)" and "sv_memory b = Some s"
    and "ServeHTTP E rts r (L, Some b) = (resp, (L', Some b'))"
    and "\<forall>ttl. ttlHeader r = Inr ttl \<longrightarrow> a_now E + ttl < 2 ^ 63"
  shows "\<exists>s'. sv_memory b' = Some s' \<and> kv_reach (a_bolt E) (a_codec E) s' P (a_now E) \<and>
    (\<forall>t. tenantOf E r \<noteq> Some t \<longrightarrow> amem view (a_codec E) s' t = amem view (a_codec E) s t)"
proof -
  have inv: "store_inv view (a_codec E) s" "0 \<le> a_now E" "a_now E < 2 ^ 63" and d: "dir s \<noteq> []"
    using kv_backend.reach_store_inv [OF assms(1,2)] kv_reach_dir [OF assms(2)] by auto
  consider "sv_memory b' = sv_memory b"
    | e ps t resp where "tenantOf E r = Some t" "leaf E e ps (capOf e) r (Some t) b = Some (resp, b')"
    using serve_leaf [OF assms(4)] leaf_memory_other [of E _ _ None r None b _ b'] by (fastforce simp: open_eps_def)
  then show ?thesis
  proof cases
    case 1
    then show ?thesis using assms(2,3) by auto
  next
    case (2 e ps t)
    obtain s' where s': "sv_memory b' = Some s'"
        "s' = s \<or> (\<exists>cmd. opOf t cmd \<and> a_now E + op_ttl cmd < 2 ^ 63 \<and> s' = kv_exec (a_bolt E) (a_codec E) (a_now E) cmd s)"
      using leaf_memory [OF 2(2) assms(3,5) inv(3)] by blast
    show ?thesis
    proof (cases "s' = s")
      case False
      then obtain cmd where c: "opOf t cmd" "a_now E + op_ttl cmd < 2 ^ 63" "s' = kv_exec (a_bolt E) (a_codec E) (a_now E) cmd s"
        using s'(2) by blast
      have "kv_reach (a_bolt E) (a_codec E) s' P (a_now E)" unfolding c(3) by (rule kv_call [OF assms(2) c(2)])
      moreover have "amem view (a_codec E) s' u = amem view (a_codec E) s u" if "u \<noteq> t" for u
        unfolding c(3) kv_backend.exec_amem [OF assms(1) inv(1,2) c(2) d] by (rule mem_step_other [OF c(1) that])
      ultimately show ?thesis using s'(1) 2(1) by auto
    qed (use s'(1) assms(2) in auto)
  qed
qed

section \<open>Sequences of requests\<close>

text \<open>Requests one after another, each with its own instant, host answers and configuration.\<close>

fun serveSeq :: "route list \<Rightarrow> (('tx, 's, 'l) apiEnv \<times> request) list \<Rightarrow> ('tx, 's, 'l) server_state \<Rightarrow> ('tx, 's, 'l) server_state" where
  "serveSeq rts [] st = st"
| "serveSeq rts ((E, r) # xs) st = serveSeq rts xs (snd (ServeHTTP E rts r st))"

lemma serve_panicked: "snd (snd (ServeHTTP E rts r (L, None))) = None"
proof -
  have "snd (snd (endpoint E e ps r c (L, None))) = None" for e ps c
  proof (cases "e \<in> set open_eps")
    case True
    then show ?thesis by (simp add: endpoint_open recovered_def)
  next
    case False
    then show ?thesis by (simp add: endpoint_gated recovered_def split: prod.splits bool.splits option.splits)
  qed
  then show ?thesis by (auto simp: ServeHTTP_def corsMiddleware_def split: option.splits prod.splits) (metis snd_conv)
qed

lemma serveSeq_panicked: "snd (serveSeq rts xs (L, None)) = None"
proof (induction xs arbitrary: L)
  case (Cons x xs)
  obtain E r where x: "x = (E, r)" by fastforce
  have "snd (ServeHTTP E rts r (L, None)) = (fst (snd (ServeHTTP E rts r (L, None))), None)"
    using serve_panicked [of E rts r L] by (simp add: prod_eq_iff)
  then show ?case using Cons.IH x by (metis serveSeq.simps(2))
qed simp



section \<open>A server for the witnesses\<close>

definition demo_chi :: "route list \<Rightarrow> string \<Rightarrow> string \<Rightarrow> (ep \<times> (string \<Rightarrow> string)) option" where
  "demo_chi rts m p =
     (if m = ''PUT'' \<and> EKVPut \<in> (snd \<circ> snd) ` set rts then Some (EKVPut, \<lambda>x. if x = ''namespace'' then ''ns'' else ''k'') else None)"

definition demo_stepEnv :: stepEnv where
  "demo_stepEnv = \<lparr>st_decode = (\<lambda>_. NoJSON), st_parseFloat = (\<lambda>_. Fin 0), st_uni = id, st_flusher = True, st_chunks = (\<lambda>_. []),
     st_exec = (\<lambda>_. (zero_Result, None)), st_waitOver = False, st_clock = 5, st_backend = ''gvisor'', st_U = (\<lambda>_. None),
     st_M = (\<lambda>_ _. []), st_stepID = ''i'', st_writeOk = True, st_reads = [], st_serr = (\<lambda>_. [])\<rparr>"

definition demo_api where
  "demo_api = \<lparr>a_chi = demo_chi, a_noRoute = (\<lambda>_. statusOnly 404), a_buckets = exact_buckets, a_now = 5, a_sha = demo_sha,
     a_keys = NewKeyStore demo_sha [''a''], a_requireAuth = False, a_memoryRequireKey = False, a_bolt = mem_bolt, a_codec = ref_codec,
     a_kvText = (\<lambda>_. []), a_statfs = None, a_fmtTime = (\<lambda>_. []), a_vol = VolumeTheorems.demo_env, a_volIO = demo_io, a_volUUID = demo_uuid,
     a_volText = (\<lambda>_. []), a_decVol = (\<lambda>_. NoJSON), a_sem = counter, a_sess = demo_senv, a_step = demo_stepEnv,
     a_decSess = (\<lambda>_. NoJSON), a_decStep = (\<lambda>_. NoJSON), a_decExec = (\<lambda>_. Inr []), a_fmtq = id, a_fmtg = (\<lambda>_. []), a_scan = Atoi,
     a_driver = InProc, a_ctxDone = False, a_flusher = True, a_chunks = (\<lambda>_. []), a_exec = (\<lambda>_. (zero_Result, None)),
     a_backend = ''gvisor'', a_health = None, a_healthText = (\<lambda>_. []), a_readFile = (\<lambda>_. None), a_index = [], a_llms = [],
     a_openapi = [], a_assets = (\<lambda>_. None)\<rparr>"

definition demo_backend where
  "demo_backend = \<lparr>sv_sema = New counter 4, sv_execTotal = [], sv_reg = \<lparr>byKey = Map.empty, all = []\<rparr>, sv_sessions = None,
     sv_volumes = None, sv_memory = Some s0, sv_pool = None, sv_scrape = \<lparr>once = False, gauges = []\<rparr>\<rparr>"

definition demo_lim :: "bucket ipLimiter" where "demo_lim = newIPLimiter 30 10"

abbreviation "demo_rts \<equiv> routes False False True"

lemma demo_request:
  "demo_chi demo_rts (rq_Method demo_put) (rq_Path demo_put) = Some (EKVPut, \<lambda>x. if x = ''namespace'' then ''ns'' else ''k'')"
  "rq_Method demo_put \<noteq> ''OPTIONS''" "tenantOf demo_api demo_put = Some PublicTenant"
proof -
  have "requestKey demo_put = []" by code_simp
  then show "tenantOf demo_api demo_put = Some PublicTenant" by (simp add: tenantOf_def demo_api_def)
  show "demo_chi demo_rts (rq_Method demo_put) (rq_Path demo_put) = Some (EKVPut, \<lambda>x. if x = ''namespace'' then ''ns'' else ''k'')"
    by (simp add: demo_chi_def routes_def memoryRoutes_def demo_put_def image_iff)
qed (simp add: demo_put_def)

lemma demo_admitted: "fst (admit exact_buckets 5 r demo_lim)"
proof -
  obtain ok L where a: "admit exact_buckets 5 r demo_lim = (ok, L)" by fastforce
  have "1 \<le> exact.lev demo_lim (clientIP r) 5" by (simp add: exact.lev_def demo_lim_def newIPLimiter_def)
  then show ?thesis using exact.admit_lev(1) [OF _ a] exact.lim_inv_new [of 5 30 10] a by (simp add: demo_lim_def)
qed

lemma demo_served:
  assumes "rq_Method r = ''PUT''" and "tenantOf demo_api r = Some t" and "sv_memory b \<noteq> None"
  shows "\<exists>resp L b'. ServeHTTP demo_api demo_rts r (demo_lim, Some b) = (resp, (L, Some b'))"
proof -
  obtain L where a: "admit exact_buckets 5 r demo_lim = (True, L)" using demo_admitted [of r] by (metis prod.collapse)
  have chi: "demo_chi demo_rts (rq_Method r) (rq_Path r) = Some (EKVPut, \<lambda>x. if x = ''namespace'' then ''ns'' else ''k'')"
    using assms(1) by (simp add: demo_chi_def routes_def memoryRoutes_def image_iff)
  have "EKVPut \<notin> set open_eps" by (simp add: open_eps_def)
  note g = endpoint_gated [OF this, of demo_api "\<lambda>x. if x = ''namespace'' then ''ns'' else ''k''" r None demo_lim "Some b"]
  have k: "\<not> keyRefused demo_api EKVPut t" by (simp add: keyRefused_def demo_api_def)
  have api: "a_buckets demo_api = exact_buckets" "a_now demo_api = 5" "a_chi demo_api = demo_chi" by (simp_all add: demo_api_def)
  show ?thesis
    using chi assms by (auto simp: ServeHTTP_def corsMiddleware_def api g a k recovered_def leaf_def onMemory_def split: prod.splits)
qed

lemma demo_put_served: "\<exists>resp L b'. ServeHTTP demo_api demo_rts demo_put (demo_lim, Some demo_backend) = (resp, (L, Some b'))"
  by (rule demo_served [OF _ demo_request(3)]) (simp_all add: demo_put_def demo_backend_def)


theorem router_gates_witness:
  "\<exists>resp L b'. ServeHTTP demo_api demo_rts demo_put (demo_lim, Some demo_backend) = (resp, (L, b')) \<and>
     L = snd (admit exact_buckets 5 demo_put demo_lim)"
proof -
  obtain resp L b' where v: "ServeHTTP demo_api demo_rts demo_put (demo_lim, Some demo_backend) = (resp, (L, Some b'))"
    using demo_put_served by blast
  have api: "a_buckets demo_api = exact_buckets" "a_now demo_api = 5" "a_chi demo_api = demo_chi" by (simp_all add: demo_api_def)
  have "EKVPut \<notin> set open_eps" by (simp add: open_eps_def)
  from router_gates [OF v demo_request(2) _ this] show ?thesis using v demo_request(1) by (auto simp: api)
qed

end
