(* ===== verification/JobBus.thy ===== *)
theory JobBus
  imports ExecuteApi
begin

text \<open>
  The Valkey job bus of \<^verbatim>\<open>internal/queue/valkey.go\<close>.  The broker (a Redis stream with
  a consumer group, and result lists) is a parameter: the record \<open>broker\<close> holds the
  commands the driver sends and the locale \<open>job_broker\<close> their documented behaviour,
  over what the broker stores, the unacknowledged messages and the result lists, with
  an interpretation by a broker in memory.  The encodings of jobs and results are a
  record with the laws of the locale \<open>job_codec\<close>, and the runner is what a job's execution
  returned.  A submitter and the workers take turns in \<open>bus_step\<close>; the wait of a
  submitter for its result is \<open>waitLoop\<close>.
\<close>

section \<open>Data\<close>

record Job =
  j_ID :: string
  j_Language :: string
  j_Version :: string
  j_Spec :: Spec

record ValkeyConfig =
  vc_Addr :: string
  vc_Password :: string
  vc_TLS :: bool
  vc_SkipVerify :: bool

record tlsConfig =
  MinVersion :: int
  InsecureSkipVerify :: bool

record redisOptions =
  ro_Addr :: string
  ro_Password :: string
  ro_TLSConfig :: "tlsConfig option"

record valkeyDriver =
  v_rdb :: redisOptions
  v_stream :: string
  v_group :: string
  v_consumer :: string
  v_resultTTL :: int
  v_cancel :: "bool option"
  v_goroutines :: nat
  v_connOpen :: bool

definition valkeyStream :: string where "valkeyStream = ''isobox:jobs''"
definition valkeyGroup :: string where "valkeyGroup = ''workers''"
definition valkeyResultTTL :: int where "valkeyResultTTL = 60 * seconds"

text \<open>TLS 1.2 as \<^verbatim>\<open>crypto/tls\<close> numbers it.\<close>

definition VersionTLS12 :: int where "VersionTLS12 = 0x0303"

definition redisOpts :: "ValkeyConfig \<Rightarrow> redisOptions" where
  "redisOpts cfg = \<lparr>ro_Addr = vc_Addr cfg, ro_Password = vc_Password cfg,
     ro_TLSConfig = (if vc_TLS cfg then Some \<lparr>MinVersion = VersionTLS12, InsecureSkipVerify = vc_SkipVerify cfg\<rparr> else None)\<rparr>"

text \<open>
  \<open>ping\<close> says whether the broker answers a ping over a connection with these options.
  Without an answer there is no driver; an error on creating the group is only logged.
\<close>

definition NewValkey :: "(redisOptions \<Rightarrow> bool) \<Rightarrow> string \<Rightarrow> ValkeyConfig \<Rightarrow> valkeyDriver option" where
  "NewValkey ping uuid cfg =
     (let rdb = redisOpts cfg in
      if \<not> ping rdb then None
      else Some \<lparr>v_rdb = rdb, v_stream = valkeyStream, v_group = valkeyGroup, v_consumer = ''isobox-'' @ take 8 uuid, v_resultTTL = valkeyResultTTL,
        v_cancel = None, v_goroutines = 0, v_connOpen = True\<rparr>)"

text \<open>
  \<open>v_cancel\<close> is \<open>None\<close> before the workers start and then whether their context has been
  cancelled.  Each call launches the workers and one reaper.
\<close>

definition StartWorkers :: "int \<Rightarrow> valkeyDriver \<Rightarrow> valkeyDriver" where
  "StartWorkers n v =
     (let n = (if n \<le> 0 then 2 else n) in v\<lparr>v_cancel := Some False, v_goroutines := v_goroutines v + nat n + 1\<rparr>)"

definition Close :: "valkeyDriver \<Rightarrow> valkeyDriver" where
  "Close v = v\<lparr>v_cancel := map_option (\<lambda>_. True) (v_cancel v), v_connOpen := False\<rparr>"

definition resKey :: "string \<Rightarrow> string" where
  "resKey jid = ''isobox:res:'' @ jid"

type_synonym msg = "string \<times> bytes"

text \<open>
  The commands: appending a job, reading new messages, claiming idle ones,
  acknowledging, publishing a result (push and expiry in one pipeline) and popping
  one.  A command that fails changes nothing.
\<close>

record 'b broker =
  XAdd :: "bytes \<Rightarrow> 'b \<Rightarrow> 'b option"
  XReadGroup :: "'b \<Rightarrow> msg list \<times> 'b"
  XAutoClaim :: "'b \<Rightarrow> msg list \<times> 'b"
  XAck :: "string \<Rightarrow> 'b \<Rightarrow> 'b"
  RPushExpire :: "string \<Rightarrow> bytes \<Rightarrow> 'b \<Rightarrow> 'b option"
  BLPop :: "string \<Rightarrow> 'b \<Rightarrow> bytes option \<times> 'b"
  Expired :: "'b \<Rightarrow> 'b"

record wire =
  marshalJob :: "Job \<Rightarrow> bytes option"
  unmarshalJob :: "bytes \<Rightarrow> Job option"
  marshalEnv :: "resultEnvelope \<Rightarrow> bytes"
  unmarshalEnv :: "bytes \<Rightarrow> resultEnvelope option"

section \<open>Submitting\<close>

datatype submit_error = MarshalJob | XAddFailed | ResultTimeout string | CtxErr | BLPopFailed string | UnmarshalResult | Remote string

text \<open>\<open>enqueue\<close> is the first half of \<open>Submit\<close>: the id, the payload and the append.\<close>

definition withID :: "string \<Rightarrow> Job \<Rightarrow> Job" where
  "withID uuid j = (if j_ID j = [] then j\<lparr>j_ID := uuid\<rparr> else j)"

definition enqueue :: "'b broker \<Rightarrow> wire \<Rightarrow> string \<Rightarrow> Job \<Rightarrow> 'b \<Rightarrow> submit_error option \<times> 'b" where
  "enqueue R W uuid j b =
     (case marshalJob W (withID uuid j) of
        None \<Rightarrow> (Some MarshalJob, b)
      | Some p \<Rightarrow> (case XAdd R p b of None \<Rightarrow> (Some XAddFailed, b) | Some b' \<Rightarrow> (None, b')))"

definition openResult :: "wire \<Rightarrow> bytes \<Rightarrow> Result \<times> submit_error option" where
  "openResult W p =
     (case unmarshalEnv W p of
        None \<Rightarrow> (zero_Result, Some UnmarshalResult)
      | Some rr \<Rightarrow> (v_Result rr, if v_Err rr \<noteq> [] then Some (Remote (v_Err rr)) else None))"

text \<open>
  One blocking pop: nothing came within the time asked for (\<open>redis.Nil\<close>), the
  command failed, or a value.  \<open>late\<close> is how much longer than asked it blocked, and
  the flag whether the request's context has ended.
\<close>

datatype pop = PopNil nat bool | PopErr string bool | Popped bytes

text \<open>The wait: \<open>pops\<close> are the answers to the successive polls, \<open>remain\<close> the time to the deadline.\<close>

function waitLoop :: "wire \<Rightarrow> string \<Rightarrow> (nat \<Rightarrow> pop) \<Rightarrow> nat \<Rightarrow> int \<Rightarrow> (Result \<times> submit_error option) \<times> nat" where
  "waitLoop W jid pops n remain =
     (if remain \<le> 0 then ((zero_Result, Some (ResultTimeout jid)), n)
      else let block = (if remain > seconds then seconds else remain) in
        case pops n of
          PopNil late ctxDone \<Rightarrow>
            if ctxDone then ((zero_Result, Some CtxErr), Suc n)
            else waitLoop W jid pops (Suc n) (remain - block - int late)
        | PopErr e ctxDone \<Rightarrow> ((zero_Result, Some (if ctxDone then CtxErr else BLPopFailed e)), Suc n)
        | Popped p \<Rightarrow> (openResult W p, Suc n))"
  by pat_completeness auto
termination
  by (relation "measure (\<lambda>(W, jid, pops, n, remain). nat remain)") (auto simp: seconds_def)

declare waitLoop.simps [simp del]

text \<open>The deadline is the earlier of the result's lifetime and the request's own.\<close>

definition waitTime :: "valkeyDriver \<Rightarrow> int option \<Rightarrow> int" where
  "waitTime v ctxRemain = (case ctxRemain of Some d \<Rightarrow> if d < v_resultTTL v then d else v_resultTTL v | None \<Rightarrow> v_resultTTL v)"

definition awaitResult :: "valkeyDriver \<Rightarrow> wire \<Rightarrow> string \<Rightarrow> int option \<Rightarrow> (nat \<Rightarrow> pop) \<Rightarrow> (Result \<times> submit_error option) \<times> nat" where
  "awaitResult v W jid ctxRemain pops = waitLoop W jid pops 0 (waitTime v ctxRemain)"

section \<open>Working\<close>

text \<open>
  \<open>processMsg\<close> is \<open>process\<close> of one message: run the job, publish the envelope,
  acknowledge in every case.  \<open>run\<close> is what the runner returns.
\<close>

definition publish :: "'b broker \<Rightarrow> wire \<Rightarrow> string \<Rightarrow> resultEnvelope \<Rightarrow> 'b \<Rightarrow> 'b" where
  "publish R W jid env b = (case RPushExpire R (resKey jid) (marshalEnv W env) b of None \<Rightarrow> b | Some b' \<Rightarrow> b')"

definition processMsg :: "'b broker \<Rightarrow> wire \<Rightarrow> (Spec \<Rightarrow> Result \<times> api_error option) \<Rightarrow> msg \<Rightarrow> 'b \<Rightarrow> 'b" where
  "processMsg R W run m b =
     XAck R (fst m)
       (case unmarshalJob W (snd m) of
          None \<Rightarrow> b
        | Some j \<Rightarrow> publish R W (j_ID j) (process (run (j_Spec j))) b)"

text \<open>One turn of the worker loop, and one tick of the reaper; a failed read changes nothing.\<close>

definition workerTurn :: "'b broker \<Rightarrow> wire \<Rightarrow> (Spec \<Rightarrow> Result \<times> api_error option) \<Rightarrow> bool \<Rightarrow> 'b \<Rightarrow> 'b" where
  "workerTurn R W run readOk b =
     (if \<not> readOk then b else case XReadGroup R b of (ms, b') \<Rightarrow> fold (processMsg R W run) ms b')"

definition reaperTick :: "'b broker \<Rightarrow> wire \<Rightarrow> (Spec \<Rightarrow> Result \<times> api_error option) \<Rightarrow> bool \<Rightarrow> 'b \<Rightarrow> 'b" where
  "reaperTick R W run claimOk b =
     (if \<not> claimOk then b else case XAutoClaim R b of (ms, b') \<Rightarrow> fold (processMsg R W run) ms b')"

text \<open>
  The worker loop over the answers to its successive reads: the context has ended
  before the read, the read timed out, failed (with the context ended or not), or
  gave messages.  The flag of the result says that the worker has returned.
\<close>

datatype rd = RdDone | RdNil | RdErr bool | RdMsgs

fun worker :: "'b broker \<Rightarrow> wire \<Rightarrow> (Spec \<Rightarrow> Result \<times> api_error option) \<Rightarrow> rd list \<Rightarrow> 'b \<Rightarrow> bool \<times> 'b" where
  "worker R W run [] b = (False, b)"
| "worker R W run (RdDone # rs) b = (True, b)"
| "worker R W run (RdNil # rs) b = worker R W run rs b"
| "worker R W run (RdErr ctxDone # rs) b = (if ctxDone then (True, b) else worker R W run rs (workerTurn R W run False b))"
| "worker R W run (RdMsgs # rs) b = worker R W run rs (workerTurn R W run True b)"

section \<open>The broker's contract\<close>

text \<open>
  \<open>msgs\<close> are the messages not acknowledged yet, \<open>used\<close> the message ids given out so
  far, \<open>res\<close> the result lists.
\<close>

locale redis_broker =
  fixes R :: "'b broker"
    and msgs :: "'b \<Rightarrow> msg set" and used :: "'b \<Rightarrow> string set" and res :: "'b \<Rightarrow> string \<Rightarrow> bytes list"
  assumes XAdd_ok: "XAdd R p b = Some b' \<Longrightarrow> \<exists>i. i \<notin> used b \<and> used b' = insert i (used b) \<and> msgs b' = insert (i, p) (msgs b) \<and> res b' = res b"
    and Read_ok: "XReadGroup R b = (ms, b') \<Longrightarrow> set ms \<subseteq> msgs b \<and> msgs b' = msgs b \<and> used b' = used b \<and> res b' = res b"
    and Claim_ok: "XAutoClaim R b = (ms, b') \<Longrightarrow> set ms \<subseteq> msgs b \<and> msgs b' = msgs b \<and> used b' = used b \<and> res b' = res b"
    and Ack_ok: "{m \<in> msgs b. fst m \<noteq> i} \<subseteq> msgs (XAck R i b) \<and> msgs (XAck R i b) \<subseteq> msgs b \<and>
       used (XAck R i b) = used b \<and> res (XAck R i b) = res b"
    and Push_ok: "RPushExpire R k p b = Some b' \<Longrightarrow> res b' = (res b)(k := res b k @ [p]) \<and> msgs b' = msgs b \<and> used b' = used b"
    and Pop_ok: "BLPop R k b = (x, b') \<Longrightarrow> msgs b' = msgs b \<and> used b' = used b \<and>
       (case x of None \<Rightarrow> res b' = res b | Some p \<Rightarrow> res b k \<noteq> [] \<and> p = hd (res b k) \<and> res b' = (res b)(k := tl (res b k)))"
    and Expired_ok: "msgs (Expired R b) = msgs b \<and> used (Expired R b) = used b \<and> set (res (Expired R b) k) \<subseteq> set (res b k)"

text \<open>
  JSON coerces strings to valid UTF-8, so a job or an envelope comes back in a normal
  form (\<open>jn\<close>, \<open>en\<close>), which keeps an id of ASCII characters.
\<close>

locale job_codec =
  fixes W :: wire and jn :: "Job \<Rightarrow> Job" and en :: "resultEnvelope \<Rightarrow> resultEnvelope"
  assumes job_roundtrip: "marshalJob W j = Some p \<Longrightarrow> unmarshalJob W p = Some (jn j)"
    and job_id: "is_ascii (j_ID j) \<Longrightarrow> j_ID (jn j) = j_ID j"
    and env_roundtrip: "unmarshalEnv W (marshalEnv W e) = Some (en e)"

locale job_broker = redis_broker R msgs used res + job_codec W jn en
  for R :: "'b broker" and W :: wire and msgs used res jn en

section \<open>The bus at work\<close>

text \<open>
  The id of a submitted job is the text of a uuid, so it is ASCII.
  \<open>fetched\<close> are messages a worker or the reaper of some process holds; a process
  that dies never processes its own.  \<open>runs\<close> records what the runner returned for a
  job, \<open>answers\<close> what a submitter read off its result list.
\<close>

record 'b bworld =
  bus :: 'b
  submitted :: "Job set"
  fetched :: "msg set"
  runs :: "(Job \<times> (Result \<times> api_error option)) set"
  answers :: "(string \<times> (Result \<times> submit_error option)) set"

inductive bus_step :: "'b broker \<Rightarrow> wire \<Rightarrow> 'b bworld \<Rightarrow> 'b bworld \<Rightarrow> bool" for R W where
  b_submit: "is_ascii (j_ID (withID uuid j)) \<Longrightarrow> enqueue R W uuid j (bus w) = (None, b') \<Longrightarrow>
    bus_step R W w (w\<lparr>bus := b', submitted := insert (withID uuid j) (submitted w)\<rparr>)"
| b_submitFail: "enqueue R W uuid j (bus w) = (Some e, b') \<Longrightarrow> bus_step R W w (w\<lparr>bus := b'\<rparr>)"
| b_read: "XReadGroup R (bus w) = (ms, b') \<Longrightarrow> bus_step R W w (w\<lparr>bus := b', fetched := fetched w \<union> set ms\<rparr>)"
| b_claim: "XAutoClaim R (bus w) = (ms, b') \<Longrightarrow> bus_step R W w (w\<lparr>bus := b', fetched := fetched w \<union> set ms\<rparr>)"
| b_process: "m \<in> fetched w \<Longrightarrow>
    bus_step R W w (w\<lparr>bus := processMsg R W run m (bus w),
      runs := runs w \<union> (case unmarshalJob W (snd m) of None \<Rightarrow> {} | Some j \<Rightarrow> {(j, run (j_Spec j))})\<rparr>)"
| b_pop: "BLPop R (resKey jid) (bus w) = (Some p, b') \<Longrightarrow>
    bus_step R W w (w\<lparr>bus := b', answers := insert (jid, openResult W p) (answers w)\<rparr>)"
| b_popNil: "BLPop R k (bus w) = (None, b') \<Longrightarrow> bus_step R W w (w\<lparr>bus := b'\<rparr>)"
| b_expire: "bus_step R W w (w\<lparr>bus := Expired R (bus w)\<rparr>)"

inductive bus_reach :: "'b broker \<Rightarrow> wire \<Rightarrow> 'b \<Rightarrow> 'b bworld \<Rightarrow> bool" for R W b0 where
  b_start: "bus_reach R W b0 \<lparr>bus = b0, submitted = {}, fetched = {}, runs = {}, answers = {}\<rparr>"
| b_next: "bus_reach R W b0 w \<Longrightarrow> bus_step R W w w' \<Longrightarrow> bus_reach R W b0 w'"

text \<open>What a submitter returns for the envelope it decoded.\<close>

definition delivered :: "resultEnvelope \<Rightarrow> Result \<times> submit_error option" where
  "delivered e = (v_Result e, if v_Err e \<noteq> [] then Some (Remote (v_Err e)) else None)"

lemma resKey_inject [simp]: "resKey i = resKey j \<longleftrightarrow> i = j"
  by (simp add: resKey_def)

context job_broker
begin

definition msg_ok :: "'b bworld \<Rightarrow> msg \<Rightarrow> bool" where
  "msg_ok w m \<longleftrightarrow> fst m \<in> used (bus w) \<and> (\<exists>j \<in> submitted w. marshalJob W j = Some (snd m))"

definition bus_inv :: "'b bworld \<Rightarrow> bool" where
  "bus_inv w \<longleftrightarrow> (\<forall>m \<in> msgs (bus w) \<union> fetched w. msg_ok w m) \<and> inj_on fst (msgs (bus w) \<union> fetched w) \<and>
     fst ` runs w \<subseteq> jn ` submitted w \<and>
     (\<forall>k. \<forall>p \<in> set (res (bus w) k). \<exists>(j, r) \<in> runs w. k = resKey (j_ID j) \<and> p = marshalEnv W (process r)) \<and>
     (\<forall>(jid, a) \<in> answers w. \<exists>(j, r) \<in> runs w. j_ID j = jid \<and> a = delivered (en (process r))) \<and>
     (\<forall>j \<in> submitted w. jn j \<in> fst ` runs w \<or> (\<exists>m \<in> msgs (bus w). marshalJob W j = Some (snd m)))"

lemma open_delivered: "openResult W (marshalEnv W (process r)) = delivered (en (process r))"
  by (simp add: openResult_def env_roundtrip delivered_def)

lemma publish_view:
  "msgs (publish R W jid e b) = msgs b \<and> used (publish R W jid e b) = used b \<and>
   (res (publish R W jid e b) = res b \<or> res (publish R W jid e b) = (res b)(resKey jid := res b (resKey jid) @ [marshalEnv W e]))"
  using Push_ok by (auto simp: publish_def split: option.splits)

lemma processMsg_view:
  "{x \<in> msgs b. fst x \<noteq> fst m} \<subseteq> msgs (processMsg R W run m b) \<and> msgs (processMsg R W run m b) \<subseteq> msgs b \<and>
   used (processMsg R W run m b) = used b \<and>
   (res (processMsg R W run m b) = res b \<or> (\<exists>j. unmarshalJob W (snd m) = Some j \<and>
      res (processMsg R W run m b) = (res b)(resKey (j_ID j) := res b (resKey (j_ID j)) @ [marshalEnv W (process (run (j_Spec j)))])))"
proof (cases "unmarshalJob W (snd m)")
  case None
  then show ?thesis using Ack_ok [where b = b and i = "fst m"] by (simp add: processMsg_def)
next
  case (Some j)
  let ?b = "publish R W (j_ID j) (process (run (j_Spec j))) b"
  have "processMsg R W run m b = XAck R (fst m) ?b" using Some by (simp add: processMsg_def)
  then show ?thesis using Ack_ok [where b = ?b and i = "fst m"] publish_view [of "j_ID j" "process (run (j_Spec j))" b] Some by auto
qed

end
section \<open>The invariant\<close>

context job_broker
begin

lemma bus_invD:
  assumes "bus_inv w"
  shows "\<And>m. m \<in> msgs (bus w) \<union> fetched w \<Longrightarrow> msg_ok w m" and "inj_on fst (msgs (bus w) \<union> fetched w)"
    and "fst ` runs w \<subseteq> jn ` submitted w"
    and "\<And>k p. p \<in> set (res (bus w) k) \<Longrightarrow> \<exists>(j, r) \<in> runs w. k = resKey (j_ID j) \<and> p = marshalEnv W (process r)"
    and "\<And>jid a. (jid, a) \<in> answers w \<Longrightarrow> \<exists>(j, r) \<in> runs w. j_ID j = jid \<and> a = delivered (en (process r))"
    and "\<And>j. j \<in> submitted w \<Longrightarrow> jn j \<in> fst ` runs w \<or> (\<exists>m \<in> msgs (bus w). marshalJob W j = Some (snd m))"
  using assms unfolding bus_inv_def by blast+

lemma bus_invI:
  assumes "\<And>m. m \<in> msgs (bus w) \<union> fetched w \<Longrightarrow> msg_ok w m" and "inj_on fst (msgs (bus w) \<union> fetched w)"
    and "fst ` runs w \<subseteq> jn ` submitted w"
    and "\<And>k p. p \<in> set (res (bus w) k) \<Longrightarrow> \<exists>(j, r) \<in> runs w. k = resKey (j_ID j) \<and> p = marshalEnv W (process r)"
    and "\<And>jid a. (jid, a) \<in> answers w \<Longrightarrow> \<exists>(j, r) \<in> runs w. j_ID j = jid \<and> a = delivered (en (process r))"
    and "\<And>j. j \<in> submitted w \<Longrightarrow> jn j \<in> fst ` runs w \<or> (\<exists>m \<in> msgs (bus w). marshalJob W j = Some (snd m))"
  shows "bus_inv w"
  unfolding bus_inv_def using assms by (intro conjI allI ballI) (auto simp: case_prod_beta)

text \<open>A step that leaves the messages as they are and takes results away only.\<close>

lemma bus_inv_quiet:
  assumes "bus_inv w" and "msgs b' = msgs (bus w)" and "used b' = used (bus w)" and "\<And>k. set (res b' k) \<subseteq> set (res (bus w) k)"
    and "F \<subseteq> msgs (bus w) \<union> fetched w"
    and "\<And>jid a. (jid, a) \<in> A \<Longrightarrow> \<exists>(j, r) \<in> runs w. j_ID j = jid \<and> a = delivered (en (process r))"
  shows "bus_inv (w\<lparr>bus := b', fetched := F, answers := A\<rparr>)"
proof -
  have sub: "msgs b' \<union> F \<subseteq> msgs (bus w) \<union> fetched w" using assms(2,5) by blast
  have "msg_ok (w\<lparr>bus := b', fetched := F, answers := A\<rparr>) m" if "m \<in> msgs b' \<union> F" for m
  proof -
    have "msg_ok w m" using that sub bus_invD(1) [OF assms(1)] by blast
    then show ?thesis using assms(3) by (simp add: msg_ok_def)
  qed
  moreover have "inj_on fst (msgs b' \<union> F)" using bus_invD(2) [OF assms(1)] sub by (rule inj_on_subset)
  moreover have "\<exists>(j, r) \<in> runs w. k = resKey (j_ID j) \<and> p = marshalEnv W (process r)" if "p \<in> set (res b' k)" for k p
    using bus_invD(4) [OF assms(1)] that assms(4) by blast
  ultimately show ?thesis
    using assms(2,6) bus_invD(3,6) [OF assms(1)] by (intro bus_invI) simp_all
qed

lemma bus_inv_submit:
  assumes "bus_inv w" and "enqueue R W uuid j (bus w) = (None, b')"
  shows "bus_inv (w\<lparr>bus := b', submitted := insert (withID uuid j) (submitted w)\<rparr>)" (is "bus_inv ?w")
proof -
  let ?j = "withID uuid j"
  obtain p where p: "marshalJob W ?j = Some p" "XAdd R p (bus w) = Some b'"
    using assms(2) by (auto simp: enqueue_def split: option.splits)
  obtain i where i: "i \<notin> used (bus w)" "used b' = insert i (used (bus w))" "msgs b' = insert (i, p) (msgs (bus w))" "res b' = res (bus w)"
    using XAdd_ok [OF p(2)] by blast
  have old: "fst m \<in> used (bus w)" if "m \<in> msgs (bus w) \<union> fetched w" for m
    using bus_invD(1) [OF assms(1) that] by (simp add: msg_ok_def)
  have "msg_ok ?w m" if "m \<in> msgs b' \<union> fetched w" for m
  proof (cases "m = (i, p)")
    case False
    then have "msg_ok w m" using that i(3) bus_invD(1) [OF assms(1)] by auto
    then show ?thesis using i(2) by (auto simp: msg_ok_def)
  qed (use p(1) i(2) in \<open>simp add: msg_ok_def\<close>)
  moreover have "inj_on fst (insert (i, p) (msgs (bus w) \<union> fetched w))"
    using bus_invD(2) [OF assms(1)] old i(1) by (auto simp: inj_on_insert)
  moreover have "jn j' \<in> fst ` runs w \<or> (\<exists>m \<in> msgs b'. marshalJob W j' = Some (snd m))" if "j' \<in> insert ?j (submitted w)" for j'
    using that p(1) i(3) bus_invD(6) [OF assms(1), of j'] by auto
  ultimately show ?thesis
    using bus_invD(3,4,5) [OF assms(1)] i(3,4) by (intro bus_invI) (simp_all, blast)
qed

lemma bus_inv_process:
  assumes "bus_inv w" and "m \<in> fetched w"
  shows "bus_inv (w\<lparr>bus := processMsg R W run m (bus w),
      runs := runs w \<union> (case unmarshalJob W (snd m) of None \<Rightarrow> {} | Some j \<Rightarrow> {(j, run (j_Spec j))})\<rparr>)" (is "bus_inv ?w")
proof -
  obtain j where j: "j \<in> submitted w" "marshalJob W j = Some (snd m)"
    using bus_invD(1) [OF assms(1), of m] assms(2) by (auto simp: msg_ok_def)
  have u: "unmarshalJob W (snd m) = Some (jn j)" by (rule job_roundtrip [OF j(2)])
  let ?b = "processMsg R W run m (bus w)" and ?runs = "insert (jn j, run (j_Spec (jn j))) (runs w)"
  note v = processMsg_view [of "bus w" m run]
  have r: "runs ?w = ?runs" using u by simp
  have sub: "msgs ?b \<union> fetched w \<subseteq> msgs (bus w) \<union> fetched w" using v by blast
  have "msg_ok ?w x" if "x \<in> msgs ?b \<union> fetched w" for x
    using bus_invD(1) [OF assms(1), of x] that sub v by (auto simp: msg_ok_def)
  moreover have "inj_on fst (msgs ?b \<union> fetched w)" using bus_invD(2) [OF assms(1)] sub by (rule inj_on_subset)
  moreover have "\<exists>(j', r) \<in> ?runs. k = resKey (j_ID j') \<and> p = marshalEnv W (process r)" if "p \<in> set (res ?b k)" for k p
  proof (cases "p \<in> set (res (bus w) k)")
    case True
    then show ?thesis using bus_invD(4) [OF assms(1) True] by auto
  next
    case False
    then have "k = resKey (j_ID (jn j)) \<and> p = marshalEnv W (process (run (j_Spec (jn j))))" using v that u by (auto split: if_splits)
    then show ?thesis by auto
  qed
  moreover have "jn j' \<in> fst ` ?runs \<or> (\<exists>x \<in> msgs ?b. marshalJob W j' = Some (snd x))" if "j' \<in> submitted w" for j'
  proof (cases "jn j' = jn j")
    case False
    from bus_invD(6) [OF assms(1) that] show ?thesis
    proof
      assume "\<exists>x \<in> msgs (bus w). marshalJob W j' = Some (snd x)"
      then obtain x where x: "x \<in> msgs (bus w)" "marshalJob W j' = Some (snd x)" by blast
      have "fst x \<noteq> fst m"
      proof
        assume "fst x = fst m"
        then have "x = m" using bus_invD(2) [OF assms(1)] x(1) assms(2) by (auto simp: inj_on_def)
        then show False using u job_roundtrip [OF x(2)] False by simp
      qed
      then show ?thesis using v x by blast
    qed auto
  qed auto
  moreover have "\<exists>(j', r) \<in> ?runs. j_ID j' = jid \<and> a = delivered (en (process r))" if "(jid, a) \<in> answers w" for jid a
    using bus_invD(5) [OF assms(1) that] by auto
  ultimately show ?thesis
    using bus_invD(3) [OF assms(1)] j(1) u by (intro bus_invI) simp_all
qed

lemma bus_step_inv: "bus_step R W w w' \<Longrightarrow> bus_inv w \<Longrightarrow> bus_inv w'"
proof (induction rule: bus_step.induct)
  case (b_submit uuid j w b')
  then show ?case using bus_inv_submit by blast
next
  case (b_submitFail uuid j w e b')
  then have "b' = bus w" by (auto simp: enqueue_def split: option.splits)
  then show ?case using b_submitFail by simp
next
  case (b_read w ms b')
  then show ?case
    using Read_ok [OF b_read.hyps] bus_inv_quiet [OF b_read.prems, of b' "fetched w \<union> set ms" "answers w"] bus_invD(5) [OF b_read.prems] by auto
next
  case (b_claim w ms b')
  then show ?case
    using Claim_ok [OF b_claim.hyps] bus_inv_quiet [OF b_claim.prems, of b' "fetched w \<union> set ms" "answers w"] bus_invD(5) [OF b_claim.prems] by auto
next
  case (b_process m w run)
  then show ?case using bus_inv_process by blast
next
  case (b_pop jid w p b')
  have v: "msgs b' = msgs (bus w)" "used b' = used (bus w)" "res (bus w) (resKey jid) \<noteq> []" "p = hd (res (bus w) (resKey jid))"
      "res b' = (res (bus w))(resKey jid := tl (res (bus w) (resKey jid)))"
    using Pop_ok [OF b_pop.hyps] by auto
  have "p \<in> set (res (bus w) (resKey jid))" using v(3,4) by simp
  then obtain j r where jr: "(j, r) \<in> runs w" "j_ID j = jid" "p = marshalEnv W (process r)"
    using bus_invD(4) [OF b_pop.prems] by fastforce
  have a: "\<exists>(j, r) \<in> runs w. j_ID j = i \<and> a = delivered (en (process r))" if "(i, a) \<in> insert (jid, openResult W p) (answers w)" for i a
  proof (cases "(i, a) = (jid, openResult W p)")
    case True
    then show ?thesis using jr by (auto simp: open_delivered)
  next
    case False
    then show ?thesis using that bus_invD(5) [OF b_pop.prems, of i a] by blast
  qed
  have "set (res b' k) \<subseteq> set (res (bus w) k)" for k using v(3,5) by (auto dest: list.set_sel(2))
  from bus_inv_quiet [OF b_pop.prems v(1,2) this, of "fetched w" "insert (jid, openResult W p) (answers w)"] a show ?case by simp
next
  case (b_popNil k w b')
  then show ?case
    using Pop_ok [OF b_popNil.hyps] bus_inv_quiet [OF b_popNil.prems, of b' "fetched w" "answers w"] bus_invD(5) [OF b_popNil.prems] by auto
next
  case (b_expire w)
  then show ?case
    using Expired_ok [of "bus w"] bus_inv_quiet [OF b_expire.prems, of "Expired R (bus w)" "fetched w" "answers w"] bus_invD(5) [OF b_expire.prems] by auto
qed

lemma bus_reach_inv: "bus_reach R W b0 w \<Longrightarrow> msgs b0 = {} \<Longrightarrow> res b0 = (\<lambda>_. []) \<Longrightarrow> bus_inv w"
proof (induction rule: bus_reach.induct)
  case b_start
  then show ?case by (simp add: bus_inv_def)
next
  case (b_next w w')
  then show ?case using bus_step_inv by blast
qed

end
lemma submitted_ascii: "bus_reach R W b0 w \<Longrightarrow> j \<in> submitted w \<Longrightarrow> is_ascii (j_ID j)"
  by (induction rule: bus_reach.induct) (auto elim!: bus_step.cases)

section \<open>Worker turns\<close>

text \<open>A turn of a worker or of the reaper is a sequence of steps of the bus.\<close>

lemma process_all_reach:
  assumes "bus_reach R W b0 w" and "set ms \<subseteq> fetched w"
  shows "\<exists>w'. bus_reach R W b0 w' \<and> bus w' = fold (processMsg R W run) ms (bus w)"
  using assms
proof (induction ms arbitrary: w)
  case (Cons m ms)
  let ?w = "w\<lparr>bus := processMsg R W run m (bus w),
      runs := runs w \<union> (case unmarshalJob W (snd m) of None \<Rightarrow> {} | Some j \<Rightarrow> {(j, run (j_Spec j))})\<rparr>"
  have "bus_reach R W b0 ?w" by (rule b_next [OF Cons.prems(1)], rule b_process) (use Cons.prems(2) in simp)
  then show ?case using Cons.IH [of ?w] Cons.prems(2) by simp
qed auto

lemma workerTurn_reach:
  assumes "bus_reach R W b0 w"
  shows "\<exists>w'. bus_reach R W b0 w' \<and> bus w' = workerTurn R W run ok (bus w)"
proof (cases ok)
  case True
  obtain ms b' where r: "XReadGroup R (bus w) = (ms, b')" by force
  have "bus_reach R W b0 (w\<lparr>bus := b', fetched := fetched w \<union> set ms\<rparr>)" by (rule b_next [OF assms b_read [OF r]])
  from process_all_reach [OF this, of ms run] show ?thesis using True r by (simp add: workerTurn_def)
qed (use assms in \<open>auto simp: workerTurn_def\<close>)

lemma worker_reach:
  assumes "bus_reach R W b0 w"
  shows "\<exists>w'. bus_reach R W b0 w' \<and> bus w' = snd (worker R W run rs (bus w))"
  using assms
proof (induction R W run rs "bus w" arbitrary: w rule: worker.induct)
  case (4 R W run ctxDone rs)
  then show ?case by (cases ctxDone) (auto simp: workerTurn_def)
next
  case (5 R W run rs)
  obtain w1 where "bus_reach R W b0 w1" "bus w1 = workerTurn R W run True (bus w)" using workerTurn_reach [OF "5.prems"] by blast
  then show ?case using "5.hyps" by (metis worker.simps(5))
qed auto

text \<open>Once the driver is closed a worker stops at its next look at the context, leaving the broker as it is.\<close>

lemma worker_stops:
  "v_cancel (Close (StartWorkers n v)) = Some True \<and> worker R W run (RdDone # rs) b = (True, b) \<and> worker R W run (RdErr True # rs) b = (True, b)"
  by (simp add: Close_def StartWorkers_def Let_def)

lemma reaperTick_reach:
  assumes "bus_reach R W b0 w"
  shows "\<exists>w'. bus_reach R W b0 w' \<and> bus w' = reaperTick R W run ok (bus w)"
proof (cases ok)
  case True
  obtain ms b' where r: "XAutoClaim R (bus w) = (ms, b')" by force
  have "bus_reach R W b0 (w\<lparr>bus := b', fetched := fetched w \<union> set ms\<rparr>)" by (rule b_next [OF assms b_claim [OF r]])
  from process_all_reach [OF this, of ms run] show ?thesis using True r by (simp add: reaperTick_def)
qed (use assms in \<open>auto simp: reaperTick_def\<close>)

section \<open>A broker in memory\<close>

record mem_bus =
  mb_next :: nat
  mb_msgs :: "msg list"
  mb_res :: "string \<Rightarrow> bytes list"

definition mb_id :: "nat \<Rightarrow> string" where "mb_id n = replicate n CHR ''i''"

definition mem_broker :: "mem_bus broker" where
  "mem_broker = \<lparr>
     XAdd = (\<lambda>p b. Some (b\<lparr>mb_next := Suc (mb_next b), mb_msgs := mb_msgs b @ [(mb_id (mb_next b), p)]\<rparr>)),
     XReadGroup = (\<lambda>b. (take 1 (mb_msgs b), b)), XAutoClaim = (\<lambda>b. (take 16 (mb_msgs b), b)),
     XAck = (\<lambda>i b. b\<lparr>mb_msgs := filter (\<lambda>m. fst m \<noteq> i) (mb_msgs b)\<rparr>),
     RPushExpire = (\<lambda>k p b. Some (b\<lparr>mb_res := (mb_res b)(k := mb_res b k @ [p])\<rparr>)),
     BLPop = (\<lambda>k b. case mb_res b k of [] \<Rightarrow> (None, b) | p # ps \<Rightarrow> (Some p, b\<lparr>mb_res := (mb_res b)(k := ps)\<rparr>)),
     Expired = (\<lambda>b. b\<lparr>mb_res := (\<lambda>_. [])\<rparr>)\<rparr>"

definition mb_used :: "mem_bus \<Rightarrow> string set" where
  "mb_used b = mb_id ` {n. n < mb_next b}"

lemma mb_id_inject [simp]: "mb_id m = mb_id n \<longleftrightarrow> m = n"
  by (metis mb_id_def length_replicate)

interpretation mem_redis: redis_broker mem_broker "\<lambda>b. set (mb_msgs b)" mb_used mb_res
proof unfold_locales
  fix p and b b' :: mem_bus assume "XAdd mem_broker p b = Some b'"
  then have b': "b' = b\<lparr>mb_next := Suc (mb_next b), mb_msgs := mb_msgs b @ [(mb_id (mb_next b), p)]\<rparr>" by (simp add: mem_broker_def)
  have "mb_id (mb_next b) \<notin> mb_used b \<and> mb_used b' = insert (mb_id (mb_next b)) (mb_used b) \<and>
      set (mb_msgs b') = insert (mb_id (mb_next b), p) (set (mb_msgs b)) \<and> mb_res b' = mb_res b"
    by (auto simp: b' mb_used_def less_Suc_eq)
  then show "\<exists>i. i \<notin> mb_used b \<and> mb_used b' = insert i (mb_used b) \<and> set (mb_msgs b') = insert (i, p) (set (mb_msgs b)) \<and> mb_res b' = mb_res b"
    by blast
next
  fix k x and b b' :: mem_bus assume "BLPop mem_broker k b = (x, b')"
  then show "set (mb_msgs b') = set (mb_msgs b) \<and> mb_used b' = mb_used b \<and> (case x of None \<Rightarrow> mb_res b' = mb_res b
      | Some p \<Rightarrow> mb_res b k \<noteq> [] \<and> p = hd (mb_res b k) \<and> mb_res b' = (mb_res b)(k := tl (mb_res b k)))"
    by (cases "mb_res b k") (auto simp: mem_broker_def mb_used_def)
qed (simp_all add: mem_broker_def mb_used_def, auto dest: in_set_takeD)

section \<open>The wait\<close>

lemma waitLoop_polls: "snd (waitLoop W jid pops n remain) \<le> n + nat ((remain + seconds - 1) div seconds)"
proof (induction W jid pops n remain rule: waitLoop.induct)
  case (1 W jid pops n remain)
  show ?case
  proof (cases "remain \<le> 0")
    case True
    then show ?thesis by (simp add: waitLoop.simps [of W jid pops n remain])
  next
    case False
    then have pos: "(remain + seconds - 1) div seconds \<ge> 1" by (simp add: seconds_def)
    let ?block = "if remain > seconds then seconds else remain"
    show ?thesis
    proof (cases "\<exists>late. pops n = PopNil late False")
      case True
      then obtain late where p: "pops n = PopNil late False" by blast
      have "(remain - ?block - int late + seconds - 1) div seconds \<le> (remain + seconds - 1) div seconds - 1"
      proof (cases "remain > seconds")
        case True
        have "(remain - seconds - int late + seconds - 1) div seconds \<le> (remain - 1) div seconds"
          by (rule zdiv_mono1) (simp_all add: seconds_def)
        moreover have "(remain + seconds - 1) div seconds = (remain - 1) div seconds + 1"
          using div_add_self2 [of seconds "remain - 1"] by (simp add: seconds_def algebra_simps)
        ultimately show ?thesis using True by simp
      next
        case le: False
        have "(seconds - 1 - int late) div seconds \<le> (seconds - 1) div seconds"
          by (rule zdiv_mono1) (simp_all add: seconds_def)
        then have "(seconds - 1 - int late) div seconds \<le> 0" by (simp add: seconds_def)
        then show ?thesis using le pos by (simp add: algebra_simps)
      qed
      then have le: "nat ((remain - ?block - int late + seconds - 1) div seconds) + 1 \<le> nat ((remain + seconds - 1) div seconds)"
        using pos by linarith
      have "snd (waitLoop W jid pops (Suc n) (remain - ?block - int late)) \<le> Suc n + nat ((remain - ?block - int late + seconds - 1) div seconds)"
        using "1.IH" [OF False refl p] by simp
      then show ?thesis using False p le by (subst waitLoop.simps) (simp add: Let_def)
    next
      case nil: False
      then show ?thesis using False pos
        by (subst waitLoop.simps) (cases "pops n"; auto simp: Let_def nat_le_iff le_nat_iff)
    qed
  qed
qed

end
