(* ===== verification/JsonNumber.thy ===== *)
theory JsonNumber
  imports GoText
begin

text \<open>
  Numbers as \<^verbatim>\<open>encoding/json\<close> and \<^verbatim>\<open>strconv\<close> write and read them: the grammar of
  number literals, integers, and floats in their shortest decimal form.  Reading back
  what was written gives the number.
\<close>

section \<open>Literals\<close>

abbreviation byteVal :: "char \<Rightarrow> nat" where "byteVal c \<equiv> of_char c"

definition inRange :: "nat \<Rightarrow> nat \<Rightarrow> char \<Rightarrow> bool" where
  "inRange lo hi c \<longleftrightarrow> lo \<le> byteVal c \<and> byteVal c \<le> hi"

definition is_digit :: "char \<Rightarrow> bool" where "is_digit c \<longleftrightarrow> inRange 48 57 c"

text \<open>A number literal: sign, integer part without leading zeros, fraction, exponent.\<close>

definition digits1 :: "string \<Rightarrow> (string \<times> string) option" where
  "digits1 s = (let d = takeWhile is_digit s in if d = [] then None else Some (d, dropWhile is_digit s))"

definition intPart :: "string \<Rightarrow> (string \<times> string) option" where
  "intPart s = (case s of CHR ''0'' # t \<Rightarrow> Some (''0'', t) | _ \<Rightarrow> digits1 s)"

definition fracPart :: "string \<Rightarrow> (string \<times> string) option" where
  "fracPart s = (case s of CHR ''.'' # t \<Rightarrow> map_option (apfst (Cons (CHR ''.''))) (digits1 t) | _ \<Rightarrow> Some ([], s))"

definition expPart :: "string \<Rightarrow> (string \<times> string) option" where
  "expPart s =
     (case s of
        e # t \<Rightarrow>
          if e = CHR ''e'' \<or> e = CHR ''E'' then
            (case t of
               g # u \<Rightarrow> if g = CHR ''+'' \<or> g = CHR ''-'' then map_option (apfst (\<lambda>d. e # g # d)) (digits1 u)
                       else map_option (apfst (Cons e)) (digits1 t)
             | [] \<Rightarrow> None)
          else Some ([], s)
      | [] \<Rightarrow> Some ([], s))"

definition numLit :: "string \<Rightarrow> (string \<times> string) option" where
  "numLit s =
     (let (sign, s0) = (case s of CHR ''-'' # t \<Rightarrow> (''-'', t) | _ \<Rightarrow> ([], s)) in
      case intPart s0 of None \<Rightarrow> None
      | Some (i, s1) \<Rightarrow>
        (case fracPart s1 of None \<Rightarrow> None
         | Some (f, s2) \<Rightarrow> map_option (apfst (\<lambda>e. sign @ i @ f @ e)) (expPart s2)))"

section \<open>Floats as text\<close>

text \<open>
  A float as the encoder prints it: the shortest decimal, in positional notation unless
  it is below a millionth or from \<open>10 ^ 21\<close> on.  A finite float has at most 1074
  decimals; \<open>scaled\<close> gives the least number of them with the scaled integer, and cuts a
  rational that has none.
\<close>

definition decimals :: "rat \<Rightarrow> nat option" where
  "decimals q = find (\<lambda>k. 10 ^ k mod snd (quotient_of q) = 0) [0..<1075]"

definition scaled :: "rat \<Rightarrow> int \<times> nat" where
  "scaled q = (let (n, d) = quotient_of q; k = (case decimals q of Some k \<Rightarrow> k | None \<Rightarrow> 0) in (n * 10 ^ k div d, k))"

definition positional :: "nat \<Rightarrow> nat \<Rightarrow> string" where
  "positional m k =
     (if k = 0 then nat_digits m
      else let ds = replicate (Suc k - length (nat_digits m)) CHR ''0'' @ nat_digits m in
        take (length ds - k) ds @ CHR ''.'' # drop (length ds - k) ds)"

definition scientific :: "nat \<Rightarrow> nat \<Rightarrow> string" where
  "scientific m k =
     (let ds = nat_digits m; t = rev (dropWhile (\<lambda>c. c = CHR ''0'') (rev (tl ds))); x = int (length ds) - 1 - int k in
      hd ds # (if t = [] then [] else CHR ''.'' # t) @ CHR ''e'' # (if x < 0 then CHR ''-'' else CHR ''+'') # nat_digits (nat (abs x)))"

definition formatFloat :: "rat \<Rightarrow> string" where
  "formatFloat q =
     (let (m, k) = scaled q in
      (if q < 0 then ''-'' else []) @
      (if q \<noteq> 0 \<and> (abs q < 1 / 10 ^ 6 \<or> 10 ^ 21 \<le> abs q) then scientific (nat (abs m)) k else positional (nat (abs m)) k))"

text \<open>\<open>strconv.ParseFloat\<close> of a number literal; a value that rounds to an infinity is an error.\<close>

definition digitsVal :: "string \<Rightarrow> nat" where
  "digitsVal ds = (case digits_value 0 ds of Some n \<Rightarrow> n | None \<Rightarrow> 0)"

fun expVal :: "string \<Rightarrow> int" where
  "expVal (_ # g # ds) = (if g = CHR ''-'' then - int (digitsVal ds) else if g = CHR ''+'' then int (digitsVal ds) else int (digitsVal (g # ds)))"
| "expVal _ = 0"

definition floatLimit :: rat where "floatLimit = 2 ^ 1024 - 2 ^ 970"

definition shift10 :: "rat \<Rightarrow> int \<Rightarrow> rat" where
  "shift10 q x = (if x < 0 then q / 10 ^ nat (- x) else q * 10 ^ nat x)"

definition parseFloat :: "string \<Rightarrow> rat option" where
  "parseFloat s =
     (let (neg, s0) = (case s of CHR ''-'' # t \<Rightarrow> (True, t) | _ \<Rightarrow> (False, s)) in
      case intPart s0 of None \<Rightarrow> None
      | Some (i, s1) \<Rightarrow>
        (case fracPart s1 of None \<Rightarrow> None
         | Some (f, s2) \<Rightarrow>
           (case expPart s2 of
              Some (e, []) \<Rightarrow>
                (let v = shift10 (of_nat (digitsVal (i @ drop 1 f))) (expVal e - int (length f - 1)) in
                 if floatLimit \<le> v then None else Some (if neg then - v else v))
            | _ \<Rightarrow> None)))"

definition isFloat :: "rat \<Rightarrow> bool" where
  "isFloat q \<longleftrightarrow> decimals q \<noteq> None \<and> abs q < floatLimit"

section \<open>Digits\<close>

lemma digit_char: "(n :: nat) < 10 \<Longrightarrow> is_digit (char_of (48 + n)) \<and> (char_of (48 + n) = CHR ''0'' \<longleftrightarrow> n = 0)"
proof -
  have "\<forall>n :: nat \<in> set [0..<10]. is_digit (char_of (48 + n)) \<and> (char_of (48 + n) = CHR ''0'' \<longleftrightarrow> n = 0)" by code_simp
  then show "n < 10 \<Longrightarrow> is_digit (char_of (48 + n)) \<and> (char_of (48 + n) = CHR ''0'' \<longleftrightarrow> n = 0)" by simp
qed

lemma digits_fuel_ok:
  "n \<le> k \<Longrightarrow> digits_fuel (Suc k) n \<noteq> [] \<and> (\<forall>c \<in> set (digits_fuel (Suc k) n). is_digit c) \<and>
     (hd (digits_fuel (Suc k) n) = CHR ''0'' \<longleftrightarrow> n = 0)"
proof (induction k arbitrary: n)
  case (Suc k)
  show ?case
  proof (cases "n < 10")
    case False
    then have "n div 10 \<le> k" "n div 10 \<noteq> 0" using Suc.prems by auto
    then show ?thesis using Suc.IH [of "n div 10"] False digit_char [of "n mod 10"] by simp
  qed (use digit_char [of n] in simp)
qed (use digit_char [of 0] in auto)

lemma nat_digits_ok:
  "nat_digits n \<noteq> []" "c \<in> set (nat_digits n) \<Longrightarrow> is_digit c" "hd (nat_digits n) = CHR ''0'' \<Longrightarrow> nat_digits n = ''0''"
proof -
  note d = digits_fuel_ok [of n n, folded nat_digits_def]
  show "nat_digits n \<noteq> []" "c \<in> set (nat_digits n) \<Longrightarrow> is_digit c" using d by auto
  show "hd (nat_digits n) = CHR ''0'' \<Longrightarrow> nat_digits n = ''0''" using d by (simp add: nat_digits_def)
qed

lemma is_digit_between: "between CHR ''0'' CHR ''9'' c \<longleftrightarrow> is_digit c"
  by (auto simp: less_eq_char_def is_digit_def inRange_def)

lemma digits_value_run: "\<forall>c \<in> set s. is_digit c \<Longrightarrow> digits_value acc s = Some (acc * 10 ^ length s + digitsVal s)"
proof (induction s arbitrary: acc)
  case (Cons c s)
  have "digits_value a s = Some (a * 10 ^ length s + digitsVal s)" for a using Cons by simp
  then show ?case using Cons.prems by (simp add: is_digit_between digitsVal_def [of "c # s"] algebra_simps)
qed (simp add: digitsVal_def)

lemma digitsVal_append: "\<forall>c \<in> set (s @ t). is_digit c \<Longrightarrow> digitsVal (s @ t) = digitsVal s * 10 ^ length t + digitsVal t"
proof (induction s)
  case (Cons c s)
  then show ?case
    by (simp add: digitsVal_def [of "c # _"] is_digit_between digits_value_run [of "s @ t"] digits_value_run [of s] power_add algebra_simps)
qed (simp add: digitsVal_def)

lemma digitsVal_zeros [simp]: "digitsVal (replicate n CHR ''0'') = 0"
proof -
  have "digits_value 0 (replicate n CHR ''0'') = Some 0" by (induction n) simp_all
  then show ?thesis by (simp add: digitsVal_def)
qed

lemma digitsVal_digit: "n < 10 \<Longrightarrow> digitsVal [char_of (48 + n)] = n"
proof -
  have "\<forall>n \<in> set [0..<10]. digitsVal [char_of (48 + n)] = n" by code_simp
  then show "n < 10 \<Longrightarrow> digitsVal [char_of (48 + n)] = n" by simp
qed

lemma digitsVal_fuel: "n \<le> k \<Longrightarrow> digitsVal (digits_fuel (Suc k) n) = n"
proof (induction k arbitrary: n)
  case (Suc k)
  show ?case
  proof (cases "n < 10")
    case False
    then have k: "n div 10 \<le> k" using Suc.prems by auto
    have "\<forall>c \<in> set (digits_fuel (Suc k) (n div 10) @ [char_of (48 + n mod 10)]). is_digit c"
      using digits_fuel_ok [OF k] digit_char [of "n mod 10"] by simp
    from digitsVal_append [OF this] have "digitsVal (digits_fuel (Suc (Suc k)) n) = digitsVal (digits_fuel (Suc k) (n div 10)) * 10 + digitsVal [char_of (48 + n mod 10)]"
      using False by (simp only: digits_fuel.simps(2) [of "Suc k"] if_False list.size power_Suc power_0) simp
    also have "\<dots> = n div 10 * 10 + n mod 10" using Suc.IH [OF k] digitsVal_digit [of "n mod 10"] by simp
    finally show ?thesis by simp
  qed (simp add: digitsVal_digit)
qed (use digitsVal_digit [of 0] in simp)

lemma digitsVal_nat_digits [simp]: "digitsVal (nat_digits n) = n"
  unfolding nat_digits_def by (rule digitsVal_fuel) simp

lemma Atoi_Itoa: "- (2 ^ 63) \<le> n \<Longrightarrow> n < 2 ^ 63 \<Longrightarrow> Atoi (Itoa n) = Some n"
proof -
  have v: "parse_digits (nat_digits m) = Some (int m)" for m
    using digits_value_run [of "nat_digits m" 0] nat_digits_ok(1) [of m] nat_digits_ok(2) [of _ m] by (simp add: parse_digits_def)
  obtain c ds where c: "nat_digits (nat n) = c # ds" using nat_digits_ok(1) by (cases "nat_digits (nat n)") auto
  have "is_digit c" using nat_digits_ok(2) [of c "nat n"] c by simp
  then have "c \<noteq> CHR ''-'' \<and> c \<noteq> CHR ''+''" by (auto simp: is_digit_def inRange_def)
  then show "- (2 ^ 63) \<le> n \<Longrightarrow> n < 2 ^ 63 \<Longrightarrow> Atoi (Itoa n) = Some n"
    using v [of "nat n"] v [of "nat (- n)"] c by (auto simp: Atoi_def Itoa_def)
qed

section \<open>Reading a literal\<close>

definition stops :: "string \<Rightarrow> bool" where
  "stops s = (case s of [] \<Rightarrow> True | c # _ \<Rightarrow> \<not> is_digit c \<and> c \<notin> {CHR ''.'', CHR ''e'', CHR ''E''})"

lemma stops_simps [simp]: "stops []" "stops (CHR '','' # s)" "stops (CHR '']'' # s)" "stops (CHR 0x7D # s)" "stops (CHR 0x0A # s)"
  by (simp_all add: stops_def is_digit_def inRange_def)

lemma stops_tail:
  assumes "stops s"
  shows "fracPart s = Some ([], s)" and "expPart s = Some ([], s)"
  using assms by (auto simp: fracPart_def expPart_def stops_def split: list.splits char.splits bool.splits)

definition literal :: "string \<Rightarrow> string \<Rightarrow> string \<Rightarrow> bool" where
  "literal i f e \<longleftrightarrow> i \<noteq> [] \<and> (\<forall>c \<in> set i. is_digit c) \<and> (hd i = CHR ''0'' \<longrightarrow> i = ''0'') \<and>
     (f = [] \<or> (\<exists>ds. f = CHR ''.'' # ds \<and> ds \<noteq> [] \<and> (\<forall>c \<in> set ds. is_digit c))) \<and>
     (e = [] \<or> (\<exists>g ds. e = CHR ''e'' # g # ds \<and> g \<in> {CHR ''+'', CHR ''-''} \<and> ds \<noteq> [] \<and> (\<forall>c \<in> set ds. is_digit c)))"

abbreviation noDigit :: "string \<Rightarrow> bool" where
  "noDigit s \<equiv> s = [] \<or> \<not> is_digit (hd s)"

lemma digits1_run:
  assumes "ds \<noteq> []" and "\<forall>c \<in> set ds. is_digit c" and "noDigit s"
  shows "digits1 (ds @ s) = Some (ds, s)"
proof -
  have "takeWhile is_digit (ds @ s) = ds" "dropWhile is_digit (ds @ s) = s"
    using assms(2,3) by (cases s; simp add: takeWhile_append dropWhile_append)+
  then show ?thesis using assms(1) by (simp add: digits1_def)
qed

lemma literal_parts:
  assumes "literal i f e" and "stops s"
  shows "intPart (i @ f @ e @ s) = Some (i, f @ e @ s)" and "fracPart (f @ e @ s) = Some (f, e @ s)" and "expPart (e @ s) = Some (e, s)"
proof -
  have nd: "\<not> is_digit (CHR ''.'')" "\<not> is_digit (CHR ''e'')" "\<not> is_digit (CHR ''+'')" "\<not> is_digit (CHR ''-'')"
    by (simp_all add: is_digit_def inRange_def)
  have s: "noDigit s" using assms(2) by (cases s) (auto simp: stops_def)
  have e: "noDigit (e @ s)" "noDigit (f @ e @ s)" using assms(1) s nd by (auto simp: literal_def)
  show "intPart (i @ f @ e @ s) = Some (i, f @ e @ s)"
  proof (cases "hd i = CHR ''0''")
    case True
    then have "i = ''0''" using assms(1) by (simp add: literal_def)
    then show ?thesis by (simp add: intPart_def)
  next
    case False
    then obtain c ds where c: "i = c # ds" "c \<noteq> CHR ''0''" using assms(1) by (cases i) (auto simp: literal_def)
    then have "intPart (i @ f @ e @ s) = digits1 (i @ f @ e @ s)" by (auto simp: intPart_def split: char.splits bool.splits)
    then show ?thesis using digits1_run [OF _ _ e(2), of i] assms(1) by (simp add: literal_def)
  qed
  show "fracPart (f @ e @ s) = Some (f, e @ s)"
  proof (cases f)
    case Nil
    then show ?thesis using assms stops_tail(1) by (cases "e") (auto simp: literal_def fracPart_def)
  next
    case (Cons c ds)
    then show ?thesis using assms(1) digits1_run [OF _ _ e(1), of ds] by (auto simp: literal_def fracPart_def)
  qed
  show "expPart (e @ s) = Some (e, s)"
  proof (cases e)
    case Nil
    then show ?thesis using assms(2) stops_tail(2) by simp
  next
    case (Cons c gds)
    then obtain g ds where "e = CHR ''e'' # g # ds" "g \<in> {CHR ''+'', CHR ''-''}" "ds \<noteq> []" "\<forall>c \<in> set ds. is_digit c"
      using assms(1) by (auto simp: literal_def)
    then show ?thesis using digits1_run [OF _ _ s, of ds] by (auto simp: expPart_def)
  qed
qed

lemma literal_hd: "literal i f e \<Longrightarrow> \<exists>c t. i = c # t \<and> is_digit c \<and> c \<noteq> CHR ''-''"
  by (cases i) (auto simp: literal_def is_digit_def inRange_def)

lemma not_minus: "literal i f e \<Longrightarrow> (case i @ s of CHR ''-'' # u \<Rightarrow> x u | _ \<Rightarrow> y) = y"
  by (auto dest!: literal_hd split: char.splits bool.splits)

lemma literal_numLit:
  assumes "literal i f e" and "stops s"
  shows "numLit ((if neg then ''-'' else []) @ i @ f @ e @ s) = Some ((if neg then ''-'' else []) @ i @ f @ e, s)"
proof (cases neg)
  case False
  then show ?thesis using literal_parts [OF assms] by (simp add: numLit_def not_minus [OF assms(1)])
qed (use literal_parts [OF assms] in \<open>simp add: numLit_def\<close>)

lemma literal_parseFloat:
  assumes "literal i f e"
  defines "v \<equiv> shift10 (of_nat (digitsVal (i @ drop 1 f))) (expVal e - int (length f - 1))"
  assumes "v < floatLimit"
  shows "parseFloat ((if neg then ''-'' else []) @ i @ f @ e) = Some (if neg then - v else v)"
proof (cases neg)
  case False
  then show ?thesis using literal_parts [OF assms(1), of "[]"] assms(3) by (simp add: parseFloat_def v_def not_minus [OF assms(1)])
qed (use literal_parts [OF assms(1), of "[]"] assms(3) in \<open>simp add: parseFloat_def v_def\<close>)

lemma literal_digits: "literal (nat_digits n) [] []"
  using nat_digits_ok(1) [of n] nat_digits_ok(2) [of _ n] nat_digits_ok(3) [of n] by (simp add: literal_def)

lemma numLit_Itoa: "stops s \<Longrightarrow> numLit (Itoa n @ s) = Some (Itoa n, s)"
  using literal_numLit [OF literal_digits [of "nat (abs n)"], of s "n < 0"] by (simp add: Itoa_def split: if_splits)

section \<open>Floats\<close>

definition denotes :: "string \<Rightarrow> string \<Rightarrow> string \<Rightarrow> rat \<Rightarrow> bool" where
  "denotes i f e v \<longleftrightarrow> literal i f e \<and> shift10 (of_nat (digitsVal (i @ drop 1 f))) (expVal e - int (length f - 1)) = v"

lemma shift10_neg: "shift10 q (- int k) = q / 10 ^ k"
  by (simp add: shift10_def)

lemma positional_denotes: "\<exists>i f. positional m k = i @ f \<and> denotes i f [] (of_nat m / 10 ^ k)"
proof (cases "k = 0")
  case True
  have "denotes (nat_digits m) [] [] (of_nat m / 10 ^ k)"
    using nat_digits_ok(1) [of m] nat_digits_ok(2) [of _ m] nat_digits_ok(3) [of m] True by (simp add: denotes_def literal_def shift10_def)
  then show ?thesis using True by (intro exI [of _ "nat_digits m"] exI [of _ "[]"]) (simp add: positional_def)
next
  case False
  define ds where "ds = replicate (Suc k - length (nat_digits m)) CHR ''0'' @ nat_digits m"
  define i t where "i = take (length ds - k) ds" and "t = drop (length ds - k) ds"
  have len: "k < length ds" by (simp add: ds_def)
  have z: "is_digit (CHR ''0'')" by (simp add: is_digit_def inRange_def)
  have dig: "\<forall>c \<in> set ds. is_digit c" using nat_digits_ok(2) z by (auto simp: ds_def)
  then have "\<forall>c \<in> set i. is_digit c" "\<forall>c \<in> set t. is_digit c" by (auto simp: i_def t_def dest: in_set_takeD in_set_dropD)
  moreover have "i \<noteq> []" "t \<noteq> []" "length t = k" using len False by (auto simp: i_def t_def)
  moreover have "hd i = CHR ''0'' \<longrightarrow> i = ''0''"
  proof (cases "length (nat_digits m) \<le> k")
    case True
    then show ?thesis by (simp add: i_def ds_def Suc_diff_le)
  next
    case False
    then have d: "ds = nat_digits m" by (simp add: ds_def)
    have "nat_digits m \<noteq> ''0''" using False \<open>k \<noteq> 0\<close> by auto
    then have "hd (nat_digits m) \<noteq> CHR ''0''" using nat_digits_ok(3) by blast
    moreover have "hd i = hd (nat_digits m)" using len by (simp add: i_def d hd_take)
    ultimately show ?thesis by simp
  qed
  ultimately have "literal i (CHR ''.'' # t) []" by (simp add: literal_def)
  moreover have "digitsVal (i @ t) = m"
  proof -
    have "i @ t = ds" by (simp add: i_def t_def)
    then show ?thesis using digitsVal_append [of "replicate (Suc k - length (nat_digits m)) CHR ''0''" "nat_digits m"] dig by (simp add: ds_def)
  qed
  ultimately have "denotes i (CHR ''.'' # t) [] (of_nat m / 10 ^ k)"
    using \<open>length t = k\<close> by (simp add: denotes_def shift10_neg)
  moreover have "positional m k = i @ CHR ''.'' # t" using False by (simp add: positional_def Let_def ds_def i_def t_def)
  ultimately show ?thesis by blast
qed

lemma trailing_zeros:
  obtains j where "ds = rev (dropWhile (\<lambda>c. c = CHR ''0'') (rev ds)) @ replicate j CHR ''0''"
proof -
  let ?w = "takeWhile (\<lambda>c. c = CHR ''0'') (rev ds)"
  have w: "?w = replicate (length ?w) CHR ''0''" by (rule replicate_eqI) (auto dest: set_takeWhileD)
  have "ds = rev (?w @ dropWhile (\<lambda>c. c = CHR ''0'') (rev ds))" by simp
  also have "\<dots> = rev (dropWhile (\<lambda>c. c = CHR ''0'') (rev ds)) @ rev ?w" by (rule rev_append)
  also have "rev ?w = replicate (length ?w) CHR ''0''" by (metis w rev_replicate)
  finally show thesis by (rule that)
qed

lemma scientific_denotes: "\<exists>i f e. scientific m k = i @ f @ e \<and> denotes i f e (of_nat m / 10 ^ k)"
proof -
  obtain d r where ds: "nat_digits m = d # r" using nat_digits_ok(1) by (cases "nat_digits m") auto
  define t where "t = rev (dropWhile (\<lambda>c. c = CHR ''0'') (rev r))"
  obtain j where j: "r = t @ replicate j CHR ''0''" unfolding t_def by (rule trailing_zeros)
  define x where "x = int (length (nat_digits m)) - 1 - int k"
  have x: "x = int (length t) + int j - int k" by (simp add: x_def ds j)
  let ?f = "if t = [] then [] else CHR ''.'' # t" and ?e = "CHR ''e'' # (if x < 0 then CHR ''-'' else CHR ''+'') # nat_digits (nat (abs x))"
  have dig: "\<forall>c \<in> set (d # t @ replicate j CHR ''0''). is_digit c" using nat_digits_ok(2) [of _ m] by (simp add: ds j)
  then have lit: "literal [d] ?f ?e" using nat_digits_ok(1) nat_digits_ok(2) [of _ "nat (abs x)"] by (auto simp: literal_def)
  have "m = digitsVal (d # t) * 10 ^ j"
    using digitsVal_append [of "d # t" "replicate j CHR ''0''"] dig digitsVal_nat_digits [of m] by (simp add: ds j)
  then have m: "(of_nat m :: rat) = of_nat (digitsVal (d # t)) * 10 ^ j" by simp
  have ev: "expVal ?e = x" by simp
  have "shift10 (of_nat (digitsVal (d # t))) (x - int (length t)) = of_nat m / 10 ^ k"
  proof (cases "j < k")
    case True
    then have "(10 :: rat) ^ k = 10 ^ (k - j) * 10 ^ j" by (simp flip: power_add)
    moreover have "nat (int k - int j) = k - j" using True by simp
    ultimately show ?thesis using True m x by (simp add: shift10_def)
  next
    case False
    then have "(10 :: rat) ^ j = 10 ^ (j - k) * 10 ^ k" by (simp flip: power_add)
    moreover have "nat (int j - int k) = j - k" using False by simp
    ultimately show ?thesis using False m x by (simp add: shift10_def)
  qed
  then have "denotes [d] ?f ?e (of_nat m / 10 ^ k)" unfolding denotes_def ev using lit by (cases "t = []") simp_all
  moreover have "scientific m k = [d] @ ?f @ ?e" by (simp add: scientific_def Let_def ds t_def x_def)
  ultimately show ?thesis by blast
qed

lemma formatFloat_denotes:
  "\<exists>i f e. formatFloat q = (if q < 0 then ''-'' else []) @ i @ f @ e \<and>
     denotes i f e (of_nat (nat (abs (fst (scaled q)))) / 10 ^ snd (scaled q))"
proof -
  let ?m = "nat (abs (fst (scaled q)))" and ?k = "snd (scaled q)"
  obtain i f where "positional ?m ?k = i @ f @ []" "denotes i f [] (of_nat ?m / 10 ^ ?k)" using positional_denotes [of ?m ?k] by auto
  then have "\<exists>i f e. positional ?m ?k = i @ f @ e \<and> denotes i f e (of_nat ?m / 10 ^ ?k)" by blast
  moreover note scientific_denotes [of ?m ?k]
  ultimately have "\<exists>i f e. (if b then scientific ?m ?k else positional ?m ?k) = i @ f @ e \<and> denotes i f e (of_nat ?m / 10 ^ ?k)" for b
    by (cases b) (simp_all only: if_True if_False)
  then show ?thesis by (simp only: formatFloat_def case_prod_beta Let_def append_same_eq same_append_eq) 
qed

lemma numLit_float: "stops s \<Longrightarrow> numLit (formatFloat q @ s) = Some (formatFloat q, s)"
  using formatFloat_denotes [of q] literal_numLit [of _ _ _ s "q < 0"] by (auto simp: denotes_def)

lemma scaled_value:
  assumes "decimals q = Some k"
  shows "snd (scaled q) = k \<and> of_int (fst (scaled q)) = q * 10 ^ k"
proof -
  obtain n d where nd: "quotient_of q = (n, d)" by fastforce
  have d: "d > 0" using quotient_of_denom_pos [OF nd] .
  have "10 ^ k mod d = 0" using assms by (auto simp: decimals_def nd find_Some_iff)
  then obtain c where c: "10 ^ k = d * c" by auto
  have "of_int (n * 10 ^ k div d) = (of_int n / of_int d :: rat) * of_int (10 ^ k)" using d by (simp add: c)
  moreover have "scaled q = (n * 10 ^ k div d, k)" using assms by (simp add: scaled_def nd)
  ultimately show ?thesis using quotient_of_div [OF nd] by simp
qed

lemma parseFloat_formatFloat:
  assumes "isFloat q"
  shows "parseFloat (formatFloat q) = Some q"
proof -
  obtain k where k: "decimals q = Some k" using assms by (auto simp: isFloat_def)
  have "(of_nat (nat (abs (fst (scaled q)))) :: rat) = abs (of_int (fst (scaled q)))" by (metis abs_ge_zero nat_0_le of_int_abs of_int_of_nat_eq)
  then have v: "of_nat (nat (abs (fst (scaled q)))) / 10 ^ snd (scaled q) = abs q"
    using scaled_value [OF k] by (simp add: abs_mult)
  obtain i f e where l: "formatFloat q = (if q < 0 then ''-'' else []) @ i @ f @ e" "denotes i f e (abs q)"
    using formatFloat_denotes [of q] unfolding v by blast
  then have "parseFloat (formatFloat q) = Some (if q < 0 then - abs q else abs q)"
    using literal_parseFloat [of i f e "q < 0"] assms by (simp add: denotes_def isFloat_def)
  then show ?thesis by (simp add: abs_if split: if_splits)
qed

lemma formatFloat_hd: "\<exists>c s. formatFloat q = c # s \<and> (c = CHR ''-'' \<or> is_digit c)"
  using formatFloat_denotes [of q] literal_hd by (fastforce simp: denotes_def)

lemma literal_printable: "literal i f e \<Longrightarrow> c \<in> set (i @ f @ e) \<Longrightarrow> 32 \<le> byteVal c"
  by (auto simp: literal_def is_digit_def inRange_def) fastforce+

lemma formatFloat_printable: "c \<in> set (formatFloat q) \<Longrightarrow> 32 \<le> byteVal c"
  using formatFloat_denotes [of q] literal_printable by (fastforce simp: denotes_def split: if_splits)

lemma Itoa_hd: "\<exists>c s. Itoa n = c # s \<and> (c = CHR ''-'' \<or> is_digit c)"
proof (cases "n < 0")
  case False
  then show ?thesis using nat_digits_ok(1) [of "nat n"] nat_digits_ok(2) [of _ "nat n"] by (cases "nat_digits (nat n)") (auto simp: Itoa_def)
qed (simp add: Itoa_def)

lemma digits1_length: "digits1 s = Some (d, t) \<Longrightarrow> length t < length s"
proof -
  assume "digits1 s = Some (d, t)"
  then have "takeWhile is_digit s \<noteq> []" "t = dropWhile is_digit s" by (auto simp: digits1_def Let_def split: if_splits)
  moreover have "length s = length (takeWhile is_digit s) + length (dropWhile is_digit s)" by (metis length_append takeWhile_dropWhile_id)
  ultimately show "length t < length s" by simp
qed

lemma numLit_length: "numLit s = Some (l, t) \<Longrightarrow> length t < length s"
proof -
  have i: "intPart s = Some (d, t) \<Longrightarrow> length t < length s" for s d t
    by (cases s) (auto simp: intPart_def dest: digits1_length split: list.splits char.splits bool.splits if_splits)
  have f: "fracPart s = Some (d, t) \<Longrightarrow> length t \<le> length s" for s d t
    by (cases s) (auto simp: fracPart_def dest!: digits1_length split: list.splits char.splits bool.splits if_splits)
  have e: "expPart s = Some (d, t) \<Longrightarrow> length t \<le> length s" for s d t
    by (cases s) (auto simp: expPart_def dest!: digits1_length split: list.splits if_splits)
  assume "numLit s = Some (l, t)"
  then obtain g s0 i' s1 f' s2 e' where p: "(case s of CHR ''-'' # t \<Rightarrow> (''-'', t) | _ \<Rightarrow> ([], s)) = (g, s0)" "intPart s0 = Some (i', s1)"
      "fracPart s1 = Some (f', s2)" "expPart s2 = Some (e', t)"
    by (auto simp: numLit_def split: prod.splits option.splits)
  have "length s0 \<le> length s" using p(1) by (auto split: list.splits char.splits bool.splits)
  then show "length t < length s" using i [OF p(2)] f [OF p(3)] e [OF p(4)] by simp
qed

end
