(* ===== verification/Json.thy ===== *)
theory Json
  imports Http Codec JsonNumber "HOL-Library.Code_Target_Nat"
begin

text \<open>
  The package \<^verbatim>\<open>encoding/json\<close> as the program uses it, on bytes: the encoder with its
  escaping of control, HTML and line separator characters and of invalid UTF-8, and the
  decoder for values with its limit on nesting.  The decoder inverts the encoder up to
  the replacement of invalid UTF-8, and no encoded value contains a line break.
\<close>

section \<open>UTF-8\<close>

definition second :: "char \<Rightarrow> char \<Rightarrow> bool" where
  "second c d =
     (if byteVal c = 224 then inRange 160 191 d
      else if byteVal c = 237 then inRange 128 159 d
      else if byteVal c = 240 then inRange 144 191 d
      else if byteVal c = 244 then inRange 128 143 d
      else inRange 128 191 d)"

text \<open>The length of the encoded rune a string begins with; zero when the bytes are not a valid encoding.\<close>

fun runeLen :: "bytes \<Rightarrow> nat" where
  "runeLen [] = 0"
| "runeLen (c # s) =
     (if byteVal c < 128 then 1
      else if inRange 194 223 c then (case s of d # _ \<Rightarrow> if second c d then 2 else 0 | [] \<Rightarrow> 0)
      else if inRange 224 239 c then (case s of d # e # _ \<Rightarrow> if second c d \<and> inRange 128 191 e then 3 else 0 | _ \<Rightarrow> 0)
      else if inRange 240 244 c then
        (case s of d # e # f # _ \<Rightarrow> if second c d \<and> inRange 128 191 e \<and> inRange 128 191 f then 4 else 0 | _ \<Rightarrow> 0)
      else 0)"

definition runeError :: bytes where "runeError = [CHR 0xEF, CHR 0xBF, CHR 0xBD]"

lemma runeLen_le: "runeLen s \<le> length s"
  by (cases s) (auto split: list.splits)

lemma runeLen_take: "runeLen s \<noteq> 0 \<Longrightarrow> runeLen (take (runeLen s) s @ t) = runeLen s"
  by (cases s) (auto split: list.splits if_splits)

text \<open>\<open>utf8.EncodeRune\<close> for the byteVal points that the decoder of strings produces.\<close>

definition encodeRune :: "nat \<Rightarrow> bytes" where
  "encodeRune n =
     (if n < 128 then [char_of n]
      else if n < 2048 then [char_of (192 + n div 64), char_of (128 + n mod 64)]
      else if n < 65536 then
        (if 55296 \<le> n \<and> n < 57344 then runeError
         else [char_of (224 + n div 4096), char_of (128 + n div 64 mod 64), char_of (128 + n mod 64)])
      else [char_of (240 + n div 262144), char_of (128 + n div 4096 mod 64), char_of (128 + n div 64 mod 64), char_of (128 + n mod 64)])"

text \<open>The string with every byte that begins no valid rune replaced.\<close>

function toValid :: "bytes \<Rightarrow> bytes" where
  "toValid [] = []"
| "toValid (c # s) =
     (let n = runeLen (c # s) in
      if n = 0 then runeError @ toValid s else take n (c # s) @ toValid (drop (n - 1) s))"
  by pat_completeness auto
termination by (relation "measure length") (auto simp: le_imp_less_Suc)

declare toValid.simps(2) [simp del]

section \<open>Encoding\<close>

text \<open>One byte below 128 in a string literal, with the HTML characters escaped.\<close>

definition escape :: "char \<Rightarrow> string" where
  "escape c =
     (if 32 \<le> byteVal c \<and> c \<notin> {CHR 0x22, CHR 0x5C, CHR ''<'', CHR ''>'', CHR ''&''} then [c]
      else if c \<in> {CHR 0x22, CHR 0x5C} then [CHR 0x5C, c]
      else if byteVal c = 8 then [CHR 0x5C, CHR ''b'']
      else if byteVal c = 12 then [CHR 0x5C, CHR ''f'']
      else if byteVal c = 10 then [CHR 0x5C, CHR ''n'']
      else if byteVal c = 13 then [CHR 0x5C, CHR ''r'']
      else if byteVal c = 9 then [CHR 0x5C, CHR ''t'']
      else [CHR 0x5C, CHR ''u'', CHR ''0'', CHR ''0'', hex_digit (byteVal c div 16), hex_digit (byteVal c mod 16)])"

definition lineSep :: "bytes \<Rightarrow> bool" where
  "lineSep s \<longleftrightarrow> take 3 s \<in> {[CHR 0xE2, CHR 0x80, CHR 0xA8], [CHR 0xE2, CHR 0x80, CHR 0xA9]}"

function escapes :: "bytes \<Rightarrow> string" where
  "escapes [] = []"
| "escapes (c # s) =
     (if byteVal c < 128 then escape c @ escapes s
      else let n = runeLen (c # s) in
        if n = 0 then [CHR 0x5C, CHR ''u'', CHR ''f'', CHR ''f'', CHR ''f'', CHR ''d''] @ escapes s
        else if lineSep (c # s)
        then [CHR 0x5C, CHR ''u'', CHR ''2'', CHR ''0'', CHR ''2'', hex_digit (byteVal ((c # s) ! 2) mod 16)] @ escapes (drop (n - 1) s)
        else take n (c # s) @ escapes (drop (n - 1) s))"
  by pat_completeness auto
termination by (relation "measure length") (auto simp: le_imp_less_Suc)

declare escapes.simps(2) [simp del]

definition quote :: "bytes \<Rightarrow> string" where
  "quote s = [CHR 0x22] @ escapes s @ [CHR 0x22]"

fun commas :: "string list \<Rightarrow> string" where
  "commas [] = []"
| "commas [x] = x"
| "commas (x # y # ys) = x @ CHR '','' # commas (y # ys)"

text \<open>\<open>json.Marshal\<close>; the fields of an object come in the order given, which for a Go map is the order of the keys.\<close>

fun Marshal :: "json \<Rightarrow> string" where
  "Marshal JNull = ''null''"
| "Marshal (JBool b) = (if b then ''true'' else ''false'')"
| "Marshal (JInt n) = Itoa n"
| "Marshal (JNum q) = formatFloat q"
| "Marshal (JStr s) = quote s"
| "Marshal (JArr vs) = CHR ''['' # commas (map Marshal vs) @ '']''"
| "Marshal (JObj fs) = CHR 0x7B # commas (map (\<lambda>(k, v). quote k @ CHR '':'' # Marshal v) fs) @ [CHR 0x7D]"

section \<open>Decoding\<close>

datatype jval = VNull | VBool bool | VNum string | VStr bytes | VArr "jval list" | VObj "(bytes \<times> jval) list"

definition hexVal :: "char \<Rightarrow> nat option" where
  "hexVal c =
     (if inRange 48 57 c then Some (byteVal c - 48)
      else if inRange 97 102 c then Some (byteVal c - 87)
      else if inRange 65 70 c then Some (byteVal c - 55) else None)"

fun getu4 :: "string \<Rightarrow> nat option" where
  "getu4 (a # b # c # d # _) =
     (case (hexVal a, hexVal b, hexVal c, hexVal d) of
        (Some w, Some x, Some y, Some z) \<Rightarrow> Some (4096 * w + 256 * x + 16 * y + z)
      | _ \<Rightarrow> None)"
| "getu4 _ = None"

definition simpleEscape :: "char \<Rightarrow> char option" where
  "simpleEscape c =
     (if c \<in> {CHR 0x22, CHR 0x5C, CHR ''/''} then Some c
      else if c = CHR ''b'' then Some (CHR 0x08)
      else if c = CHR ''f'' then Some (CHR 0x0C)
      else if c = CHR ''n'' then Some (CHR 0x0A)
      else if c = CHR ''r'' then Some (CHR 0x0D)
      else if c = CHR ''t'' then Some (CHR 0x09) else None)"

text \<open>The rune of a \<open>\u\<close> escape with value \<open>r\<close> before the text \<open>t\<close>, and the text after it: a surrogate takes its partner along.\<close>

definition pairUp :: "nat \<Rightarrow> string \<Rightarrow> bytes \<times> string" where
  "pairUp r t =
     (if 55296 \<le> r \<and> r < 57344 then
        (case (if take 2 t = [CHR 0x5C, CHR ''u''] then getu4 (drop 2 t) else None) of
           Some r2 \<Rightarrow>
             if r < 56320 \<and> 56320 \<le> r2 \<and> r2 < 57344
             then (encodeRune (65536 + (r - 55296) * 1024 + (r2 - 56320)), drop 6 t)
             else (runeError, t)
         | None \<Rightarrow> (runeError, t))
      else (encodeRune r, t))"

lemma pairUp_length: "length (snd (pairUp r t)) \<le> length t"
  by (auto simp: pairUp_def split: option.splits)

text \<open>The contents of a string literal after its opening quote, and what follows the closing one.\<close>

function unquote :: "string \<Rightarrow> (bytes \<times> string) option" where
  "unquote [] = None"
| "unquote (c # s) =
     (if c = CHR 0x22 then Some ([], s)
      else if c = CHR 0x5C then
        (case s of
           [] \<Rightarrow> None
         | e # t \<Rightarrow>
           if e = CHR ''u'' then
             (case getu4 t of
                None \<Rightarrow> None
              | Some r \<Rightarrow> (let p = pairUp r (drop 4 t) in map_option (apfst ((@) (fst p))) (unquote (snd p))))
           else (case simpleEscape e of None \<Rightarrow> None | Some b \<Rightarrow> map_option (apfst (Cons b)) (unquote t)))
      else if byteVal c < 32 then None
      else let n = runeLen (c # s) in
        if n = 0 then map_option (apfst ((@) runeError)) (unquote s)
        else map_option (apfst ((@) (take n (c # s)))) (unquote (drop (n - 1) s)))"
  by pat_completeness auto
termination
proof (relation "measure length", goal_cases)
  case (2 c s e t r p)
  then show ?case using pairUp_length [of r "drop 4 t"] by simp
qed (auto simp: le_imp_less_Suc)

declare unquote.simps(2) [simp del]

definition is_ws :: "char \<Rightarrow> bool" where
  "is_ws c \<longleftrightarrow> c \<in> {CHR '' '', CHR 0x09, CHR 0x0A, CHR 0x0D}"

abbreviation skipWs :: "string \<Rightarrow> string" where "skipWs s \<equiv> dropWhile is_ws s"

definition word :: "string \<Rightarrow> string \<Rightarrow> jval \<Rightarrow> (jval \<times> string) option" where
  "word w s v = (if prefix w s then Some (v, drop (length w) s) else None)"

definition maxNestingDepth :: nat where "maxNestingDepth = 10000"

text \<open>The three loops of the parser; the first argument bounds the calls, the second is the nesting.\<close>

fun parseValue :: "nat \<Rightarrow> nat \<Rightarrow> string \<Rightarrow> (jval \<times> string) option"
  and elements :: "nat \<Rightarrow> nat \<Rightarrow> string \<Rightarrow> (jval list \<times> string) option"
  and members :: "nat \<Rightarrow> nat \<Rightarrow> string \<Rightarrow> ((bytes \<times> jval) list \<times> string) option" where
  "parseValue 0 d s = None"
| "parseValue (Suc n) d s =
     (case skipWs s of
        [] \<Rightarrow> None
      | c # t \<Rightarrow>
        if c = CHR 0x22 then map_option (apfst VStr) (unquote t)
        else if c = CHR ''['' then
          (if d \<ge> maxNestingDepth then None
           else case skipWs t of
             [] \<Rightarrow> None
           | e # u \<Rightarrow> if e = CHR '']'' then Some (VArr [], u) else map_option (apfst VArr) (elements n (Suc d) (e # u)))
        else if c = CHR 0x7B then
          (if d \<ge> maxNestingDepth then None
           else case skipWs t of
             [] \<Rightarrow> None
           | e # u \<Rightarrow> if e = CHR 0x7D then Some (VObj [], u) else map_option (apfst VObj) (members n (Suc d) (e # u)))
        else if c = CHR ''t'' then word ''true'' (c # t) (VBool True)
        else if c = CHR ''f'' then word ''false'' (c # t) (VBool False)
        else if c = CHR ''n'' then word ''null'' (c # t) VNull
        else map_option (apfst VNum) (numLit (c # t)))"
| "elements 0 d s = None"
| "elements (Suc n) d s =
     (case parseValue n d s of
        None \<Rightarrow> None
      | Some (v, t) \<Rightarrow>
        (case skipWs t of
           [] \<Rightarrow> None
         | e # u \<Rightarrow>
           if e = CHR '','' then map_option (apfst (Cons v)) (elements n d u)
           else if e = CHR '']'' then Some ([v], u) else None))"
| "members 0 d s = None"
| "members (Suc n) d s =
     (case skipWs s of
        [] \<Rightarrow> None
      | q # t \<Rightarrow>
        if q \<noteq> CHR 0x22 then None
        else case unquote t of
          None \<Rightarrow> None
        | Some (k, u) \<Rightarrow>
          (case skipWs u of
             [] \<Rightarrow> None
           | e # w \<Rightarrow>
             if e \<noteq> CHR '':'' then None
             else case parseValue n d w of
               None \<Rightarrow> None
             | Some (v, x) \<Rightarrow>
               (case skipWs x of
                  [] \<Rightarrow> None
                | f # y \<Rightarrow>
                  if f = CHR '','' then map_option (apfst (Cons (k, v))) (members n d y)
                  else if f = CHR 0x7D then Some ([(k, v)], y) else None)))"

definition Unmarshal :: "string \<Rightarrow> jval option" where
  "Unmarshal s =
     (case parseValue (2 * length s + 2) 0 s of
        None \<Rightarrow> None
      | Some (v, t) \<Rightarrow> if skipWs t = [] then Some v else None)"

section \<open>Strings\<close>

lemma hexVal_digit: "n < 16 \<Longrightarrow> hexVal (hex_digit n) = Some n"
proof -
  have "\<forall>n \<in> set [0..<16]. hexVal (hex_digit n) = Some n" by code_simp
  then show "n < 16 \<Longrightarrow> hexVal (hex_digit n) = Some n" by simp
qed

lemma code_eq: "byteVal c = n \<longleftrightarrow> n < 256 \<and> c = char_of n"
proof
  assume "byteVal c = n"
  then show "n < 256 \<and> c = char_of n" using char_of_char [of c] nat_of_char_less_256 [of c] by metis
qed (auto simp: of_char_of take_bit_eq_mod)

lemma append_single [simp]: "(@) [c] = Cons c"
  by (simp add: fun_eq_iff)

lemma unquote_ascii:
  assumes "32 \<le> byteVal c" and "byteVal c < 128" and "c \<noteq> CHR 0x22" and "c \<noteq> CHR 0x5C"
  shows "unquote (c # s) = map_option (apfst (Cons c)) (unquote s)"
  using assms by (simp add: unquote.simps(2) Let_def)

lemma unquote_simple: "simpleEscape e = Some b \<Longrightarrow> unquote (CHR 0x5C # e # s) = map_option (apfst (Cons b)) (unquote s)"
  by (auto simp: unquote.simps(2) simpleEscape_def)

lemma unquote_u4:
  assumes "getu4 h = Some r" and "length h = 4" and "r < 55296 \<or> 57344 \<le> r"
  shows "unquote (CHR 0x5C # CHR ''u'' # h @ s) = map_option (apfst ((@) (encodeRune r))) (unquote s)"
proof -
  obtain a b c d where h: "h = [a, b, c, d]" using assms(2) by (auto simp: eval_nat_numeral length_Suc_conv)
  then have "getu4 (h @ s) = Some r" using assms(1) by simp
  moreover have "pairUp r s = (encodeRune r, s)" using assms(3) by (auto simp: pairUp_def)
  ultimately show ?thesis using assms(2) by (simp add: unquote.simps(2) Let_def)
qed

lemma unquote_escape:
  assumes "byteVal c < 128"
  shows "unquote (escape c @ s) = map_option (apfst (Cons c)) (unquote s)"
proof (cases "32 \<le> byteVal c \<and> c \<notin> {CHR 0x22, CHR 0x5C, CHR ''<'', CHR ''>'', CHR ''&''}")
  case True
  then show ?thesis using assms by (simp add: escape_def unquote_ascii)
next
  case False
  have short: ?thesis if "escape c = [CHR 0x5C, e]" "simpleEscape e = Some c" for e
    using that unquote_simple by simp
  consider "c \<in> {CHR 0x22, CHR 0x5C}" | "byteVal c \<in> {8, 9, 10, 12, 13}" | "c \<notin> {CHR 0x22, CHR 0x5C}" "byteVal c \<notin> {8, 9, 10, 12, 13}" by blast
  then show ?thesis
  proof cases
    case 1
    then show ?thesis by (intro short [of c]) (auto simp: escape_def simpleEscape_def)
  next
    case 2
    have "char_of (8 :: nat) = CHR 0x08" "char_of (9 :: nat) = CHR 0x09" "char_of (10 :: nat) = CHR 0x0A"
      "char_of (12 :: nat) = CHR 0x0C" "char_of (13 :: nat) = CHR 0x0D" by code_simp+
    then show ?thesis using 2 by (auto simp: code_eq escape_def unquote_simple simpleEscape_def)
  next
    case 3
    have e: "escape c = CHR 0x5C # CHR ''u'' # [CHR ''0'', CHR ''0'', hex_digit (byteVal c div 16), hex_digit (byteVal c mod 16)]"
      using 3 False by (auto simp: escape_def)
    have "byteVal c div 16 < 16" "byteVal c mod 16 < 16" using assms by auto
    then have "getu4 [CHR ''0'', CHR ''0'', hex_digit (byteVal c div 16), hex_digit (byteVal c mod 16)] = Some (byteVal c)"
      using hexVal_digit [of 0] by (simp add: hexVal_digit hex_digit_def [of 0] hexVal_def [of "CHR ''0''"] inRange_def)
    from unquote_u4 [OF this] show ?thesis unfolding e using assms by (simp add: encodeRune_def)
  qed
qed

lemma toValid_ascii: "byteVal c < 128 \<Longrightarrow> toValid (c # s) = c # toValid s"
  by (simp add: toValid.simps(2))

lemma unquote_rune:
  assumes "\<not> byteVal c < 128" and "runeLen (c # s) = n" and "n \<noteq> 0"
  shows "unquote (take n (c # s) @ t) = map_option (apfst ((@) (take n (c # s)))) (unquote t)"
proof -
  obtain m where n: "n = Suc m" using assms(3) by (cases n) auto
  have "m \<le> length s" using runeLen_le [of "c # s"] assms(2) n by simp
  moreover have "runeLen (take n (c # s) @ t) = n" using runeLen_take [of "c # s" t] assms(2,3) by simp
  ultimately show ?thesis
    using assms(1,3) by (auto simp: n unquote.simps(2) Let_def)
qed

lemma lineSep_cases:
  assumes "lineSep s"
  obtains t where "s = [CHR 0xE2, CHR 0x80, CHR 0xA8] @ t" | t where "s = [CHR 0xE2, CHR 0x80, CHR 0xA9] @ t"
proof -
  have "s = take 3 s @ drop 3 s" by simp
  then show thesis using assms that unfolding lineSep_def by (metis insertE singletonD)
qed

lemma unquote_escapes: "unquote (escapes s @ CHR 0x22 # t) = Some (toValid s, t)"
proof (induction s rule: escapes.induct)
  case 1
  then show ?case by (simp add: unquote.simps(2))
next
  case (2 c s)
  define n where "n = runeLen (c # s)"
  consider (ascii) "byteVal c < 128" | (bad) "\<not> byteVal c < 128" "n = 0" | (sep) "\<not> byteVal c < 128" "n \<noteq> 0" "lineSep (c # s)"
    | (rune) "\<not> byteVal c < 128" "n \<noteq> 0" "\<not> lineSep (c # s)" by blast
  then show ?case
  proof cases
    case ascii
    then show ?thesis using 2(1) by (simp add: escapes.simps(2) unquote_escape toValid_ascii)
  next
    case bad
    have "getu4 ''fffd'' = Some 65533" "encodeRune 65533 = runeError" by code_simp+
    then show ?thesis
      using bad 2(2) [OF bad(1) n_def] unquote_u4 [of "''fffd''" 65533]
      by (simp add: escapes.simps(2) toValid.simps(2) n_def [symmetric] del: runeLen.simps getu4.simps)
  next
    case sep
    have u: "getu4 ''2028'' = Some 8232" "getu4 ''2029'' = Some 8233" "encodeRune 8232 = [CHR 0xE2, CHR 0x80, CHR 0xA8]"
      "encodeRune 8233 = [CHR 0xE2, CHR 0x80, CHR 0xA9]" "hex_digit 8 = CHR ''8''" "hex_digit 9 = CHR ''9''" by code_simp+
    have n3: "runeLen (CHR 0xE2 # CHR 0x80 # CHR 0xA8 # t) = 3" "runeLen (CHR 0xE2 # CHR 0x80 # CHR 0xA9 # t) = 3" for t
      by (simp_all add: inRange_def second_def)
    note ih = 2(3) [OF sep(1) n_def sep(2,3)]
    from sep(3) show ?thesis
    proof (cases rule: lineSep_cases)
      case (1 t)
      then show ?thesis
        using sep ih unquote_u4 [OF u(1)] by (simp add: escapes.simps(2) toValid.simps(2) n_def n3 u del: runeLen.simps getu4.simps)
    next
      case (2 t)
      then show ?thesis
        using sep ih unquote_u4 [OF u(2)] by (simp add: escapes.simps(2) toValid.simps(2) n_def n3 u del: runeLen.simps getu4.simps)
    qed
  next
    case rune
    note ih = 2(4) [OF rune(1) n_def rune(2,3)]
    have "unquote (take n (c # s) @ escapes (drop (n - 1) s) @ CHR 0x22 # t) = Some (take n (c # s) @ toValid (drop (n - 1) s), t)"
      using unquote_rune [OF rune(1) n_def [symmetric] rune(2)] ih by simp
    then show ?thesis using rune by (simp add: escapes.simps(2) toValid.simps(2) n_def [symmetric] Let_def del: runeLen.simps)
  qed
qed

lemma unquote_quote: "\<exists>u. quote s @ t = CHR 0x22 # u \<and> unquote u = Some (toValid s, t)"
  using unquote_escapes [of s t] by (simp add: quote_def)

section \<open>Values\<close>

fun val :: "json \<Rightarrow> jval" where
  "val JNull = VNull"
| "val (JBool b) = VBool b"
| "val (JInt n) = VNum (Itoa n)"
| "val (JNum q) = VNum (formatFloat q)"
| "val (JStr s) = VStr (toValid s)"
| "val (JArr vs) = VArr (map val vs)"
| "val (JObj fs) = VObj (map (\<lambda>(k, v). (toValid k, val v)) fs)"

fun nesting :: "json \<Rightarrow> nat" where
  "nesting (JArr vs) = Suc (Max (set (0 # map nesting vs)))"
| "nesting (JObj fs) = Suc (Max (set (0 # map (\<lambda>(k, v). nesting v) fs)))"
| "nesting _ = 0"

lemma is_digit_neq: "is_digit c \<Longrightarrow> c \<noteq> CHR ''-'' \<and> c \<notin> {CHR 0x22, CHR ''['', CHR '']'', CHR 0x7B, CHR 0x7D, CHR ''t'', CHR ''f'', CHR ''n''} \<and> \<not> is_ws c"
  by (auto simp: is_digit_def inRange_def is_ws_def)

lemma number_hd: "c = CHR ''-'' \<or> is_digit c \<Longrightarrow>
    \<not> is_ws c \<and> c \<notin> {CHR 0x22, CHR ''['', CHR '']'', CHR 0x7B, CHR 0x7D, CHR ''t'', CHR ''f'', CHR ''n''}"
  using is_digit_neq [of c] by (elim disjE) (simp_all add: is_ws_def)

lemma Marshal_hd: "\<exists>c s. Marshal v = c # s \<and> \<not> is_ws c \<and> c \<noteq> CHR '']'' \<and> c \<noteq> CHR 0x7D"
proof (cases v)
  case (JInt n)
  then show ?thesis using Itoa_hd [of n] number_hd by fastforce
next
  case (JNum q)
  then show ?thesis using formatFloat_hd [of q] number_hd by fastforce
qed (auto simp: quote_def is_ws_def)

lemma skipWs_Marshal [simp]: "skipWs (Marshal v @ s) = Marshal v @ s"
  using Marshal_hd [of v] by auto

lemma is_ws_simps [simp]: "\<not> is_ws (CHR '','')" "\<not> is_ws (CHR '']'')" "\<not> is_ws (CHR 0x7D)" "\<not> is_ws (CHR '':'')" "\<not> is_ws (CHR 0x22)"
  "\<not> is_ws (CHR ''['')" "\<not> is_ws (CHR 0x7B)"
  by (simp_all add: is_ws_def)

definition parses :: "nat \<Rightarrow> json \<Rightarrow> bool" where
  "parses d v \<longleftrightarrow> (\<forall>n s. 2 * length (Marshal v) \<le> n \<longrightarrow> stops s \<longrightarrow> parseValue n d (Marshal v @ s) = Some (val v, s))"

lemma elements_commas:
  assumes "vs \<noteq> []" and "\<forall>v \<in> set vs. parses d v" and "2 * length (commas (map Marshal vs)) < n"
  shows "elements n d (commas (map Marshal vs) @ CHR '']'' # s) = Some (map val vs, s)"
  using assms
proof (induction vs arbitrary: n)
  case (Cons v vs)
  obtain m where n: "n = Suc m" using Cons.prems(3) by (cases n) auto
  show ?case
  proof (cases vs)
    case Nil
    have "parseValue m d (Marshal v @ CHR '']'' # s) = Some (val v, CHR '']'' # s)"
      using Cons.prems(2,3) Nil n by (simp add: parses_def)
    then show ?thesis using Nil n by simp
  next
    case (Cons w ws)
    let ?t = "commas (map Marshal vs) @ CHR '']'' # s"
    have "parseValue m d (Marshal v @ CHR '','' # ?t) = Some (val v, CHR '','' # ?t)"
      using Cons.prems(2,3) Cons n by (simp add: parses_def)
    moreover have "elements m d ?t = Some (map val vs, s)"
      by (rule Cons.IH) (use Cons Cons.prems(2,3) n in auto)
    ultimately show ?thesis using Cons n by simp
  qed
qed simp

lemma members_commas:
  assumes "fs \<noteq> []" and "\<forall>(k, v) \<in> set fs. parses d v" and "2 * length (commas (map (\<lambda>(k, v). quote k @ CHR '':'' # Marshal v) fs)) < n"
  shows "members n d (commas (map (\<lambda>(k, v). quote k @ CHR '':'' # Marshal v) fs) @ CHR 0x7D # s) = Some (map (\<lambda>(k, v). (toValid k, val v)) fs, s)"
  using assms
proof (induction fs arbitrary: n)
  case (Cons f fs)
  obtain k v where f: "f = (k, v)" by fastforce
  obtain m where n: "n = Suc m" using Cons.prems(3) by (cases n) auto
  show ?case
  proof (cases fs)
    case Nil
    obtain u where u: "quote k @ CHR '':'' # Marshal v @ CHR 0x7D # s = CHR 0x22 # u" "unquote u = Some (toValid k, CHR '':'' # Marshal v @ CHR 0x7D # s)"
      using unquote_quote by blast
    have "parseValue m d (Marshal v @ CHR 0x7D # s) = Some (val v, CHR 0x7D # s)"
      using Cons.prems(2,3) Nil n f by (simp add: parses_def)
    then show ?thesis using Nil n f u by simp
  next
    case (Cons g gs)
    let ?t = "commas (map (\<lambda>(k, v). quote k @ CHR '':'' # Marshal v) fs) @ CHR 0x7D # s"
    obtain u where u: "quote k @ CHR '':'' # Marshal v @ CHR '','' # ?t = CHR 0x22 # u" "unquote u = Some (toValid k, CHR '':'' # Marshal v @ CHR '','' # ?t)"
      using unquote_quote by blast
    have "parseValue m d (Marshal v @ CHR '','' # ?t) = Some (val v, CHR '','' # ?t)"
      using Cons.prems(2,3) Cons n f by (simp add: parses_def)
    moreover have "members m d ?t = Some (map (\<lambda>(k, v). (toValid k, val v)) fs, s)"
      by (rule Cons.IH) (use Cons Cons.prems(2,3) n f in auto)
    ultimately show ?thesis using Cons n f u by simp
  qed
qed simp

lemma parseValue_words:
  assumes "0 < n"
  shows "parseValue n d (''null'' @ s) = Some (VNull, s)" "parseValue n d (''true'' @ s) = Some (VBool True, s)"
    "parseValue n d (''false'' @ s) = Some (VBool False, s)"
  using assms by (cases n; simp add: word_def is_ws_def)+

lemma parses_number:
  assumes "\<exists>c s. l = c # s \<and> (c = CHR ''-'' \<or> is_digit c)" and "\<And>s. stops s \<Longrightarrow> numLit (l @ s) = Some (l, s)"
    and "2 * length l \<le> n" and "stops t"
  shows "parseValue n d (l @ t) = Some (VNum l, t)"
proof -
  obtain c s where c: "l = c # s" "c = CHR ''-'' \<or> is_digit c" using assms(1) by blast
  obtain m where n: "n = Suc m" using assms(3) c(1) by (cases n) auto
  have "parseValue n d (l @ t) = map_option (apfst VNum) (numLit (l @ t))" using number_hd [OF c(2)] by (simp add: n c(1))
  then show ?thesis using assms(2) [OF assms(4)] by simp
qed

lemma parses_Marshal: "nesting v + d \<le> maxNestingDepth \<Longrightarrow> parses d v"
proof (induction v arbitrary: d)
  case (JInt n)
  then show ?case using parses_number [OF Itoa_hd numLit_Itoa] by (simp add: parses_def)
next
  case (JNum q)
  then show ?case using parses_number [OF formatFloat_hd numLit_float] by (simp add: parses_def)
next
  case (JStr s)
  show ?case unfolding parses_def
  proof (intro allI impI)
    fix n t
    assume "2 * length (Marshal (JStr s)) \<le> n"
    then obtain m where n: "n = Suc m" by (cases n) (auto simp: quote_def)
    obtain u where "quote s @ t = CHR 0x22 # u" "unquote u = Some (toValid s, t)" using unquote_quote by blast
    then show "parseValue n d (Marshal (JStr s) @ t) = Some (val (JStr s), t)" by (simp add: n)
  qed
next
  case (JArr vs)
  have "nesting v + Suc d \<le> maxNestingDepth" if "v \<in> set vs" for v
  proof -
    have "nesting v \<le> Max (set (0 # map nesting vs))" by (rule Max_ge) (use that in auto)
    then show ?thesis using JArr.prems by simp
  qed
  then have d: "d < maxNestingDepth" and p: "\<forall>v \<in> set vs. parses (Suc d) v" using JArr.prems JArr.IH by auto
  show ?case unfolding parses_def
  proof (intro allI impI)
    fix n t
    assume n: "2 * length (Marshal (JArr vs)) \<le> n"
    then obtain m where m: "n = Suc m" by (cases n) auto
    show "parseValue n d (Marshal (JArr vs) @ t) = Some (val (JArr vs), t)"
    proof (cases vs)
      case Nil
      then show ?thesis using d by (simp add: m)
    next
      case (Cons v ws)
      obtain c s where c: "commas (map Marshal vs) = c # s" "\<not> is_ws c" "c \<noteq> CHR '']''"
        using Marshal_hd [of v] Cons by (cases ws) auto
      have "elements m (Suc d) (commas (map Marshal vs) @ CHR '']'' # t) = Some (map val vs, t)"
        by (rule elements_commas) (use Cons p n m in auto)
      then show ?thesis using d c by (simp add: m)
    qed
  qed
next
  case (JObj fs)
  have "nesting v + Suc d \<le> maxNestingDepth" if "(k, v) \<in> set fs" for k v
  proof -
    have "nesting v \<le> Max (set (0 # map (\<lambda>(k, v). nesting v) fs))" by (rule Max_ge) (use that in force)+
    then show ?thesis using JObj.prems by simp
  qed
  then have d: "d < maxNestingDepth" and p: "\<forall>(k, v) \<in> set fs. parses (Suc d) v" using JObj.prems JObj.IH by fastforce+
  show ?case unfolding parses_def
  proof (intro allI impI)
    fix n t
    assume n: "2 * length (Marshal (JObj fs)) \<le> n"
    then obtain m where m: "n = Suc m" by (cases n) auto
    let ?ms = "map (\<lambda>(k, v). quote k @ CHR '':'' # Marshal v) fs"
    show "parseValue n d (Marshal (JObj fs) @ t) = Some (val (JObj fs), t)"
    proof (cases fs)
      case Nil
      then show ?thesis using d by (simp add: m)
    next
      case (Cons f gs)
      obtain s where c: "commas ?ms = CHR 0x22 # s" using Cons by (cases f; cases gs) (auto simp: quote_def)
      have "members m (Suc d) (commas ?ms @ CHR 0x7D # t) = Some (map (\<lambda>(k, v). (toValid k, val v)) fs, t)"
        by (rule members_commas) (use Cons p n m in auto)
      then show ?thesis using d c by (simp add: m)
    qed
  qed
qed (use parseValue_words in \<open>auto simp: parses_def\<close>)

lemma Unmarshal_Marshal:
  assumes "nesting v \<le> maxNestingDepth" and "\<forall>c \<in> set s. is_ws c"
  shows "Unmarshal (Marshal v @ s) = Some (val v)"
proof -
  have "stops s"
  proof (cases s)
    case (Cons c t)
    then have "is_ws c" using assms(2) by simp
    then show ?thesis using Cons is_digit_neq [of c] by (auto simp: stops_def is_ws_def)
  qed simp
  moreover have "parses 0 v" using parses_Marshal [of v 0] assms(1) by simp
  ultimately have "parseValue (2 * length (Marshal v @ s) + 2) 0 (Marshal v @ s) = Some (val v, s)"
    unfolding parses_def by (simp del: parseValue.simps)
  moreover have "skipWs s = []" using assms(2) by simp
  ultimately show ?thesis unfolding Unmarshal_def by simp
qed

section \<open>Framing\<close>

text \<open>No byte of an encoded value is a control character, so no line break.\<close>

lemma escape_printable: "c \<in> set (escape x) \<Longrightarrow> 32 \<le> byteVal c"
proof -
  have h: "\<forall>n \<in> set [0..<16]. 32 \<le> byteVal (hex_digit n)" by code_simp
  have "byteVal x div 16 < 16" "byteVal x mod 16 < 16" using nat_of_char_less_256 [of x] by (auto simp: less_mult_imp_div_less)
  then have "32 \<le> byteVal (hex_digit (byteVal x div 16))" "32 \<le> byteVal (hex_digit (byteVal x mod 16))" using h by auto
  then show "c \<in> set (escape x) \<Longrightarrow> 32 \<le> byteVal c" by (auto simp: escape_def split: if_splits)
qed

lemma runes_high: "\<not> byteVal c < 128 \<Longrightarrow> x \<in> set (take (runeLen (c # s)) (c # s)) \<Longrightarrow> 32 \<le> byteVal x"
  by (auto simp: inRange_def second_def split: if_splits list.splits)

lemma escapes_printable: "c \<in> set (escapes s) \<Longrightarrow> 32 \<le> byteVal c"
proof (induction s rule: escapes.induct)
  case (2 x s)
  define n where "n = runeLen (x # s)"
  have h: "\<forall>n \<in> set [0..<16]. 32 \<le> byteVal (hex_digit n)" by code_simp
  have h: "32 \<le> byteVal (hex_digit (byteVal y mod 16))" for y using h by auto
  consider "byteVal x < 128" | "\<not> byteVal x < 128" "n = 0" | "\<not> byteVal x < 128" "n \<noteq> 0" "lineSep (x # s)"
    | "\<not> byteVal x < 128" "n \<noteq> 0" "\<not> lineSep (x # s)" by blast
  then show ?case
  proof cases
    case 1
    then show ?thesis using 2(1,5) escape_printable by (auto simp: escapes.simps(2))
  next
    case p: 2
    then show ?thesis using 2(5) 2(2) [OF p(1) n_def p(2)] by (auto simp: escapes.simps(2) n_def [symmetric] simp del: runeLen.simps)
  next
    case p: 3
    then show ?thesis using 2(5) 2(3) [OF p(1) n_def p(2,3)] h
      by (auto simp: escapes.simps(2) n_def [symmetric] Let_def simp del: runeLen.simps)
  next
    case p: 4
    then show ?thesis using 2(5) 2(4) [OF p(1) n_def p(2,3)] runes_high [OF p(1), of c s]
      by (auto simp: escapes.simps(2) n_def [symmetric] Let_def simp del: runeLen.simps)
  qed
qed simp

lemma quote_printable: "c \<in> set (quote s) \<Longrightarrow> 32 \<le> byteVal c"
  using escapes_printable by (auto simp: quote_def)

lemma commas_printable: "c \<in> set (commas xs) \<Longrightarrow> c = CHR '','' \<or> (\<exists>x \<in> set xs. c \<in> set x)"
  by (induction xs rule: commas.induct) auto

lemma Itoa_printable: "c \<in> set (Itoa n) \<Longrightarrow> 32 \<le> byteVal c"
  using nat_digits_ok(2) by (fastforce simp: Itoa_def is_digit_def inRange_def split: if_splits)

lemma Marshal_printable: "c \<in> set (Marshal v) \<Longrightarrow> 32 \<le> byteVal c"
proof (induction v)
  case (JArr vs)
  then show ?case using commas_printable [of c "map Marshal vs"] by auto
next
  case (JObj fs)
  then show ?case
    using commas_printable [of c "map (\<lambda>(k, v). quote k @ CHR '':'' # Marshal v) fs"] quote_printable by fastforce
qed (auto simp: Itoa_printable formatFloat_printable quote_printable split: if_splits)

lemma Marshal_line: "CHR 0x0A \<notin> set (Marshal v)"
  using Marshal_printable by force

section \<open>The bound on the calls of the parser\<close>

lemma skipWs_length: "skipWs s = t \<Longrightarrow> length t \<le> length s"
  using length_dropWhile_le by blast

lemma unquote_length: "unquote s = Some (k, t) \<Longrightarrow> length t < length s"
proof (induction s arbitrary: k t rule: unquote.induct)
  case (2 c s)
  show ?case
  proof (cases "c = CHR 0x22")
    case True
    then show ?thesis using 2(5) by (simp add: unquote.simps(2))
  next
    case q: False
    show ?thesis
    proof (cases "c = CHR 0x5C")
      case True
      obtain e u where s: "s = e # u" using 2(5) True by (cases s) (auto simp: unquote.simps(2))
      show ?thesis
      proof (cases "e = CHR ''u''")
        case u4: True
        then obtain r where r: "getu4 u = Some r" using 2(5) True s by (auto simp: unquote.simps(2) split: option.splits)
        let ?p = "pairUp r (drop 4 u)"
        obtain k' where "unquote (snd ?p) = Some (k', t)" using 2(5) True s u4 r by (auto simp: unquote.simps(2) Let_def)
        from 2(1) [OF q True s u4 r refl this] show ?thesis using pairUp_length [of r "drop 4 u"] s by simp
      next
        case False
        then obtain b k' where "simpleEscape e = Some b" "unquote u = Some (k', t)"
          using 2(5) True s by (auto simp: unquote.simps(2) split: option.splits)
        from 2(2) [OF q True s False this] show ?thesis using s by simp
      qed
    next
      case b: False
      then have n: "\<not> byteVal c < 32" using 2(5) q by (auto simp: unquote.simps(2))
      show ?thesis
      proof (cases "runeLen (c # s) = 0")
        case True
        then obtain k' where "unquote s = Some (k', t)" using 2(5) q b n by (auto simp: unquote.simps(2) simp del: runeLen.simps)
        from 2(3) [OF q b n refl True this] show ?thesis by simp
      next
        case False
        then obtain k' where "unquote (drop (runeLen (c # s) - 1) s) = Some (k', t)"
          using 2(5) q b n by (auto simp: unquote.simps(2) Let_def simp del: runeLen.simps)
        from 2(4) [OF q b n refl False this] show ?thesis by (simp del: runeLen.simps)
      qed
    qed
  qed
qed simp

lemma parse_length:
  "parseValue n d s = Some (v, t) \<Longrightarrow> length t < length s"
  "elements n d s = Some (vs, t) \<Longrightarrow> length t < length s"
  "members n d s = Some (fs, t) \<Longrightarrow> length t < length s"
proof (induction n d s and n d s and n d s arbitrary: v t and vs t and fs t rule: parseValue_elements_members.induct)
  case (2 n d s)
  obtain c u where c: "skipWs s = c # u" using 2(3) by (cases "skipWs s") auto
  then have s: "length u < length s" using skipWs_length [OF c] by simp
  have w: "word x (c # u) y = Some (v, t) \<Longrightarrow> x \<noteq> [] \<Longrightarrow> length t < length s" for x y
    using s by (cases x) (auto simp: word_def split: if_splits)
  show ?case
  proof (cases "c \<in> {CHR ''['', CHR 0x7B}")
    case True
    obtain e x where e: "skipWs u = e # x" "length x < length u"
      using 2(3) c True skipWs_length [of u] by (cases "skipWs u") (auto split: if_splits simp del: dropWhile_eq_Nil_conv)
    show ?thesis using 2(3) c True e s 2(1,2)
      by (auto split: if_splits) (metis (no_types, opaque_lifting) Suc_lessI dual_order.strict_trans length_Cons less_Suc_eq not_less_eq)+
  next
    case False
    then show ?thesis
      using 2(3) c s w unquote_length [of u] numLit_length [of "c # u"] by (fastforce split: if_splits)
  qed
next
  case (4 n d s)
  then show ?case
    by (fastforce dest: skipWs_length split: option.splits list.splits if_splits)
next
  case (6 n d s)
  then show ?case
    by (fastforce dest: skipWs_length unquote_length split: option.splits list.splits if_splits)
qed auto

text \<open>
  Two calls per remaining byte are enough: with that many, or more, the parser gives
  the same answer, so the bound of \<open>Unmarshal\<close> never cuts a document short.
\<close>

lemma parse_bound:
  assumes "length s \<le> k"
  shows "2 * k < n \<Longrightarrow> 2 * k < m \<Longrightarrow> parseValue n d s = parseValue m d s"
    and "2 * k + 1 < n \<Longrightarrow> 2 * k + 1 < m \<Longrightarrow> elements n d s = elements m d s"
    and "2 * k < n \<Longrightarrow> 2 * k < m \<Longrightarrow> members n d s = members m d s"
proof -
  note [simp del] = dropWhile_eq_Nil_conv
  have "\<forall>n m d. (2 * k < n \<and> 2 * k < m \<longrightarrow> parseValue n d s = parseValue m d s) \<and>
      (2 * k + 1 < n \<and> 2 * k + 1 < m \<longrightarrow> elements n d s = elements m d s) \<and> (2 * k < n \<and> 2 * k < m \<longrightarrow> members n d s = members m d s)"
    using assms
  proof (induction k arbitrary: s rule: less_induct)
    case (less k)
    have ih: "2 * length u < n \<Longrightarrow> 2 * length u < m \<Longrightarrow> parseValue n d u = parseValue m d u"
        "2 * length u + 1 < n \<Longrightarrow> 2 * length u + 1 < m \<Longrightarrow> elements n d u = elements m d u"
        "2 * length u < n \<Longrightarrow> 2 * length u < m \<Longrightarrow> members n d u = members m d u" if "length u < k" for u n m d
      using less.IH [OF that order.refl] by blast+
    have p: "parseValue n d s = parseValue m d s" if nm: "2 * k < n" "2 * k < m" for n m d
    proof -
      obtain n' m' where n': "n = Suc n'" "m = Suc m'" using nm by (cases n; cases m) auto
      have inner: "elements n' (Suc d) u = elements m' (Suc d) u" "members n' (Suc d) u = members m' (Suc d) u" if "length u < length s" for u
      proof -
        have u: "length u < k" "2 * length u + 1 < n'" "2 * length u + 1 < m'" using that less.prems nm n' by auto
        show "elements n' (Suc d) u = elements m' (Suc d) u" by (rule ih(2) [OF u])
        show "members n' (Suc d) u = members m' (Suc d) u" by (rule ih(3) [OF u(1)]) (use u in auto)
      qed
      show ?thesis
      proof (cases "skipWs s")
        case (Cons c u)
        then have u: "length u < length s" using skipWs_length [of s] by (metis Suc_le_lessD length_Cons)
        show ?thesis
        proof (cases "skipWs u")
          case Nil
          then show ?thesis by (simp add: n' Cons)
        next
          case (Cons e x)
          have "length (e # x) < length s" using skipWs_length [OF Cons] u by simp
          then show ?thesis using inner [of "e # x"] by (simp add: n' Cons \<open>skipWs s = c # u\<close>)
        qed
      qed (simp add: n')
    qed
    have e: "elements n d s = elements m d s" if nm: "2 * k + 1 < n" "2 * k + 1 < m" for n m d
    proof -
      obtain n' m' where n': "n = Suc n'" "m = Suc m'" using nm by (cases n; cases m) auto
      have pv: "parseValue n' d s = parseValue m' d s" by (rule p) (use nm n' in auto)
      have "elements n' d u = elements m' d u" if "parseValue m' d s = Some (v, t)" "skipWs t = c # u" for v t c u
      proof -
        have "length u < k" using parse_length(1) [OF that(1)] skipWs_length [OF that(2)] less.prems by simp
        then show ?thesis by (rule ih(2)) (use \<open>length u < k\<close> nm n' in auto)
      qed
      then show ?thesis using pv by (auto simp: n' split: option.splits list.splits)
    qed
    have f: "members n d s = members m d s" if nm: "2 * k < n" "2 * k < m" for n m d
    proof -
      obtain n' m' where n': "n = Suc n'" "m = Suc m'" using nm by (cases n; cases m) auto
      have inner: "parseValue n' d w = parseValue m' d w" "members n' d w = members m' d w" if "length w < k" for w
        by (rule ih(1) [OF that] ih(3) [OF that], use that nm n' in auto)+
      have l: "length w < k" if "skipWs s = q # t" "unquote t = Some (key, u)" "skipWs u = e # w" for q t key u e w
        using skipWs_length [OF that(1)] unquote_length [OF that(2)] skipWs_length [OF that(3)] less.prems by simp
      have l': "length y < k" if "length w < k" "parseValue m' d w = Some (v, x)" "skipWs x = g # y" for w v x g y
        using parse_length(1) [OF that(2)] skipWs_length [OF that(3)] that(1) by simp
      show ?thesis using inner l l' by (simp add: n' split: option.splits list.splits) (metis (no_types, lifting))
    qed
    show ?case using p e f by blast
  qed
  then show "2 * k < n \<Longrightarrow> 2 * k < m \<Longrightarrow> parseValue n d s = parseValue m d s"
    and "2 * k + 1 < n \<Longrightarrow> 2 * k + 1 < m \<Longrightarrow> elements n d s = elements m d s"
    and "2 * k < n \<Longrightarrow> 2 * k < m \<Longrightarrow> members n d s = members m d s" by blast+
qed

end
