(* ===== verification/JsonFields.thy ===== *)
theory JsonFields
  imports Json "HOL-Library.AList"
begin

text \<open>
  Decoding a JSON value into a Go value, as \<^verbatim>\<open>json.Unmarshal\<close> does by the type of its
  target.  A decoder takes the value and what the target holds; another kind of value
  is an error, and a null leaves a target alone unless it is a slice or a map.  A struct
  is given by the table of its fields.
\<close>

section \<open>Decoders\<close>

type_synonym 'a decoder = "jval \<Rightarrow> 'a \<Rightarrow> 'a option"

definition intoStr :: "string decoder" where
  "intoStr v cur = (case v of VStr s \<Rightarrow> Some s | VNull \<Rightarrow> Some cur | _ \<Rightarrow> None)"

definition intoBool :: "bool decoder" where
  "intoBool v cur = (case v of VBool b \<Rightarrow> Some b | VNull \<Rightarrow> Some cur | _ \<Rightarrow> None)"

definition intoInt :: "int decoder" where
  "intoInt v cur = (case v of VNum l \<Rightarrow> Atoi l | VNull \<Rightarrow> Some cur | _ \<Rightarrow> None)"

definition intoFloat :: "float64 decoder" where
  "intoFloat v cur = (case v of VNum l \<Rightarrow> map_option Fin (parseFloat l) | VNull \<Rightarrow> Some cur | _ \<Rightarrow> None)"

text \<open>A slice starts over; its elements are decoded into zero values.\<close>

definition intoSlice :: "'a decoder \<Rightarrow> 'a \<Rightarrow> 'a list decoder" where
  "intoSlice dec z v cur = (case v of VArr vs \<Rightarrow> those (map (\<lambda>v. dec v z) vs) | VNull \<Rightarrow> Some [] | _ \<Rightarrow> None)"

text \<open>A map keeps its entries and takes those of the object, the last one for a key.\<close>

fun putAll :: "(bytes \<times> jval) list \<Rightarrow> (string \<times> string) list \<Rightarrow> (string \<times> string) list option" where
  "putAll [] m = Some m"
| "putAll ((k, v) # fs) m = (case intoStr v [] of None \<Rightarrow> None | Some s \<Rightarrow> putAll fs (AList.update k s m))"

definition intoMap :: "(string \<times> string) list decoder" where
  "intoMap v cur = (case v of VObj fs \<Rightarrow> putAll fs cur | VNull \<Rightarrow> Some [] | _ \<Rightarrow> None)"

section \<open>Structs\<close>

text \<open>
  A key selects the field with its name, or else the one whose name it folds to; another
  key is ignored.  Folding maps ASCII letters to upper case, and the long s and the
  Kelvin sign to the letters they stand for.
\<close>

fun foldName :: "bytes \<Rightarrow> bytes" where
  "foldName [] = []"
| "foldName (c # s) =
     (if prefix [CHR 0xC5, CHR 0xBF] (c # s) then CHR ''S'' # foldName (drop 1 s)
      else if prefix [CHR 0xE2, CHR 0x84, CHR 0xAA] (c # s) then CHR ''K'' # foldName (drop 2 s)
      else (if inRange 97 122 c then char_of (byteVal c - 32) else c) # foldName s)"

type_synonym 'r fields = "(string \<times> 'r decoder) list"

definition field :: "('r \<Rightarrow> 'a) \<Rightarrow> (('a \<Rightarrow> 'a) \<Rightarrow> 'r \<Rightarrow> 'r) \<Rightarrow> 'a decoder \<Rightarrow> 'r decoder" where
  "field get upd dec v r = map_option (\<lambda>x. upd (\<lambda>_. x) r) (dec v (get r))"

definition fieldOf :: "'r fields \<Rightarrow> bytes \<Rightarrow> 'r decoder option" where
  "fieldOf tbl k =
     (case map_of tbl k of
        Some f \<Rightarrow> Some f
      | None \<Rightarrow> map_of (map (apfst foldName) tbl) (foldName k))"

fun setFields :: "'r fields \<Rightarrow> (bytes \<times> jval) list \<Rightarrow> 'r \<Rightarrow> 'r option" where
  "setFields tbl [] r = Some r"
| "setFields tbl ((k, v) # fs) r =
     (case fieldOf tbl k of
        None \<Rightarrow> setFields tbl fs r
      | Some f \<Rightarrow> (case f v r of None \<Rightarrow> None | Some r' \<Rightarrow> setFields tbl fs r'))"

definition intoStruct :: "'r fields \<Rightarrow> 'r decoder" where
  "intoStruct tbl v cur = (case v of VObj fs \<Rightarrow> setFields tbl fs cur | VNull \<Rightarrow> Some cur | _ \<Rightarrow> None)"

definition unmarshalInto :: "'r fields \<Rightarrow> 'r \<Rightarrow> bytes \<Rightarrow> 'r option" where
  "unmarshalInto tbl z s = (case Unmarshal s of None \<Rightarrow> None | Some v \<Rightarrow> intoStruct tbl v z)"

section \<open>Reading back\<close>

text \<open>What the encoder writes for a value of each kind, and what the decoder makes of it.\<close>

lemma wrap64_range: "- (2 ^ 63) \<le> wrap64 n \<and> wrap64 n < 2 ^ 63"
  using sint_ge [of "word_of_int n :: int64"] sint_lt [of "word_of_int n :: int64"] by (simp add: wrap64_def)

lemma into_val [simp]:
  "intoStr (VStr s) x = Some s" "intoBool (VBool b) y = Some b" "intoInt (VNum (Itoa (wrap64 n))) z = Some (wrap64 n)"
  "isFloat q \<Longrightarrow> intoFloat (VNum (formatFloat q)) f = Some (Fin q)"
  using wrap64_range [of n] by (simp_all add: intoStr_def intoBool_def intoInt_def intoFloat_def Atoi_Itoa parseFloat_formatFloat)

lemma intoStruct_VObj [simp]: "intoStruct tbl (VObj fs) z = setFields tbl fs z"
  by (simp add: intoStruct_def)

lemma those_Some: "(\<And>x. x \<in> set xs \<Longrightarrow> f x = Some (g x)) \<Longrightarrow> those (map f xs) = Some (map g xs)"
  by (induction xs) auto

lemma intoSlice_val:
  assumes "\<And>x. x \<in> set xs \<Longrightarrow> dec (val (f x)) z = Some (g x)"
  shows "intoSlice dec z (val (if xs = [] then JNull else JArr (map f xs))) cur = Some (map g xs)"
  using those_Some [of xs "\<lambda>x. dec (val (f x)) z" g] assms by (simp add: intoSlice_def comp_def)

lemma putAll_val: "putAll (map (\<lambda>(k, v). (toValid k, VStr (toValid v))) fs) m = Some (fold (\<lambda>(k, v). AList.update (toValid k) (toValid v)) fs m)"
  by (induction fs arbitrary: m) auto

lemma field_Some: "dec v (get r) = Some x \<Longrightarrow> field get upd dec v r = Some (upd (\<lambda>_. x) r)"
  by (simp add: field_def)

lemma toValid_id: "is_ascii s \<Longrightarrow> toValid s = s"
  by (induction s) (auto simp: is_ascii_def toValid_ascii)

lemma nesting_JArr: "(\<And>v. v \<in> set vs \<Longrightarrow> nesting v \<le> n) \<Longrightarrow> nesting (JArr vs) \<le> Suc n"
  by auto

lemma nesting_JObj: "(\<And>k v. (k, v) \<in> set fs \<Longrightarrow> nesting v \<le> n) \<Longrightarrow> nesting (JObj fs) \<le> Suc n"
  by auto

lemma Unmarshal_payload: "nesting p \<le> maxNestingDepth \<Longrightarrow> Unmarshal (Marshal p) = Some (val p)"
  using Unmarshal_Marshal [of p "[]"] by simp

lemma unmarshalInto_Marshal: "nesting p \<le> maxNestingDepth \<Longrightarrow> unmarshalInto tbl z (Marshal p) = intoStruct tbl (val p) z"
  by (simp add: unmarshalInto_def Unmarshal_payload)

end
