(* ===== verification/JobWire.thy ===== *)
theory JobWire
  imports JobBus JsonFields
begin

text \<open>
  The messages of the job bus as bytes: jobs (\<^verbatim>\<open>Job\<close> of \<^verbatim>\<open>internal/queue/queue.go\<close>, with
  the \<^verbatim>\<open>Spec\<close> of \<^verbatim>\<open>internal/executor/executor.go\<close>) and result envelopes, encoded and decoded
  by \<^verbatim>\<open>encoding/json\<close>.  They satisfy the laws of \<open>job_codec\<close>: what a worker decodes is the
  submitted job with its text made valid UTF-8.  The properties of the bus are stated
  here.  An empty slice or map of the model is Go's nil; integers are encoded at their
  width.
\<close>

section \<open>Encoding\<close>

abbreviation jint :: "int \<Rightarrow> json" where "jint n \<equiv> JInt (wrap64 n)"

definition sliceJSON :: "('a \<Rightarrow> json) \<Rightarrow> 'a list \<Rightarrow> json" where
  "sliceJSON f xs = (if xs = [] then JNull else JArr (map f xs))"

definition mapJSON :: "(string \<times> string) list \<Rightarrow> json" where
  "mapJSON m = (if m = [] then JNull else JObj (map (apsnd JStr) (sort_key fst m)))"

definition omitEmpty :: "string \<Rightarrow> string \<Rightarrow> (string \<times> json) list" where
  "omitEmpty name s = (if s = [] then [] else [(name, JStr s)])"

definition langJSON :: "lang_id \<Rightarrow> json" where
  "langJSON l = JObj [(''language'', JStr (l_Name l)), (''version'', JStr (l_Version l))]"

definition fileJSON :: "File \<Rightarrow> json" where
  "fileJSON f = JObj ([(''name'', JStr (f_Name f)), (''content'', JStr (f_Content f))] @ omitEmpty ''encoding'' (f_Encoding f))"

definition mountJSON :: "Mount \<Rightarrow> json" where
  "mountJSON m = JObj [(''HostPath'', JStr (HostPath m)), (''Target'', JStr (Target m)), (''RW'', JBool (RW m))]"

text \<open>The value of a float; an infinity or NaN is the encoder's error, and a rational that no float denotes does not occur.\<close>

definition floatOf :: "float64 \<Rightarrow> rat option" where
  "floatOf x = (case x of Fin q \<Rightarrow> if isFloat q then Some q else None | _ \<Rightarrow> None)"

definition limitsJSON :: "rat \<Rightarrow> Limits \<Rightarrow> json" where
  "limitsJSON q l = JObj [(''memoryBytes'', jint (MemoryBytes l)), (''cpus'', JNum q), (''pids'', jint (Pids l)),
     (''outputBytes'', jint (OutputBytes l)), (''wallTimeMs'', jint (WallTimeMs l)), (''compileTimeMs'', jint (CompileTimeMs l))]"

definition specJSON :: "rat \<Rightarrow> Spec \<Rightarrow> json" where
  "specJSON q s = JObj [(''Lang'', langJSON (Lang s)), (''Image'', JStr (Image s)), (''Compile'', sliceJSON JStr (Compile s)),
     (''Run'', sliceJSON JStr (Run s)), (''Workdir'', JStr (Workdir s)), (''Env'', mapJSON (Env s)), (''ScratchExec'', JBool (ScratchExec s)),
     (''ScratchMB'', jint (ScratchMB s)), (''Mounts'', sliceJSON mountJSON (Mounts s)), (''Files'', sliceJSON fileJSON (Files s)),
     (''Stdin'', JStr (Stdin s)), (''Argv'', sliceJSON JStr (Argv s)), (''Limits'', limitsJSON q (s_Limits s)), (''Network'', JBool (Network s))]"

definition jobJSON :: "rat \<Rightarrow> Job \<Rightarrow> json" where
  "jobJSON q j = JObj [(''id'', JStr (j_ID j)), (''language'', JStr (j_Language j)), (''version'', JStr (j_Version j)), (''spec'', specJSON q (j_Spec j))]"

definition encodeJob :: "Job \<Rightarrow> bytes option" where
  "encodeJob j = map_option (\<lambda>q. Marshal (jobJSON q j)) (floatOf (CPUs (s_Limits (j_Spec j))))"

definition resultJSON :: "Result \<Rightarrow> json" where
  "resultJSON r = JObj ([(''stdout'', JStr (Stdout r)), (''stderr'', JStr (Stderr r)), (''exitCode'', jint (ExitCode r)),
     (''timedOut'', JBool (TimedOut r)), (''oomKilled'', JBool (OOMKilled r)), (''truncated'', JBool (Truncated r)),
     (''durationMs'', jint (DurationMs r))] @ omitEmpty ''compileOutput'' (CompileOutput r) @ [(''network'', JBool (r_Network r))])"

definition encodeEnv :: "resultEnvelope \<Rightarrow> bytes" where
  "encodeEnv e = Marshal (JObj ((''result'', resultJSON (v_Result e)) # omitEmpty ''err'' (v_Err e)))"

section \<open>Decoding\<close>

definition langFields :: "lang_id fields" where
  "langFields = [(''language'', field l_Name l_Name_update intoStr), (''version'', field l_Version l_Version_update intoStr)]"

definition zeroFile :: File where
  "zeroFile = \<lparr>f_Name = [], f_Content = [], f_Encoding = []\<rparr>"

definition fileFields :: "File fields" where
  "fileFields = [(''name'', field f_Name f_Name_update intoStr), (''content'', field f_Content f_Content_update intoStr),
     (''encoding'', field f_Encoding f_Encoding_update intoStr)]"

definition zeroMount :: Mount where
  "zeroMount = \<lparr>HostPath = [], Target = [], RW = False\<rparr>"

definition mountFields :: "Mount fields" where
  "mountFields = [(''HostPath'', field HostPath HostPath_update intoStr), (''Target'', field Target Target_update intoStr),
     (''RW'', field RW RW_update intoBool)]"

definition limitsFields :: "Limits fields" where
  "limitsFields = [(''memoryBytes'', field MemoryBytes MemoryBytes_update intoInt), (''cpus'', field CPUs CPUs_update intoFloat),
     (''pids'', field Pids Pids_update intoInt), (''outputBytes'', field OutputBytes OutputBytes_update intoInt),
     (''wallTimeMs'', field WallTimeMs WallTimeMs_update intoInt), (''compileTimeMs'', field CompileTimeMs CompileTimeMs_update intoInt)]"

definition zeroSpec :: Spec where
  "zeroSpec = \<lparr>Lang = \<lparr>l_Name = [], l_Version = []\<rparr>, Image = [], Compile = [], Run = [], Workdir = [], Env = [], ScratchExec = False,
     ScratchMB = 0, Mounts = [], Files = [], Stdin = [], Argv = [],
     s_Limits = \<lparr>MemoryBytes = 0, CPUs = Fin 0, Pids = 0, OutputBytes = 0, WallTimeMs = 0, CompileTimeMs = 0\<rparr>, Network = False\<rparr>"

definition specFields :: "Spec fields" where
  "specFields = [(''Lang'', field Lang Lang_update (intoStruct langFields)), (''Image'', field Image Image_update intoStr),
     (''Compile'', field Compile Compile_update (intoSlice intoStr [])), (''Run'', field Run Run_update (intoSlice intoStr [])),
     (''Workdir'', field Workdir Workdir_update intoStr), (''Env'', field Env Env_update intoMap),
     (''ScratchExec'', field ScratchExec ScratchExec_update intoBool), (''ScratchMB'', field ScratchMB ScratchMB_update intoInt),
     (''Mounts'', field Mounts Mounts_update (intoSlice (intoStruct mountFields) zeroMount)),
     (''Files'', field Files Files_update (intoSlice (intoStruct fileFields) zeroFile)),
     (''Stdin'', field Stdin Stdin_update intoStr), (''Argv'', field Argv Argv_update (intoSlice intoStr [])),
     (''Limits'', field s_Limits s_Limits_update (intoStruct limitsFields)), (''Network'', field Network Network_update intoBool)]"

definition jobFields :: "Job fields" where
  "jobFields = [(''id'', field j_ID j_ID_update intoStr), (''language'', field j_Language j_Language_update intoStr),
     (''version'', field j_Version j_Version_update intoStr), (''spec'', field j_Spec j_Spec_update (intoStruct specFields))]"

definition decodeJob :: "bytes \<Rightarrow> Job option" where
  "decodeJob p = unmarshalInto jobFields \<lparr>j_ID = [], j_Language = [], j_Version = [], j_Spec = zeroSpec\<rparr> p"

definition resultFields :: "Result fields" where
  "resultFields = [(''stdout'', field Stdout Stdout_update intoStr), (''stderr'', field Stderr Stderr_update intoStr),
     (''exitCode'', field ExitCode ExitCode_update intoInt), (''timedOut'', field TimedOut TimedOut_update intoBool),
     (''oomKilled'', field OOMKilled OOMKilled_update intoBool), (''truncated'', field Truncated Truncated_update intoBool),
     (''durationMs'', field DurationMs DurationMs_update intoInt), (''compileOutput'', field CompileOutput CompileOutput_update intoStr),
     (''network'', field r_Network r_Network_update intoBool)]"

definition envFields :: "resultEnvelope fields" where
  "envFields = [(''result'', field v_Result v_Result_update (intoStruct resultFields)), (''err'', field v_Err v_Err_update intoStr)]"

definition decodeEnv :: "bytes \<Rightarrow> resultEnvelope option" where
  "decodeEnv p = unmarshalInto envFields \<lparr>v_Result = zero_Result, v_Err = []\<rparr> p"

definition jsonWire :: wire where
  "jsonWire = \<lparr>marshalJob = encodeJob, unmarshalJob = decodeJob, marshalEnv = encodeEnv, unmarshalEnv = decodeEnv\<rparr>"

section \<open>Normal forms\<close>

text \<open>What comes back: text as valid UTF-8, integers at their width, the environment in the order of its keys.\<close>

definition validLang :: "lang_id \<Rightarrow> lang_id" where
  "validLang l = \<lparr>l_Name = toValid (l_Name l), l_Version = toValid (l_Version l)\<rparr>"

definition validFile :: "File \<Rightarrow> File" where
  "validFile f = \<lparr>f_Name = toValid (f_Name f), f_Content = toValid (f_Content f), f_Encoding = toValid (f_Encoding f)\<rparr>"

definition validMount :: "Mount \<Rightarrow> Mount" where
  "validMount m = \<lparr>HostPath = toValid (HostPath m), Target = toValid (Target m), RW = RW m\<rparr>"

definition validLimits :: "Limits \<Rightarrow> Limits" where
  "validLimits l = \<lparr>MemoryBytes = wrap64 (MemoryBytes l), CPUs = CPUs l, Pids = wrap64 (Pids l), OutputBytes = wrap64 (OutputBytes l),
     WallTimeMs = wrap64 (WallTimeMs l), CompileTimeMs = wrap64 (CompileTimeMs l)\<rparr>"

definition validEnv :: "(string \<times> string) list \<Rightarrow> (string \<times> string) list" where
  "validEnv m = fold (\<lambda>(k, v). AList.update (toValid k) (toValid v)) (sort_key fst m) []"

definition validSpec :: "Spec \<Rightarrow> Spec" where
  "validSpec s = \<lparr>Lang = validLang (Lang s), Image = toValid (Image s), Compile = map toValid (Compile s), Run = map toValid (Run s),
     Workdir = toValid (Workdir s), Env = validEnv (Env s), ScratchExec = ScratchExec s, ScratchMB = wrap64 (ScratchMB s),
     Mounts = map validMount (Mounts s), Files = map validFile (Files s), Stdin = toValid (Stdin s), Argv = map toValid (Argv s),
     s_Limits = validLimits (s_Limits s), Network = Network s\<rparr>"

definition validJob :: "Job \<Rightarrow> Job" where
  "validJob j = \<lparr>j_ID = toValid (j_ID j), j_Language = toValid (j_Language j), j_Version = toValid (j_Version j), j_Spec = validSpec (j_Spec j)\<rparr>"

definition validResult :: "Result \<Rightarrow> Result" where
  "validResult r = \<lparr>Stdout = toValid (Stdout r), Stderr = toValid (Stderr r), ExitCode = wrap64 (ExitCode r), TimedOut = TimedOut r,
     OOMKilled = OOMKilled r, Truncated = Truncated r, DurationMs = wrap64 (DurationMs r), CompileOutput = toValid (CompileOutput r),
     r_Network = r_Network r\<rparr>"

definition validEnvelope :: "resultEnvelope \<Rightarrow> resultEnvelope" where
  "validEnvelope e = \<lparr>v_Result = validResult (v_Result e), v_Err = toValid (v_Err e)\<rparr>"

section \<open>Round trips\<close>

lemma valid_names [simp]:
  "toValid ''id'' = ''id''" "toValid ''language'' = ''language''" "toValid ''version'' = ''version''" "toValid ''spec'' = ''spec''"
  "toValid ''name'' = ''name''" "toValid ''content'' = ''content''" "toValid ''encoding'' = ''encoding''"
  "toValid ''HostPath'' = ''HostPath''" "toValid ''Target'' = ''Target''" "toValid ''RW'' = ''RW''"
  "toValid ''memoryBytes'' = ''memoryBytes''" "toValid ''cpus'' = ''cpus''" "toValid ''pids'' = ''pids''" "toValid ''outputBytes'' = ''outputBytes''"
  "toValid ''wallTimeMs'' = ''wallTimeMs''" "toValid ''compileTimeMs'' = ''compileTimeMs''"
  "toValid ''Lang'' = ''Lang''" "toValid ''Image'' = ''Image''" "toValid ''Compile'' = ''Compile''" "toValid ''Run'' = ''Run''"
  "toValid ''Workdir'' = ''Workdir''" "toValid ''Env'' = ''Env''" "toValid ''ScratchExec'' = ''ScratchExec''" "toValid ''ScratchMB'' = ''ScratchMB''"
  "toValid ''Mounts'' = ''Mounts''" "toValid ''Files'' = ''Files''" "toValid ''Stdin'' = ''Stdin''" "toValid ''Argv'' = ''Argv''"
  "toValid ''Limits'' = ''Limits''" "toValid ''Network'' = ''Network''"
  "toValid ''stdout'' = ''stdout''" "toValid ''stderr'' = ''stderr''" "toValid ''exitCode'' = ''exitCode''" "toValid ''timedOut'' = ''timedOut''"
  "toValid ''oomKilled'' = ''oomKilled''" "toValid ''truncated'' = ''truncated''" "toValid ''durationMs'' = ''durationMs''"
  "toValid ''compileOutput'' = ''compileOutput''" "toValid ''network'' = ''network''" "toValid ''result'' = ''result''" "toValid ''err'' = ''err''"
  by (simp_all add: toValid_id is_ascii_def)

lemma lang_val: "intoStruct langFields (val (langJSON l)) z = Some (validLang l)"
  by (simp add: langJSON_def langFields_def fieldOf_def field_def validLang_def)

lemma file_val: "intoStruct fileFields (val (fileJSON f)) zeroFile = Some (validFile f)"
  by (simp add: fileJSON_def fileFields_def fieldOf_def field_def validFile_def zeroFile_def omitEmpty_def)

lemma mount_val: "intoStruct mountFields (val (mountJSON m)) zeroMount = Some (validMount m)"
  by (simp add: mountJSON_def mountFields_def fieldOf_def field_def validMount_def zeroMount_def)

lemma limits_val: "floatOf (CPUs l) = Some q \<Longrightarrow> intoStruct limitsFields (val (limitsJSON q l)) z = Some (validLimits l)"
  by (auto simp: limitsJSON_def limitsFields_def fieldOf_def field_def validLimits_def floatOf_def split: float64.splits if_splits)

lemma slice_val:
  "(\<And>x. dec (val (f x)) z = Some (g x)) \<Longrightarrow> intoSlice dec z (val (sliceJSON f xs)) cur = Some (map g xs)"
  unfolding sliceJSON_def by (rule intoSlice_val)

lemma str_slice: "intoSlice intoStr [] (val (sliceJSON JStr xs)) cur = Some (map toValid xs)"
  by (rule slice_val) simp

lemma mount_slice: "intoSlice (intoStruct mountFields) zeroMount (val (sliceJSON mountJSON xs)) cur = Some (map validMount xs)"
  by (rule slice_val) (rule mount_val)

lemma file_slice: "intoSlice (intoStruct fileFields) zeroFile (val (sliceJSON fileJSON xs)) cur = Some (map validFile xs)"
  by (rule slice_val) (rule file_val)

lemma map_val: "intoMap (val (mapJSON m)) [] = Some (validEnv m)"
  using putAll_val [of "sort_key fst m" "[]"] by (simp add: intoMap_def mapJSON_def validEnv_def comp_def case_prod_unfold)

lemma spec_val:
  assumes "floatOf (CPUs (s_Limits s)) = Some q"
  shows "intoStruct specFields (val (specJSON q s)) zeroSpec = Some (validSpec s)"
  by (simp add: specJSON_def specFields_def fieldOf_def field_def validSpec_def zeroSpec_def
      lang_val str_slice mount_slice file_slice map_val limits_val [OF assms])

lemma result_val: "intoStruct resultFields (val (resultJSON r)) zero_Result = Some (validResult r)"
  by (simp add: resultJSON_def resultFields_def fieldOf_def field_def validResult_def zero_Result_def omitEmpty_def)

lemma nesting_slice: "(\<And>x. nesting (f x) \<le> n) \<Longrightarrow> nesting (sliceJSON f xs) \<le> Suc n"
  unfolding sliceJSON_def by (cases xs) (auto intro!: nesting_JArr simp del: nesting.simps(1))

lemma nesting_job: "nesting (jobJSON q j) \<le> 4"
proof -
  have "nesting (langJSON l) \<le> 2" "nesting (limitsJSON q m) \<le> 2" "nesting (mapJSON e) \<le> 2" for l m e
    by (auto simp: langJSON_def limitsJSON_def mapJSON_def)
  moreover have "nesting (sliceJSON JStr xs) \<le> 2" for xs by (rule order_trans [OF nesting_slice [of _ 0]]) auto
  moreover have "nesting (sliceJSON mountJSON xs) \<le> 2" "nesting (sliceJSON fileJSON ys) \<le> 2" for xs ys
    by (rule order_trans [OF nesting_slice [of _ 1]], auto simp: mountJSON_def fileJSON_def omitEmpty_def)+
  ultimately have "nesting (specJSON q s) \<le> 3" for s by (simp add: specJSON_def)
  then show ?thesis by (simp add: jobJSON_def)
qed

lemma job_val: "floatOf (CPUs (s_Limits (j_Spec j))) = Some q \<Longrightarrow> decodeJob (Marshal (jobJSON q j)) = Some (validJob j)"
  using nesting_job [of q j]
  by (simp add: decodeJob_def unmarshalInto_Marshal maxNestingDepth_def)
    (simp add: jobJSON_def jobFields_def fieldOf_def field_def validJob_def spec_val)

lemma env_val: "decodeEnv (encodeEnv e) = Some (validEnvelope e)"
proof -
  let ?p = "JObj ((''result'', resultJSON (v_Result e)) # omitEmpty ''err'' (v_Err e))"
  have "nesting ?p \<le> maxNestingDepth" by (auto simp: resultJSON_def omitEmpty_def maxNestingDepth_def)
  then have "decodeEnv (encodeEnv e) = intoStruct envFields (val ?p) \<lparr>v_Result = zero_Result, v_Err = []\<rparr>"
    unfolding decodeEnv_def encodeEnv_def by (rule unmarshalInto_Marshal)
  also have "\<dots> = Some (validEnvelope e)"
    by (simp add: envFields_def fieldOf_def field_def validEnvelope_def result_val omitEmpty_def)
  finally show ?thesis .
qed

interpretation json: job_codec jsonWire validJob validEnvelope
  by unfold_locales (auto simp: jsonWire_def encodeJob_def job_val env_val validJob_def toValid_id)

interpretation json_jobs: job_broker mem_broker jsonWire "\<lambda>b. set (mb_msgs b)" mb_used mb_res validJob validEnvelope
  by unfold_locales

section \<open>An example\<close>

definition demo_valkey :: ValkeyConfig where
  "demo_valkey = \<lparr>vc_Addr = ''127.0.0.1:6379'', vc_Password = [], vc_TLS = True, vc_SkipVerify = True\<rparr>"

definition demo_job :: "string \<Rightarrow> Job" where
  "demo_job i = \<lparr>j_ID = i, j_Language = ''py'', j_Version = [],
     j_Spec = zeroSpec\<lparr>Image := ''img'', Run := [''python''], Files := [\<lparr>f_Name = ''m.py'', f_Content = ''print(1)'', f_Encoding = []\<rparr>]\<rparr>\<rparr>"

definition demo_bus :: mem_bus where "demo_bus = \<lparr>mb_next = 0, mb_msgs = [], mb_res = (\<lambda>_. [])\<rparr>"

lemma isFloat_0: "isFloat 0"
proof -
  have "[0..<1075] = 0 # [Suc 0..<1075]" by (rule upt_conv_Cons) simp
  moreover have "(0 :: rat) < floatLimit" by (simp add: floatLimit_def)
  ultimately show ?thesis by (simp add: isFloat_def decimals_def del: upt.simps upt_Suc upt_rec_numeral)
qed

lemma encodeJob_demo: "\<exists>p. encodeJob (demo_job i) = Some p"
  by (simp add: encodeJob_def demo_job_def zeroSpec_def floatOf_def isFloat_0)

section \<open>Properties\<close>

text \<open>
  C11: The job bus delivers each submitter results of its own job.  Whatever the order
  in which processes submit, read, claim, crash, run, publish and pop, and whatever
  results expire, an answer a submitter reads under an id is the envelope of a run of
  a job that was submitted under this id, with its text made valid UTF-8; and no
  submitted job is lost: it has been run, or its message is still unacknowledged and
  so will be claimed again.
\<close>
theorem job_bus_delivery:
  assumes "redis_broker R msgs used res" and "bus_reach R jsonWire b0 w" and "msgs b0 = {}" and "res b0 = (\<lambda>_. [])"
  shows "((jid, a) \<in> answers w \<longrightarrow>
      (\<exists>j \<in> submitted w. \<exists>r. j_ID j = jid \<and> (validJob j, r) \<in> runs w \<and> a = delivered (validEnvelope (process r)))) \<and>
    (j \<in> submitted w \<longrightarrow> (\<exists>r. (validJob j, r) \<in> runs w) \<or> (\<exists>m \<in> msgs (bus w). encodeJob j = Some (snd m)))"
proof -
  have B: "job_broker R jsonWire msgs used res validJob validEnvelope" by (rule job_broker.intro [OF assms(1) json.job_codec_axioms])
  note D = job_broker.bus_invD [OF B job_broker.bus_reach_inv [OF B assms(2-4)]]
  have "\<exists>j \<in> submitted w. \<exists>r. j_ID j = jid \<and> (validJob j, r) \<in> runs w \<and> a = delivered (validEnvelope (process r))" if ans: "(jid, a) \<in> answers w"
  proof -
    obtain j' r where r: "(j', r) \<in> runs w" "j_ID j' = jid" "a = delivered (validEnvelope (process r))" using D(5) [OF ans] by blast
    then obtain j where j: "j \<in> submitted w" "j' = validJob j" using D(3) by force
    show ?thesis using r j json.job_id [OF submitted_ascii [OF assms(2) j(1)]] by (intro bexI [of _ j] exI [of _ r]) auto
  qed
  moreover have "(\<exists>r. (validJob j, r) \<in> runs w) \<or> (\<exists>m \<in> msgs (bus w). encodeJob j = Some (snd m))" if "j \<in> submitted w"
    using D(6) [OF that] by (force simp: jsonWire_def)
  ultimately show ?thesis by blast
qed

text \<open>
  C27: Waiting for a result ends.  A submitter polls its result list at most sixty
  times, whatever the broker answers and whatever deadline the request has; when no
  result comes and the request is not cancelled, it returns the timeout error.
\<close>
theorem submit_terminates:
  assumes "NewValkey ping uuid cfg = Some v"
  shows "snd (awaitResult v W jid ctx pops) \<le> 60 \<and>
    ((\<forall>n. \<exists>late. pops n = PopNil late False) \<longrightarrow> fst (awaitResult v W jid ctx pops) = (zero_Result, Some (ResultTimeout jid)))"
proof -
  have v: "v_resultTTL v = 60 * seconds" using assms by (auto simp: NewValkey_def valkeyResultTTL_def Let_def split: if_splits)
  have "waitTime v ctx \<le> 60 * seconds" by (auto simp: waitTime_def v split: option.splits)
  then have "(waitTime v ctx + seconds - 1) div seconds \<le> 60" by (simp add: seconds_def)
  then have "snd (awaitResult v W jid ctx pops) \<le> 60"
    using waitLoop_polls [of W jid pops 0 "waitTime v ctx"] by (simp add: awaitResult_def)
  moreover have "fst (waitLoop W jid pops n remain) = (zero_Result, Some (ResultTimeout jid))" if "\<forall>n. \<exists>late. pops n = PopNil late False" for n remain
    using that
  proof (induction W jid pops n remain rule: waitLoop.induct)
    case (1 W jid pops n remain)
    obtain late where p: "pops n = PopNil late False" using "1.prems" by blast
    show ?case using "1.IH" [OF _ refl p] "1.prems" p by (subst waitLoop.simps) (auto simp: Let_def)
  qed
  ultimately show ?thesis by (simp add: awaitResult_def)
qed

theorem submit_terminates_witness:
  "\<exists>v. NewValkey (\<lambda>_. True) ''0123456789'' demo_valkey = Some v \<and>
     fst (awaitResult v jsonWire ''j'' None (\<lambda>_. PopNil 0 False)) = (zero_Result, Some (ResultTimeout ''j''))"
proof -
  obtain v where v: "NewValkey (\<lambda>_. True) ''0123456789'' demo_valkey = Some v" by (simp add: NewValkey_def Let_def)
  then show ?thesis using submit_terminates [OF v, of jsonWire "''j''" None "\<lambda>_. PopNil 0 False"] by auto
qed

text \<open>A job is submitted, read, run and answered.\<close>

theorem job_bus_delivery_witness:
  "\<exists>w a. bus_reach mem_broker jsonWire demo_bus w \<and> (''a'', a) \<in> answers w \<and>
     (\<exists>j \<in> submitted w. \<exists>r. j_ID j = ''a'' \<and> (validJob j, r) \<in> runs w \<and> a = delivered (validEnvelope (process r)))"
proof -
  let ?run = "\<lambda>_ :: Spec. (zero_Result, None)" and ?j = "demo_job ''a''" and ?R = "bus_reach mem_broker jsonWire demo_bus"
  obtain p where p: "encodeJob ?j = Some p" using encodeJob_demo by blast
  have u: "unmarshalJob jsonWire p = Some (validJob ?j)" using json.job_roundtrip [of ?j p] p by (simp add: jsonWire_def)
  have id: "j_ID (validJob ?j) = ''a''" using json.job_id [of ?j] by (simp add: demo_job_def is_ascii_def)
  let ?m = "(mb_id 0, p)"
  define b where "b = demo_bus\<lparr>mb_next := 1, mb_msgs := [?m]\<rparr>"
  let ?w0 = "\<lparr>bus = demo_bus, submitted = {}, fetched = {}, runs = {}, answers = {}\<rparr>"
  have "enqueue mem_broker jsonWire ''u'' ?j (bus ?w0) = (None, b)"
    using p by (simp add: enqueue_def withID_def demo_job_def jsonWire_def mem_broker_def b_def demo_bus_def)
  moreover have "is_ascii (j_ID (withID ''u'' ?j))" by (simp add: withID_def demo_job_def is_ascii_def)
  ultimately obtain w1 where w1: "?R w1" "bus w1 = b" using b_next [OF b_start b_submit] by fastforce
  have "XReadGroup mem_broker (bus w1) = ([?m], b)" by (simp add: w1 b_def mem_broker_def)
  from b_next [OF w1(1) b_read [OF this]] obtain w2 where w2: "?R w2" "bus w2 = b" "?m \<in> fetched w2" by fastforce
  from b_next [OF w2(1) b_process [OF w2(3)], of ?run]
  obtain w3 where w3: "?R w3" "bus w3 = processMsg mem_broker jsonWire ?run ?m b" unfolding w2(2) by fastforce
  have "mb_res (bus w3) (resKey ''a'') \<noteq> []" unfolding w3 using u id by (simp add: processMsg_def publish_def mem_broker_def)
  then obtain q b' where "BLPop mem_broker (resKey ''a'') (bus w3) = (Some q, b')"
    by (cases "mb_res (bus w3) (resKey ''a'')") (auto simp: mem_broker_def)
  from b_next [OF w3(1) b_pop [OF this]] obtain w4 where w4: "?R w4" "(''a'', openResult jsonWire q) \<in> answers w4" by fastforce
  from job_bus_delivery [OF mem_redis.redis_broker_axioms w4(1), of "''a''" "openResult jsonWire q"]
  have "\<exists>j \<in> submitted w4. \<exists>r. j_ID j = ''a'' \<and> (validJob j, r) \<in> runs w4 \<and> openResult jsonWire q = delivered (validEnvelope (process r))"
    using w4(2) by (simp add: demo_bus_def)
  then show ?thesis using w4 by blast
qed

end
