(* ===== verification/Reaper.thy ===== *)
theory Reaper
  imports WarmPool Kernel
begin

text \<open>
  The orphan reaper of \<^verbatim>\<open>internal/reaper/reaper.go\<close>: the periodic sweep that removes
  exited sandbox containers by their label.  The docker command line is a parameter,
  an argument vector to an output and a new state; the locale \<open>docker_cli\<close> states what
  its documentation promises of the two commands the sweep issues.
\<close>

section \<open>The sweep\<close>

definition label :: string where "label = ''isobox.managed=true''"

type_synonym 'd docker = "string list \<Rightarrow> 'd \<Rightarrow> bytes option \<times> 'd"

definition psArgs :: "string list" where
  "psArgs = [''ps'', ''-aq'', ''--filter'', ''label='' @ label, ''--filter'', ''status=exited'']"

definition sweep :: "'d docker \<Rightarrow> 'd \<Rightarrow> 'd" where
  "sweep D d =
     (case D psArgs d of
        (None, d1) \<Rightarrow> d1
      | (Some out, d1) \<Rightarrow>
          (let ids = FieldsFunc out is_space in
           if ids = [] then d1 else snd (D (''rm'' # ''-f'' # ids) d1)))"

text \<open>The loop of \<open>Run\<close> over what its select receives: the end of the context, or a tick in a state other actors left.\<close>

datatype 'd wake = CtxDone | Ticked "'d \<Rightarrow> 'd"

definition interval :: "int \<Rightarrow> int" where
  "interval n = (if n \<le> 0 then 60 * seconds else n)"

fun Run :: "'d docker \<Rightarrow> 'd wake list \<Rightarrow> 'd \<Rightarrow> 'd" where
  "Run D [] d = d"
| "Run D (CtxDone # ws) d = d"
| "Run D (Ticked others # ws) d = Run D ws (sweep D (others d))"

section \<open>Docker\<close>

datatype cstatus = Created | Running | Paused | Restarting | Exited | Dead

record container =
  c_labels :: "string set"
  c_status :: cstatus

definition orphan :: "container \<Rightarrow> bool" where
  "orphan c \<longleftrightarrow> label \<in> c_labels c \<and> c_status c = Exited"

text \<open>
  \<open>conts\<close> are the containers by id, a non-empty word.  Listing prints the ids of the
  containers that match, a line each, and changes nothing; removing by force removes
  the named ones when it succeeds, and no other one ever.
\<close>

locale docker_cli =
  fixes D :: "'d docker" and conts :: "'d \<Rightarrow> string \<rightharpoonup> container"
  assumes ids: "conts d i = Some c \<Longrightarrow> i \<noteq> [] \<and> list_all (\<lambda>x. \<not> is_space x) i"
    and ps_keeps: "conts (snd (D psArgs d)) = conts d"
    and ps_lists: "fst (D psArgs d) = Some out \<Longrightarrow>
      \<exists>is. set is = {i. \<exists>c. conts d i = Some c \<and> orphan c} \<and> out = concat (map (\<lambda>i. i @ [CHR 0x0A]) is)"
    and rm_names: "conts (snd (D (''rm'' # ''-f'' # is) d)) i \<in> (if i \<in> set is then {None, conts d i} else {conts d i})"
    and rm_removes: "fst (D (''rm'' # ''-f'' # is) d) \<noteq> None \<Longrightarrow> i \<in> set is \<Longrightarrow> conts (snd (D (''rm'' # ''-f'' # is) d)) i = None"

lemma fields_lines:
  assumes "\<forall>i \<in> set is. i \<noteq> [] \<and> list_all (\<lambda>x. \<not> is_space x) i"
  shows "FieldsFunc (concat (map (\<lambda>i. i @ [CHR 0x0A]) is)) is_space = is"
proof -
  have word: "list_all (\<lambda>x. \<not> is_space x) i \<Longrightarrow> fields_by is_space w (i @ t) = fields_by is_space (w @ i) t" for w i t
    by (induction i arbitrary: w) auto
  have nl: "is_space (CHR 0x0A)" by (simp add: is_space_def)
  show ?thesis using assms by (induction "is") (auto simp: FieldsFunc_def word nl)
qed

context docker_cli
begin

lemma sweep_keeps: "\<not> (\<exists>c. conts d i = Some c \<and> orphan c) \<Longrightarrow> conts (sweep D d) i = conts d i"
proof -
  assume i: "\<not> (\<exists>c. conts d i = Some c \<and> orphan c)"
  obtain o' d1 where p: "D psArgs d = (o', d1)" by force
  have d1: "conts d1 = conts d" using ps_keeps [of d] p by simp
  show ?thesis
  proof (cases o')
    case (Some out)
    then obtain "is" where is': "set is = {i. \<exists>c. conts d i = Some c \<and> orphan c}" "out = concat (map (\<lambda>i. i @ [CHR 0x0A]) is)"
      using ps_lists [of d out] p by auto
    have "FieldsFunc out is_space = is" unfolding is'(2) by (rule fields_lines) (use is'(1) ids in blast)
    then show ?thesis using p Some d1 rm_names [of "is" d1 i] i is'(1) by (auto simp: sweep_def Let_def)
  qed (use p d1 in \<open>simp add: sweep_def\<close>)
qed

lemma sweep_removes:
  assumes "conts d i = Some c" and "orphan c" and "fst (D psArgs d) \<noteq> None" and "\<And>is d. fst (D (''rm'' # ''-f'' # is) d) \<noteq> None"
  shows "conts (sweep D d) i = None"
proof -
  obtain out d1 where p: "D psArgs d = (Some out, d1)" using assms(3) by (cases "D psArgs d") auto
  obtain "is" where is': "set is = {i. \<exists>c. conts d i = Some c \<and> orphan c}" "out = concat (map (\<lambda>i. i @ [CHR 0x0A]) is)"
    using ps_lists [of d out] p by auto
  have "FieldsFunc out is_space = is" unfolding is'(2) by (rule fields_lines) (use is'(1) ids in blast)
  moreover have "i \<in> set is" using is'(1) assms(1,2) by blast
  ultimately show ?thesis using p rm_removes [OF assms(4), of i "is" d1] by (auto simp: sweep_def Let_def)
qed

end

section \<open>A docker in memory\<close>

type_synonym mem_docker = "(string \<times> container) list"

definition word :: "string \<Rightarrow> bool" where "word i \<longleftrightarrow> i \<noteq> [] \<and> list_all (\<lambda>x. \<not> is_space x) i"

definition mem_conts :: "mem_docker \<Rightarrow> string \<rightharpoonup> container" where
  "mem_conts d i = (if word i then map_of d i else None)"

definition mem_orphans :: "mem_docker \<Rightarrow> string list" where
  "mem_orphans d = filter (\<lambda>i. case mem_conts d i of Some c \<Rightarrow> orphan c | None \<Rightarrow> False) (map fst d)"

definition mem_run :: "mem_docker docker" where
  "mem_run a d =
     (if a = psArgs then (Some (concat (map (\<lambda>i. i @ [CHR 0x0A]) (mem_orphans d))), d)
      else if take 2 a = [''rm'', ''-f''] then (Some [], filter (\<lambda>p. fst p \<notin> set (drop 2 a)) d)
      else (None, d))"

lemma mem_conts_filter: "mem_conts (filter (\<lambda>p. fst p \<notin> X) d) i = (if i \<in> X then None else mem_conts d i)"
  by (induction d) (auto simp: mem_conts_def)

lemma mem_run_rm: "mem_run (''rm'' # ''-f'' # is) d = (Some [], filter (\<lambda>p. fst p \<notin> set is) d)"
  by (simp add: mem_run_def psArgs_def)

interpretation memd: docker_cli mem_run mem_conts
proof unfold_locales
  fix d :: mem_docker and i c out
  show "mem_conts d i = Some c \<Longrightarrow> i \<noteq> [] \<and> list_all (\<lambda>x. \<not> is_space x) i" by (simp add: mem_conts_def word_def split: if_splits)
  assume "fst (mem_run psArgs d) = Some out"
  moreover have "set (mem_orphans d) = {i. \<exists>c. mem_conts d i = Some c \<and> orphan c}"
    by (force simp: mem_orphans_def mem_conts_def split: option.splits if_splits dest: map_of_SomeD)
  ultimately show "\<exists>is. set is = {i. \<exists>c. mem_conts d i = Some c \<and> orphan c} \<and> out = concat (map (\<lambda>i. i @ [CHR 0x0A]) is)"
    by (intro exI [of _ "mem_orphans d"]) (simp add: mem_run_def)
qed (simp_all add: mem_run_rm mem_conts_filter, simp add: mem_run_def)

section \<open>Properties\<close>

text \<open>
  C32: The reaper removes orphaned sandboxes and nothing else.  A sweep leaves every
  container that lacks the label or has not exited as it is, and when docker answers
  it removes all the others; and every container this program starts, whether for one
  execution, for the warm pool or for a kernel session, carries the label among the
  options before its image.
\<close>
theorem reaper_exact:
  assumes "docker_cli D conts"
  shows "(\<forall>c. conts d i = Some c \<and> orphan c \<and> fst (D psArgs d) \<noteq> None \<and> (\<forall>is d. fst (D (''rm'' # ''-f'' # is) d) \<noteq> None) \<longrightarrow>
      conts (sweep D d) i = None) \<and>
    ((\<nexists>c. conts d i = Some c \<and> orphan c) \<longrightarrow> conts (sweep D d) i = conts d i) \<and>
    (\<exists>pre post rest. runArgv e g name jobDir s = pre @ [''--label'', label] @ post @ [Image s] @ rest) \<and>
    (\<exists>pre post rest. bootArgs p name = pre @ [''--label'', label] @ post @ [wp_image p] @ rest) \<and>
    (\<exists>pre post. buildKernelRunArgs stat k name sid img mounts net = pre @ [''--label'', label] @ post @ [img])"
proof (intro conjI)
  show "\<forall>c. conts d i = Some c \<and> orphan c \<and> fst (D psArgs d) \<noteq> None \<and> (\<forall>is d. fst (D (''rm'' # ''-f'' # is) d) \<noteq> None) \<longrightarrow>
      conts (sweep D d) i = None"
    using docker_cli.sweep_removes [OF assms] by blast
  show "(\<nexists>c. conts d i = Some c \<and> orphan c) \<longrightarrow> conts (sweep D d) i = conts d i"
    using docker_cli.sweep_keeps [OF assms] by blast
  obtain pre where h: "hardFlags g jobDir s = pre @ [''--label'', label]" by (simp add: hardFlags_def Let_def label_def)
  show "\<exists>pre post rest. runArgv e g name jobDir s = pre @ [''--label'', label] @ post @ [Image s] @ rest"
  proof -
    have "runArgv e g name jobDir s = (''run'' # [''--name'', name] @ netFlags (e_stat1 e) (e_stat2 e) g s @ pre) @ [''--label'', label] @
        (concat (map mountArg (Mounts s)) @ concat (map (\<lambda>(k, v). [''--env'', k @ ''='' @ v]) (e_ord e (envOf s)))) @ [Image s] @
        ([''sh'', ''-c'', launchScript s, ''iso''] @ Argv s)"
      by (simp add: runArgv_def buildRunArgs_def h)
    then show ?thesis by blast
  qed
  have "bootArgs p name = take 23 (bootArgs p name) @ [''--label'', label] @ [''--label'', ''isobox.warm=true'', ''--env'', ''HOME=/tmp''] @
      [wp_image p] @ [''sleep'', ''infinity'']"
    by (simp add: bootArgs_def label_def)
  then show "\<exists>pre post rest. bootArgs p name = pre @ [''--label'', label] @ post @ [wp_image p] @ rest" by blast
  obtain rt nf rm where n: "kernelNet stat (gv k) net = (rt, nf, rm)" by (cases "kernelNet stat (gv k) net")
  let ?a = "buildKernelRunArgs stat k name sid img mounts net"
  have "?a = take 25 ?a @ [''--label'', label] @ (drop 27 (butlast ?a)) @ [img]"
    by (simp add: buildKernelRunArgs_def n Let_def label_def butlast_append)
  then show "\<exists>pre post. ?a = pre @ [''--label'', label] @ post @ [img]" by blast
qed

theorem reaper_exact_witness:
  "mem_conts (sweep mem_run [(''a'', \<lparr>c_labels = {label}, c_status = Exited\<rparr>)]) ''a'' = None \<and>
   mem_conts (sweep mem_run [(''b'', \<lparr>c_labels = {label}, c_status = Running\<rparr>)]) ''b'' = Some \<lparr>c_labels = {label}, c_status = Running\<rparr>"
proof
  let ?d = "[(''a'', \<lparr>c_labels = {label}, c_status = Exited\<rparr>)]"
  have "mem_conts ?d ''a'' = Some \<lparr>c_labels = {label}, c_status = Exited\<rparr>" by (simp add: mem_conts_def word_def is_space_def)
  moreover have "fst (mem_run psArgs ?d) \<noteq> None" "\<forall>is d. fst (mem_run (''rm'' # ''-f'' # is) d) \<noteq> None"
    by (simp_all add: mem_run_rm, simp add: mem_run_def)
  ultimately show "mem_conts (sweep mem_run ?d) ''a'' = None"
    using reaper_exact [OF memd.docker_cli_axioms, THEN conjunct1, of ?d "''a''"] by (simp add: orphan_def)
  let ?e = "[(''b'', \<lparr>c_labels = {label}, c_status = Running\<rparr>)]"
  have "mem_conts ?e ''b'' = Some \<lparr>c_labels = {label}, c_status = Running\<rparr>" by (simp add: mem_conts_def word_def is_space_def)
  then show "mem_conts (sweep mem_run ?e) ''b'' = Some \<lparr>c_labels = {label}, c_status = Running\<rparr>"
    using reaper_exact [OF memd.docker_cli_axioms, THEN conjunct2, THEN conjunct1, of ?e "''b''"] by (simp add: orphan_def)
qed

text \<open>
  An exited container is not always an orphan: between the exit of a sandbox and the
  inspection by the executor the sweep may remove it.  The inspection then fails and
  the result says that the sandbox was not killed for memory, whatever happened.
\<close>
lemma reaped_before_inspect: "\<not> OOMKilled res0 \<Longrightarrow> \<not> OOMKilled (finishResult (e\<lparr>e_inspect := None\<rparr>) sink s res0)"
  by (auto simp: finishResult_def inspectState_def Let_def split: option.splits)

end
