(* ===== verification/Daemon.thy ===== *)
theory Daemon
  imports RouterProps JobWire Reaper
begin

text \<open>
  The daemon of \<^verbatim>\<open>cmd/isoboxd/main.go\<close>: the environment helpers, the construction of
  the server from the configuration, the maintenance tick that drives the sweeps of
  all stateful components, and the shutdown.  What the host answers at start-up is
  the record \<open>boot\<close>.  \<open>None\<close> as the result of \<open>start\<close> is an exit with an error.
\<close>

section \<open>The environment\<close>

type_synonym environ = "string \<rightharpoonup> string"

definition Getenv :: "environ \<Rightarrow> string \<Rightarrow> string" where
  "Getenv N k = (case N k of None \<Rightarrow> [] | Some v \<Rightarrow> v)"

definition env :: "environ \<Rightarrow> string \<Rightarrow> string \<Rightarrow> string" where
  "env N k d = (let v = Getenv N k in if v \<noteq> [] then v else d)"

definition envBool :: "environ \<Rightarrow> string \<Rightarrow> bool \<Rightarrow> bool" where
  "envBool N k d =
     (let v = Getenv N k in
      if v \<in> set [''1'', ''true'', ''yes'', ''on''] then True
      else if v \<in> set [''0'', ''false'', ''no'', ''off''] then False else d)"

definition envInt :: "environ \<Rightarrow> string \<Rightarrow> int \<Rightarrow> int" where
  "envInt N k d =
     (let v = Getenv N k in
      if v \<noteq> [] then (case Atoi v of Some n \<Rightarrow> n | None \<Rightarrow> d) else d)"

fun existing :: "(string \<Rightarrow> bool) \<Rightarrow> string list \<Rightarrow> string option" where
  "existing stat [] = None"
| "existing stat (p # ps) = (if p \<noteq> [] \<and> stat p then Some p else existing stat ps)"

definition firstExisting :: "(string \<Rightarrow> bool) \<Rightarrow> string list \<Rightarrow> string" where
  "firstExisting stat ps = (case existing stat ps of Some p \<Rightarrow> p | None \<Rightarrow> if ps = [] then [] else last ps)"

text \<open>\<open>int64(n) << k\<close> and \<open>time.Duration(n) * unit\<close>.\<close>

definition shl :: "int \<Rightarrow> nat \<Rightarrow> int" where "shl n k = wrap64 (n * 2 ^ k)"
definition dur :: "int \<Rightarrow> int \<Rightarrow> int" where "dur n u = wrap64 (n * u)"

section \<open>Construction\<close>

record 'tx boot =
  bt_env :: environ
  bt_stat :: "string \<Rightarrow> bool"
  bt_readFile :: "string \<Rightarrow> bytes option"
  bt_yaml :: "bytes \<Rightarrow> Language list option"
  bt_uni :: "bytes \<Rightarrow> bytes"
  bt_parseFloat :: "string \<Rightarrow> float64"
  bt_sha :: "bytes \<Rightarrow> bytes"
  bt_warmBoots :: "string option list"
  bt_sessMkdir :: bool
  bt_sessEntries :: "string list option"
  bt_kernelPs :: "bytes option"
  bt_vol :: vol_env
  bt_volMkdir :: bool
  bt_volRoot :: vroot
  bt_kvMkdir :: bool
  bt_kvFiles :: "string \<rightharpoonup> 'tx"
  bt_ping :: "redisOptions \<Rightarrow> bool"
  bt_uuid :: string

record ('tx, 's, 'l) daemon =
  d_gv :: Gvisor
  d_keys :: KeyStore
  d_requireAuth :: bool
  d_memoryRequireKey :: bool
  d_backend :: "('tx, 's) backend"
  d_driver :: driver
  d_valkey :: "valkeyDriver option"
  d_acquireWait :: int
  d_limiter :: "'l ipLimiter"
  d_routes :: "route list"
  d_regPath :: string
  d_addr :: string
  d_level :: level

definition configNetwork :: "environ \<Rightarrow> Gvisor \<Rightarrow> Gvisor" where
  "configNetwork N g0 =
     (let v = Getenv N ''ISOBOX_ALLOW_NETWORK'';
          g1 = (if v = ''0'' \<or> v = ''false'' then g0\<lparr>AllowNetwork := False\<rparr> else g0);
          w = Getenv N ''ISOBOX_EGRESS_NETWORK'';
          g2 = (if w \<noteq> [] then g1\<lparr>EgressNetwork := w\<rparr> else g1);
          g3 = (case N ''ISOBOX_EGRESS_SENTINEL'' of Some x \<Rightarrow> g2\<lparr>Sentinel := x\<rparr> | None \<Rightarrow> g2);
          age = envInt N ''ISOBOX_SENTINEL_MAX_AGE_SEC'' 0 in
      if age > 0 then g3\<lparr>SentinelMaxAge := dur age seconds\<rparr> else g3)"

definition warmPoolOf :: "'tx boot \<Rightarrow> Registry \<Rightarrow> Gvisor \<Rightarrow> WarmPool option" where
  "warmPoolOf H reg g =
     (let n = envInt (bt_env H) ''ISOBOX_WARMPOOL_PYTHON'' 0 in
      if n > 0 then
        (case ResolveLang (bt_uni H) reg ''python'' [] of
           None \<Rightarrow> None
         | Some l \<Rightarrow>
             (let pl = DefaultLimits (bt_parseFloat H) l in
              Some (Prime (NewWarmPool g \<lparr>WarmPoolConfig.c_Size = n, WarmPoolConfig.c_Image = r_Image l, c_MemBytes = MemoryBytes pl, c_CPUs = CPUs pl,
                c_Pids = Pids pl, WarmPoolConfig.c_ScratchMB = r_ScratchMB l\<rparr>) (bt_warmBoots H))))
      else None)"

definition sessionConfig :: "environ \<Rightarrow> Session.config" where
  "sessionConfig N = \<lparr>Session.config.c_Root = env N ''ISOBOX_SESSIONS_ROOT'' ''/var/lib/isobox/sessions'',
     Session.config.c_DiskQuota = shl (envInt N ''ISOBOX_SESSION_DISK_MB'' 512) 20, Session.config.c_GlobalDiskMax = shl (envInt N ''ISOBOX_SESSIONS_DISK_MAX_GB'' 10) 30,
     Session.config.c_MaxSessions = envInt N ''ISOBOX_MAX_SESSIONS'' 200, Session.config.c_TTL = dur (envInt N ''ISOBOX_SESSION_TTL_SEC'' 86400) seconds\<rparr>"

definition kernelConfig :: "environ \<Rightarrow> KernelConfig" where
  "kernelConfig N = \<lparr>kc_Slots = envInt N ''ISOBOX_KERNEL_SLOTS'' 6, kc_MemoryBytes = shl (envInt N ''ISOBOX_KERNEL_MEM_MB'' 128) 20,
     kc_CPUs = Fin 0, kc_Pids = 0, kc_OutputBytes = envInt N ''ISOBOX_KERNEL_OUTPUT_BYTES'' 65536, kc_StartTimeout = 0,
     DefaultStepMs = 0, MaxStepMs = envInt N ''ISOBOX_KERNEL_MAX_STEP_MS'' 60000,
     kc_IdleTTL = dur (envInt N ''ISOBOX_KERNEL_IDLE_SEC'' 1800) seconds,
     MaxLifetime = dur (envInt N ''ISOBOX_KERNEL_MAX_LIFE_SEC'' 14400) seconds, kc_AcquireWait = 0\<rparr>"

definition minFree :: "environ \<Rightarrow> int" where
  "minFree N = shl (envInt N ''ISOBOX_MIN_FREE_DISK_GB'' 4) 30"

definition volumeConfig :: "environ \<Rightarrow> Volume.config" where
  "volumeConfig N = \<lparr>Volume.config.c_Root = env N ''ISOBOX_VOL_ROOT'' ''/var/lib/isobox/vol'',
     Volume.config.c_DiskQuota = shl (envInt N ''ISOBOX_VOL_DISK_MB'' 512) 20, Volume.config.c_GlobalDiskMax = shl (envInt N ''ISOBOX_VOL_DISK_MAX_GB'' 8) 30,
     Volume.config.c_MaxVolPerTenant = envInt N ''ISOBOX_MAX_VOL_PER_TENANT'' 100, Volume.config.c_MinFreeBytes = minFree N\<rparr>"

text \<open>The session manager with its kernel engine; the engine exists whenever the manager does, since the backend is gVisor.\<close>

definition sessionsOf :: "'s weighted \<Rightarrow> 'tx boot \<Rightarrow> Registry \<Rightarrow> Gvisor \<Rightarrow> 's Limiter \<Rightarrow> 's Session.manager option" where
  "sessionsOf S H reg g sema =
     (case Session.NewManager reg sema (sessionConfig (bt_env H)) (bt_sessMkdir H) (bt_sessEntries H) of
        Inl _ \<Rightarrow> None
      | Inr (m, _) \<Rightarrow>
          (case NewKernelEngine S (Some g) (kernelConfig (bt_env H)) (bt_kernelPs H) of
             None \<Rightarrow> Some m
           | Some (k, _) \<Rightarrow> Some (m\<lparr>Kernels := Some k\<rparr>)))"

text \<open>The broker's address and the protection of the connection; TLS is on unless switched off, without verification unless that is asked for.\<close>

definition valkeyConfig :: "environ \<Rightarrow> ValkeyConfig" where
  "valkeyConfig N = \<lparr>vc_Addr = env N ''ISOBOX_VALKEY_ADDR'' ''127.0.0.1:6379'', vc_Password = Getenv N ''ISOBOX_VALKEY_PASSWORD'',
     vc_TLS = (env N ''ISOBOX_VALKEY_TLS'' ''1'' \<noteq> ''0''), vc_SkipVerify = (env N ''ISOBOX_VALKEY_TLS_VERIFY'' ''0'' = ''0'')\<rparr>"

text \<open>The queue driver: an unreachable broker falls back to the local one.\<close>

definition queueOf :: "'tx boot \<Rightarrow> driver \<times> valkeyDriver option" where
  "queueOf H =
     (let q = ToLower (bt_uni H) (env (bt_env H) ''ISOBOX_QUEUE'' ''inproc'') in
      if q = ''valkey'' \<or> q = ''redis'' then
        (case NewValkey (bt_ping H) (bt_uuid H) (valkeyConfig (bt_env H)) of
           Some v \<Rightarrow> (Valkey, Some (StartWorkers (envInt (bt_env H) ''ISOBOX_VALKEY_WORKERS'' 2) v))
         | None \<Rightarrow> (InProc, None))
      else (InProc, None))"

definition backendOf :: "'s weighted \<Rightarrow> 'tx boot \<Rightarrow> Registry \<Rightarrow> Gvisor \<Rightarrow> ('tx, 's) backend" where
  "backendOf S H reg g =
     (let N = bt_env H; sema = New S (envInt N ''ISOBOX_CONCURRENCY'' 4) in
      \<lparr>sv_sema = sema, sv_execTotal = [], sv_reg = reg, sv_sessions = sessionsOf S H reg g sema,
       sv_volumes = (case Volume.NewManager (bt_vol H) (volumeConfig N) (bt_volMkdir H) (bt_volRoot H) of Inl _ \<Rightarrow> None | Inr m \<Rightarrow> Some m),
       sv_memory = (case Open (env N ''ISOBOX_KV_DIR'' ''/var/lib/isobox/kv'') (minFree N) (bt_kvMkdir H) (bt_kvFiles H) of Inl _ \<Rightarrow> None | Inr s \<Rightarrow> Some s),
       sv_pool = warmPoolOf H reg g, sv_scrape = \<lparr>once = False, gauges = []\<rparr>\<rparr>)"

definition start :: "'s weighted \<Rightarrow> 'tx boot \<Rightarrow> ('tx, 's, 'l) daemon option" where
  "start S H =
     (let N = bt_env H;
          regPath = firstExisting (bt_stat H) [Getenv N ''ISOBOX_REGISTRY'', ''internal/registry/registry.yaml'', ''/etc/isobox/registry.yaml''];
          g = configNetwork N (Detect (bt_stat H ''/dev/kvm'')) in
      case Load (bt_uni H) (bt_yaml H) (bt_readFile H regPath) of
        Inl _ \<Rightarrow> None
      | Inr reg \<Rightarrow>
        (case loadKeyStore (bt_sha H) (Getenv N) (bt_readFile H) of
           None \<Rightarrow> None
         | Some keys \<Rightarrow>
           (let b = backendOf S H reg g; (driver, valkey) = queueOf H;
                (wait, lim, rts) = Router (dur (envInt N ''ISOBOX_ACQUIRE_WAIT_MS'' 2000) milliseconds)
                  (envInt N ''ISOBOX_RATE_PER_MIN'' 30) (envInt N ''ISOBOX_RATE_BURST'' 10) b in
            Some \<lparr>d_gv = g, d_keys = keys, d_requireAuth = envBool N ''ISOBOX_REQUIRE_AUTH'' False,
              d_memoryRequireKey = envBool N ''ISOBOX_MEMORY_REQUIRE_KEY'' False, d_backend = b, d_driver = driver, d_valkey = valkey,
              d_acquireWait = wait, d_limiter = lim, d_routes = rts, d_regPath = regPath, d_addr = env N ''ISOBOX_ADDR'' ''127.0.0.1:8090'',
              d_level = Setup (bt_uni H) (env N ''ISOBOX_LOG_LEVEL'' ''info'')\<rparr>)))"

section \<open>Running\<close>

text \<open>SIGHUP: the registry is reloaded in place.\<close>

definition hup :: "'tx boot \<Rightarrow> ('tx, 's, 'l) daemon \<Rightarrow> ('tx, 's, 'l) daemon" where
  "hup H d =
     d\<lparr>d_backend := (d_backend d)\<lparr>sv_reg := snd (Reload (bt_uni H) (bt_yaml H) (bt_readFile H (d_regPath d)) (sv_reg (d_backend d)))\<rparr>\<rparr>"

text \<open>
  The maintenance tick: sessions (whose drops release volumes), resident kernels,
  volumes, and the expired records of the open databases \<open>kvs\<close>.
\<close>

definition tickSessions :: "'s weighted \<Rightarrow> host \<Rightarrow> int \<Rightarrow> ('tx, 's) backend \<Rightarrow> ('tx, 's) backend option" where
  "tickSessions S h clock b =
     (case sv_sessions b of
        None \<Rightarrow> Some b
      | Some m \<Rightarrow>
        (case Session.Sweep S h clock m of
           None \<Rightarrow> None
         | Some (m1, ops1) \<Rightarrow>
           (case SweepKernels S clock m1 of
              None \<Rightarrow> None
            | Some (m2, ops2) \<Rightarrow> Some (b\<lparr>sv_sessions := Some m2, sv_volumes := applyDrops (ops1 @ ops2) (sv_volumes b)\<rparr>))))"

definition tick :: "'s weighted \<Rightarrow> 'tx bolt \<Rightarrow> codec \<Rightarrow> host \<Rightarrow> vol_env \<Rightarrow> int \<Rightarrow> (string \<times> time) list \<Rightarrow> ('tx, 's) backend \<Rightarrow> ('tx, 's) backend option" where
  "tick S B C h V clock kvs b =
     map_option (\<lambda>b1. b1\<lparr>sv_volumes := map_option (Volume.Sweep V) (sv_volumes b1),
         sv_memory := map_option (\<lambda>s. snd (snd (SweepExpired B C s kvs))) (sv_memory b1)\<rparr>)
       (tickSessions S h clock b)"

text \<open>Shutdown, after the HTTP server has stopped; the result lists the containers removed.\<close>

definition closePool :: "WarmPool \<Rightarrow> WarmPool" where
  "closePool p = p\<lparr>wp_closed := True, ready := []\<rparr>"

definition shutdownBackend :: "string option list \<Rightarrow> ('tx, 's) backend \<Rightarrow> ('tx, 's) backend \<times> string list" where
  "shutdownBackend errs b =
     (let warm = (case sv_pool b of None \<Rightarrow> [] | Some p \<Rightarrow> ready p);
          engine = Option.bind (sv_sessions b) Kernels;
          removed = (case engine of None \<Rightarrow> []
            | Some e \<Rightarrow> concat (map (\<lambda>a. case a of ForceRemove cs \<Rightarrow> cs | _ \<Rightarrow> []) (snd (DestroyAll e)))) in
      (b\<lparr>sv_pool := map_option closePool (sv_pool b),
         sv_sessions := map_option (\<lambda>m. m\<lparr>Kernels := map_option (\<lambda>e. fst (DestroyAll e)) (Kernels m)\<rparr>) (sv_sessions b),
         sv_memory := map_option (\<lambda>s. snd (KVStore.Close errs s)) (sv_memory b)\<rparr>, warm @ removed))"

definition shutdown :: "string option list \<Rightarrow> ('tx, 's, 'l) daemon \<Rightarrow> ('tx, 's, 'l) daemon \<times> string list" where
  "shutdown errs d =
     (case shutdownBackend errs (d_backend d) of
        (b, removed) \<Rightarrow> (d\<lparr>d_valkey := map_option JobBus.Close (d_valkey d), d_backend := b\<rparr>, removed))"

section \<open>Lemmas\<close>

lemma sessionsOf_SomeD:
  assumes "sessionsOf S H reg g sema = Some m"
  shows "manager.Sema m = sema \<and> Reg m = reg \<and> 0 < manager.DiskQuota m \<and> 0 < manager.GlobalDiskMax m \<and> 0 < MaxSessions m \<and> 0 < DefaultTTL m \<and>
    sessions m = [] \<and> (\<exists>k. Kernels m = Some k \<and> gv k = g \<and> cfg k = applyDefaults (kernelConfig (bt_env H)) \<and> kernels k = [] \<and>
      Slots k = New S (kc_Slots (cfg k)))"
  using assms
  by (auto simp: sessionsOf_def Session.NewManager_def NewKernelEngine_def Let_def seconds_def split: sum.splits if_splits)

lemma applyDefaults_positive:
  "0 < kc_Slots (applyDefaults c) \<and> 0 < kc_MemoryBytes (applyDefaults c) \<and> \<not> fle (kc_CPUs (applyDefaults c)) (Fin 0) \<and> 0 < kc_Pids (applyDefaults c) \<and>
   0 < kc_OutputBytes (applyDefaults c) \<and> 0 < MaxStepMs (applyDefaults c) \<and> 0 < kc_IdleTTL (applyDefaults c) \<and> 0 < MaxLifetime (applyDefaults c)"
  by (auto simp: applyDefaults_def defaultTo_def seconds_def)

lemma start_SomeD:
  assumes "start S H = Some d"
  obtains reg where "d_gv d = configNetwork (bt_env H) (Detect (bt_stat H ''/dev/kvm''))" "d_backend d = backendOf S H reg (d_gv d)"
    "(d_acquireWait d, d_limiter d, d_routes d) = Router (dur (envInt (bt_env H) ''ISOBOX_ACQUIRE_WAIT_MS'' 2000) milliseconds)
       (envInt (bt_env H) ''ISOBOX_RATE_PER_MIN'' 30) (envInt (bt_env H) ''ISOBOX_RATE_BURST'' 10) (d_backend d)"
    "loadKeyStore (bt_sha H) (Getenv (bt_env H)) (bt_readFile H) = Some (d_keys d)"
  using assms by (auto simp: start_def Let_def split: sum.splits option.splits prod.splits)

text \<open>
  The connection to the broker: encrypted with TLS 1.2 or later unless the environment
  says \<^verbatim>\<open>0\<close>, and with the peer verified only when that is asked for.
\<close>

lemma valkey_connection:
  assumes "start S H = Some d" and "d_valkey d = Some v"
  defines "N \<equiv> bt_env H"
  shows "(case ro_TLSConfig (v_rdb v) of
      None \<Rightarrow> Getenv N ''ISOBOX_VALKEY_TLS'' = ''0''
    | Some t \<Rightarrow> Getenv N ''ISOBOX_VALKEY_TLS'' \<noteq> ''0'' \<and> VersionTLS12 \<le> MinVersion t \<and>
        (InsecureSkipVerify t \<longleftrightarrow> Getenv N ''ISOBOX_VALKEY_TLS_VERIFY'' \<in> {[], ''0''})) \<and> bt_ping H (v_rdb v)"
proof -
  have "snd (queueOf H) = Some v" using assms(1,2) by (auto simp: start_def Let_def split: sum.splits option.splits prod.splits)
  then have "v_rdb v = redisOpts (valkeyConfig N)" "bt_ping H (v_rdb v)"
    by (auto simp: queueOf_def NewValkey_def StartWorkers_def Let_def N_def split: if_splits option.splits)
  then show ?thesis by (auto simp: redisOpts_def valkeyConfig_def env_def Let_def)
qed

section \<open>Properties\<close>

text \<open>
  C39: Whatever the environment says, a daemon that starts is well formed.  It has at
  least one execution slot, a positive rate and burst, positive quotas, ceilings,
  lifetimes and limits for sessions and kernels, at least one kernel slot, a session
  manager that shares the server's limiter and starts empty, and routes for exactly
  the components that exist.
\<close>
theorem daemon_wellformed:
  fixes d :: "('tx, 's, 'l) daemon"
  assumes "start S H = Some d"
  defines "b \<equiv> d_backend d"
  shows "1 \<le> Max (sv_sema b) \<and> InUse (sv_sema b) = 0 \<and> 0 < d_acquireWait d \<and> 0 < il_rate (d_limiter d) \<and> 0 < il_burst (d_limiter d) \<and>
    d_routes d = routes (sv_sessions b \<noteq> None) (sv_volumes b \<noteq> None) (sv_memory b \<noteq> None) \<and>
    (\<forall>m. sv_sessions b = Some m \<longrightarrow> manager.Sema m = sv_sema b \<and> sessions m = [] \<and>
       0 < manager.DiskQuota m \<and> 0 < manager.GlobalDiskMax m \<and> 0 < MaxSessions m \<and> 0 < DefaultTTL m \<and>
       (\<exists>k. Kernels m = Some k \<and> gv k = d_gv d \<and> kernels k = [] \<and> 1 \<le> Max (Slots k) \<and> Max (Slots k) = kc_Slots (cfg k) \<and>
          0 < kc_MemoryBytes (cfg k) \<and> \<not> fle (kc_CPUs (cfg k)) (Fin 0) \<and> 0 < kc_Pids (cfg k) \<and> 0 < kc_OutputBytes (cfg k) \<and>
          0 < MaxStepMs (cfg k) \<and> 0 < kc_IdleTTL (cfg k) \<and> 0 < MaxLifetime (cfg k)))"
proof -
  obtain reg where s: "b = backendOf S H reg (d_gv d)"
      "(d_acquireWait d, d_limiter d, d_routes d) = Router (dur (envInt (bt_env H) ''ISOBOX_ACQUIRE_WAIT_MS'' 2000) milliseconds)
       (envInt (bt_env H) ''ISOBOX_RATE_PER_MIN'' 30) (envInt (bt_env H) ''ISOBOX_RATE_BURST'' 10) b"
    using start_SomeD [OF assms(1)] unfolding b_def by metis
  let ?n = "envInt (bt_env H) ''ISOBOX_CONCURRENCY'' 4"
  have sema: "sv_sema b = New S ?n" "sv_sessions b = sessionsOf S H reg (d_gv d) (New S ?n)"
    by (simp_all add: s(1) backendOf_def Let_def)
  have "0 < d_acquireWait d \<and> 0 < il_rate (d_limiter d) \<and> 0 < il_burst (d_limiter d) \<and>
      d_routes d = routes (sv_sessions b \<noteq> None) (sv_volumes b \<noteq> None) (sv_memory b \<noteq> None)"
    using s(2) by (simp add: Router_def newIPLimiter_def Let_def seconds_def)
  moreover have "1 \<le> Max (sv_sema b)" "InUse (sv_sema b) = 0" by (simp_all add: sema New_def Max_def InUse_def Let_def)
  moreover have "\<exists>k. Kernels m = Some k \<and> gv k = d_gv d \<and> kernels k = [] \<and> 1 \<le> Max (Slots k) \<and> Max (Slots k) = kc_Slots (cfg k) \<and>
      0 < kc_MemoryBytes (cfg k) \<and> \<not> fle (kc_CPUs (cfg k)) (Fin 0) \<and> 0 < kc_Pids (cfg k) \<and> 0 < kc_OutputBytes (cfg k) \<and>
      0 < MaxStepMs (cfg k) \<and> 0 < kc_IdleTTL (cfg k) \<and> 0 < MaxLifetime (cfg k)" if "sv_sessions b = Some m" for m
    using sessionsOf_SomeD [of S H reg "d_gv d" "New S ?n" m] that applyDefaults_positive [of "kernelConfig (bt_env H)"]
    by (auto simp: sema New_def Max_def Let_def)
  ultimately show ?thesis using sessionsOf_SomeD [of S H reg "d_gv d" "New S ?n"] sema by simp
qed

text \<open>
  The operator's switch holds.  With \<^verbatim>\<open>ISOBOX_ALLOW_NETWORK\<close> set to \<^verbatim>\<open>0\<close> or \<^verbatim>\<open>false\<close>, no
  sandbox of the started daemon, one-shot or kernel, has a network, whatever a
  request asks for and whatever else is configured.
\<close>
theorem operator_disables_network:
  assumes "start S H = Some d" and "bt_env H ''ISOBOX_ALLOW_NETWORK'' \<in> {Some ''0'', Some ''false''}"
  shows "take 5 (buildRunArgs stat1 stat2 ord (d_gv d) name jobDir s) = [''--name'', name, ''--runtime'', g_Runtime (d_gv d), ''--network=none''] \<and>
    (\<forall>m k. sv_sessions (d_backend d) = Some m \<and> Kernels m = Some k \<longrightarrow>
       sublist [''--runtime'', g_Runtime (d_gv d), ''--network=none''] (buildKernelRunArgs stat1 k name sid img mounts True))"
proof -
  obtain reg where s: "d_gv d = configNetwork (bt_env H) (Detect (bt_stat H ''/dev/kvm''))" "d_backend d = backendOf S H reg (d_gv d)"
    using start_SomeD [OF assms(1)] by metis
  have off: "\<not> AllowNetwork (d_gv d)"
    using assms(2) by (auto simp: s(1) configNetwork_def Getenv_def Let_def split: option.splits if_splits)
  have "sublist [''--runtime'', g_Runtime (d_gv d), ''--network=none''] (buildKernelRunArgs stat1 k name sid img mounts True)"
    if "sv_sessions (d_backend d) = Some m" "Kernels m = Some k" for m k
  proof -
    have "gv k = d_gv d" using that sessionsOf_SomeD by (fastforce simp: s(2) backendOf_def Let_def)
    then have n: "kernelNet stat1 (gv k) True = (g_Runtime (d_gv d), ''--network=none'', [])" using off by (simp add: kernelNet_def NetMode_def)
    obtain rest where "buildKernelRunArgs stat1 k name sid img mounts True =
        [''-d'', ''-i'', ''--name'', name] @ [''--runtime'', g_Runtime (d_gv d), ''--network=none''] @ rest"
      by (simp add: buildKernelRunArgs_def n Let_def)
    then show ?thesis using sublist_appendI by metis
  qed
  moreover have "take 5 (buildRunArgs stat1 stat2 ord (d_gv d) name jobDir s) = [''--name'', name, ''--runtime'', g_Runtime (d_gv d), ''--network=none'']"
    using off by (simp add: buildRunArgs_def netFlags_def networkEnabled_def Let_def)
  ultimately show ?thesis by blast
qed

text \<open>
  Nothing the daemon keeps running outlives it.  Shutdown force-removes the container
  of every resident kernel and every idle container of the warm pool, empties both,
  closes the key/value store, and stops the workers of the job bus.
\<close>
theorem shutdown_complete:
  assumes "shutdown errs d = (d', removed)"
  shows "(\<forall>m k sid c. sv_sessions (d_backend d) = Some m \<and> Kernels m = Some k \<and> (sid, c) \<in> set (kernels k) \<longrightarrow> c \<in> set removed) \<and>
    (\<forall>p c. sv_pool (d_backend d) = Some p \<and> c \<in> set (ready p) \<longrightarrow> c \<in> set removed) \<and>
    (\<forall>m k. sv_sessions (d_backend d') = Some m \<and> Kernels m = Some k \<longrightarrow> kernels k = []) \<and>
    (\<forall>p. sv_pool (d_backend d') = Some p \<longrightarrow> ready p = [] \<and> fst (take_warm p) = None) \<and>
    (\<forall>s. sv_memory (d_backend d') = Some s \<longrightarrow> store.closed s) \<and>
    (\<forall>v. d_valkey d' = Some v \<longrightarrow> \<not> v_connOpen v \<and> v_cancel v \<noteq> Some False)"
proof -
  obtain b where b: "shutdownBackend errs (d_backend d) = (b, removed)" "d' = d\<lparr>d_valkey := map_option JobBus.Close (d_valkey d), d_backend := b\<rparr>"
    using assms by (auto simp: shutdown_def split: prod.splits)
  have upd: "kernels (fold (\<lambda>c e'. updObj c markDead e') cs e) = kernels e" for cs and e :: "'b KernelEngine"
    by (induction cs arbitrary: e) (auto simp: updObj_def split: option.splits)
  have "c \<in> set removed" if "sv_sessions (d_backend d) = Some m" "Kernels m = Some k" "(sid, c) \<in> set (kernels k)" for m k sid c
    using b(1) that by (force simp: shutdownBackend_def DestroyAll_def Let_def)
  moreover have "c \<in> set removed" if "sv_pool (d_backend d) = Some p" "c \<in> set (ready p)" for p c
    using b(1) that by (auto simp: shutdownBackend_def Let_def)
  moreover have "kernels k = []" if "sv_sessions b = Some m" "Kernels m = Some k" for m k
    using b(1) that by (auto simp: shutdownBackend_def DestroyAll_def Let_def upd)
  moreover have "ready p = [] \<and> fst (take_warm p) = None" if "sv_pool b = Some p" for p
    using b(1) that by (auto simp: shutdownBackend_def closePool_def take_warm_def Let_def)
  moreover have "store.closed s" if "sv_memory b = Some s" for s
    using b(1) that by (auto simp: shutdownBackend_def KVStore.Close_def Let_def)
  moreover have "\<not> v_connOpen v \<and> v_cancel v \<noteq> Some False" if "map_option JobBus.Close (d_valkey d) = Some v" for v
    using that by (auto simp: JobBus.Close_def)
  ultimately show ?thesis by (auto simp: b(2))
qed

section \<open>A start for the witnesses\<close>

definition demo_boot :: "mem_tx boot" where
  "demo_boot = \<lparr>bt_env = [''ISOBOX_ALLOW_NETWORK'' \<mapsto> ''0''], bt_stat = (\<lambda>_. False), bt_readFile = (\<lambda>_. Some []), bt_yaml = (\<lambda>_. Some [demo_lang]),
     bt_uni = id, bt_parseFloat = (\<lambda>_. Fin 0), bt_sha = demo_sha, bt_warmBoots = [], bt_sessMkdir = True, bt_sessEntries = None,
     bt_kernelPs = None, bt_vol = VolumeTheorems.demo_env, bt_volMkdir = False, bt_volRoot = [], bt_kvMkdir = True, bt_kvFiles = Map.empty,
     bt_ping = (\<lambda>_. False), bt_uuid = ''u''\<rparr>"

lemma demo_starts: "\<exists>d :: (mem_tx, int \<times> int, bucket) daemon. start counter demo_boot = Some d \<and> sv_sessions (d_backend d) \<noteq> None"
proof -
  have "\<exists>reg. Load id (\<lambda>_. Some [demo_lang]) (Some []) = Inr reg" by (simp add: Load_def demo_lang_def withDefaults_def Let_def)
  moreover have "loadKeyStore demo_sha (Getenv [''ISOBOX_ALLOW_NETWORK'' \<mapsto> ''0'']) (\<lambda>_. Some []) = Some (NewKeyStore demo_sha [])"
    by (simp add: loadKeyStore_def Getenv_def Let_def)
  moreover have "sessionsOf counter demo_boot reg g sema \<noteq> None" for reg g sema
  proof -
    have "bt_sessMkdir demo_boot" "bt_env demo_boot ''ISOBOX_SESSIONS_ROOT'' = None" by (simp_all add: demo_boot_def)
    moreover from this have "Session.config.c_Root (sessionConfig (bt_env demo_boot)) \<noteq> []" by (simp add: sessionConfig_def env_def Getenv_def)
    ultimately show ?thesis by (simp add: sessionsOf_def Session.NewManager_def NewKernelEngine_def Let_def)
  qed
  moreover have "bt_uni demo_boot = id" "bt_yaml demo_boot = (\<lambda>_. Some [demo_lang])" "bt_readFile demo_boot = (\<lambda>_. Some [])" "bt_sha demo_boot = demo_sha"
      "bt_env demo_boot = [''ISOBOX_ALLOW_NETWORK'' \<mapsto> ''0'']"
    by (simp_all add: demo_boot_def)
  ultimately show ?thesis by (auto simp: start_def Let_def backendOf_def simp del: fun_upd_apply split: prod.splits)
qed

theorem daemon_wellformed_witness:
  "\<exists>d :: (mem_tx, int \<times> int, bucket) daemon. start counter demo_boot = Some d \<and> 1 \<le> Max (sv_sema (d_backend d)) \<and>
     d_routes d = routes (sv_sessions (d_backend d) \<noteq> None) (sv_volumes (d_backend d) \<noteq> None) (sv_memory (d_backend d) \<noteq> None)"
proof -
  obtain d :: "(mem_tx, int \<times> int, bucket) daemon" where d: "start counter demo_boot = Some d" using demo_starts by blast
  then show ?thesis using daemon_wellformed [OF d] by blast
qed

theorem operator_disables_network_witness:
  "\<exists>d :: (mem_tx, int \<times> int, bucket) daemon. start counter demo_boot = Some d \<and>
     take 5 (buildRunArgs (Some 0) (Some 0) id (d_gv d) ''n'' ''/j'' demo_spec) = [''--name'', ''n'', ''--runtime'', g_Runtime (d_gv d), ''--network=none'']"
proof -
  obtain d :: "(mem_tx, int \<times> int, bucket) daemon" where d: "start counter demo_boot = Some d" using demo_starts by blast
  have "bt_env demo_boot ''ISOBOX_ALLOW_NETWORK'' \<in> {Some ''0'', Some ''false''}" by (simp add: demo_boot_def)
  from operator_disables_network [OF d this] show ?thesis using d by blast
qed

theorem shutdown_complete_witness:
  "\<exists>(d :: (mem_tx, int \<times> int, bucket) daemon) d' removed. start counter demo_boot = Some d \<and> shutdown [] d = (d', removed) \<and>
     (\<forall>s. sv_memory (d_backend d') = Some s \<longrightarrow> store.closed s)"
proof -
  obtain d :: "(mem_tx, int \<times> int, bucket) daemon" where d: "start counter demo_boot = Some d" using demo_starts by blast
  obtain d' removed where s: "shutdown [] d = (d', removed)" by fastforce
  show ?thesis using d s shutdown_complete [OF s] by blast
qed

end
