(* ===== verification/Isolation.thy ===== *)
theory Isolation
  imports RouterProps
begin

text \<open>
  Isolation of volumes and sessions over sequences of requests to the whole server of
  \<^verbatim>\<open>internal/api/router.go\<close>.  Each handler is classified by what it may do: the volume
  handlers change the index and the tree of the requesting tenant only, the session
  handlers only move holders and only touch the session whose token they were given,
  and the others touch neither component.
\<close>

section \<open>What a tenant has in the volume manager\<close>

definition volView :: "Volume.manager \<Rightarrow> string \<Rightarrow> (string \<Rightarrow> Volume option) \<times> ten_dir option" where
  "volView m t = (\<lambda>i. case lookup m t i of Inl _ \<Rightarrow> None | Inr a \<Rightarrow> Some (strip (heap m ! a)), map_of (vfs m) t)"

definition pointers :: "Volume.manager \<Rightarrow> bool" where
  "pointers m \<longleftrightarrow> (\<forall>p \<in> set (vols m). snd p < length (heap m))"

text \<open>A step of tenant \<open>x\<close>: the pointers stay valid and no other tenant sees a difference.\<close>

definition onlyFor :: "string \<Rightarrow> Volume.manager \<Rightarrow> Volume.manager \<Rightarrow> bool" where
  "onlyFor x m m' \<longleftrightarrow> pointers m' \<and> (\<forall>t. t \<noteq> x \<longrightarrow> volView m' t = volView m t)"

lemma lookup_pointer: "pointers m \<Longrightarrow> lookup m t i = Inr a \<Longrightarrow> a < length (heap m)"
  by (auto simp: lookup_def pointers_def split: if_splits option.splits dest!: map_of_SomeD)

lemma onlyFor_refl: "pointers m \<Longrightarrow> onlyFor x m m"
  by (simp add: onlyFor_def)

lemma same_volumes_refl [simp]: "same_volumes m m"
  by (simp add: same_volumes_def)

lemma same_volumes_view:
  assumes "same_volumes m m'" and "pointers m"
  shows "onlyFor x m m'"
proof -
  have v: "vols m' = vols m" "vfs m' = vfs m" using assms(1) by (simp_all add: same_volumes_def)
  then have l: "lookup m' t i = lookup m t i" for t i by (simp add: lookup_def)
  then have "volView m' t = volView m t" for t
    using lookup_pointer [OF assms(2)] same_volumesD(2) [OF assms(1)]
    by (auto simp: volView_def v fun_eq_iff split: sum.splits)
  then show ?thesis using assms(2) same_volumesD(1) [OF assms(1)] by (simp add: onlyFor_def pointers_def v)
qed

text \<open>A change of the index and the tree under the requesting tenant only.\<close>

lemma onlyForI:
  assumes "pointers m" and "tenantRe x"
    and "\<And>k. (\<nexists>i. k = key x i) \<Longrightarrow> map_of (vols m') k = map_of (vols m) k"
    and "\<And>a. a < length (heap m) \<Longrightarrow> heap m' ! a = heap m ! a"
    and "\<And>t. t \<noteq> x \<Longrightarrow> map_of (vfs m') t = map_of (vfs m) t" and "pointers m'"
  shows "onlyFor x m m'"
proof -
  have "volView m' t = volView m t" if "t \<noteq> x" for t
  proof -
    have l: "lookup m' t i = lookup m t i" for i
      using assms(3) [of "key t i"] that key_inj_tenant [of t x i] assms(2) by (auto simp: lookup_def)
    then show ?thesis
      using lookup_pointer [OF assms(1)] assms(4) assms(5) [OF that] by (auto simp: volView_def fun_eq_iff split: sum.splits)
  qed
  then show ?thesis using assms(6) by (simp add: onlyFor_def)
qed

lemma map_of_put_vol: "t \<noteq> x \<Longrightarrow> map_of (put_vol x i vd fs) t = map_of fs t"
proof -
  assume "t \<noteq> x"
  moreover have "t \<noteq> x \<Longrightarrow> map_of (filter (\<lambda>p. fst p \<noteq> x) fs) t = map_of fs t" by (induction fs) auto
  ultimately show ?thesis by (simp add: put_vol_def Let_def)
qed

lemma map_of_del_vol: "t \<noteq> x \<Longrightarrow> map_of (removeAll_vol E x i fs) t = map_of fs t"
  by (induction fs) (auto simp: removeAll_vol_def del_vol_def)

lemma Create_onlyFor:
  assumes "Volume.Create V io uuid m x nm = (res, m')" and "pointers m"
  shows "onlyFor x m m'"
proof (cases "m' = m")
  case False
  then have x: "tenantRe x" using assms(1) by (auto simp: Volume.Create_def Let_def split: if_splits)
  have fs: "onlyFor x m (m\<lparr>vfs := f\<rparr>)" if "\<And>t. t \<noteq> x \<Longrightarrow> map_of f t = map_of (vfs m) t" for f
    by (rule onlyForI [OF assms(2) x]) (use that assms(2) in \<open>auto simp: pointers_def\<close>)
  have add: "onlyFor x m (addVolume v (m\<lparr>vfs := put_vol x i d (vfs m)\<rparr>))" if "Tenant v = x" for v i d
    by (rule onlyForI [OF assms(2) x])
       (use that assms(2) in \<open>auto simp: pointers_def addVolume_def map_of_map_put nth_append map_of_put_vol in_map_put dest: bspec\<close>)
  show ?thesis
    using assms(1) False
    by (auto simp: Volume.Create_def Let_def volumeOf_def intro!: fs add simp: map_of_put_vol map_of_del_vol split: if_splits sum.splits)
qed (use assms(2) onlyFor_refl in simp)

lemma Delete_onlyFor:
  assumes "Volume.Delete V m x i = (res, m')" and "pointers m"
  shows "onlyFor x m m'"
proof (cases "m' = m")
  case False
  then have x: "tenantRe x" using assms(1) by (auto simp: Volume.Delete_def lookup_def split: if_splits sum.splits)
  have "vols m' = map_del (key x i) (vols m)" "heap m' = heap m" "vfs m' = removeAll_vol V x i (vfs m)"
    using assms(1) False by (auto simp: Volume.Delete_def deleteLock_def Let_def split: if_splits sum.splits)
  then show ?thesis
    using assms(2) by (intro onlyForI [OF assms(2) x]) (auto simp: pointers_def map_of_map_del map_of_del_vol in_map_del)
qed (use assms(2) onlyFor_refl in simp)

section \<open>Sessions only move holders\<close>

abbreviation moves :: "Volume.manager option \<Rightarrow> Volume.manager option \<Rightarrow> bool" where
  "moves v v' \<equiv> rel_option same_volumes v v'"

lemma moves_refl [simp]: "moves v v"
  by (simp add: option.rel_refl)

lemma moves_trans: "moves u v \<Longrightarrow> moves v w \<Longrightarrow> moves u w"
  by (cases u; cases v; cases w) (auto intro: same_volumes_trans)

lemma same_volumes_Attach: "Attach E m t i s rw = (res, m') \<Longrightarrow> same_volumes m m'"
  by (auto simp: Volume.Attach_def attachLock_def Let_def same_volumes_setHolder split: sum.splits option.splits prod.splits if_splits)

lemma same_volumes_ReleaseAll: "same_volumes m (ReleaseAll m s)"
  using releaseAll_fold [of s "vols m" m] by (simp add: ReleaseAll_def Let_def)

lemma moves_applyDrops: "moves v (applyDrops ops v)"
proof (cases v)
  case (Some m)
  have "same_volumes m (fold (\<lambda>x m. case x of OnDrop sid \<Rightarrow> ReleaseAll m sid | _ \<Rightarrow> m) ops m)"
  proof (induction ops arbitrary: m)
    case (Cons op ops)
    have "same_volumes m (case op of OnDrop sid \<Rightarrow> ReleaseAll m sid | _ \<Rightarrow> m)"
      by (cases op) (simp_all add: same_volumes_ReleaseAll)
    then show ?case using Cons.IH by (auto intro: same_volumes_trans)
  qed simp
  then show ?thesis using Some by (simp add: applyDrops_def)
qed (simp add: applyDrops_def)

lemma rollback_moves: "rollback S E t s st = Some st' \<Longrightarrow> moves (Volumes st) (Volumes st')"
  by (auto simp: rollback_def moves_applyDrops)

lemma attachVolume_moves:
  assumes "attachVolume S E t vid s st = Some (resp, st')"
  shows "moves (Volumes st) (Volumes st')"
proof (cases "Volumes st")
  case None
  then show ?thesis using assms rollback_moves by (fastforce simp: attachVolume_def)
next
  case (Some v)
  obtain res v' where a: "Attach (se_vol E) v t vid (s_ID s) True = (res, v')" by fastforce
  have v: "same_volumes v v'" "same_volumes v (Volume.Release v' t vid (s_ID s))"
    using same_volumes_Attach [OF a] same_volumes_Release same_volumes_trans by blast+
  show ?thesis
    using assms v by (auto simp: attachVolume_def Some a dest!: rollback_moves intro: same_volumes_trans
        split: sum.splits prod.splits option.splits elim!: option.rel_cases)
qed

lemma createKernelSession_moves:
  assumes "createKernelSession S E t req st = Some (resp, st')"
  shows "moves (Volumes st) (Volumes st')"
proof (cases "Volumes st")
  case None
  then show ?thesis using assms by (auto simp: createKernelSession_def Let_def split: if_splits option.splits prod.splits sum.splits)
next
  case (Some v)
  obtain res v' where a: "Attach (se_vol E) v t (cs_VolumeID req) (MintID (se_mint E)) True = (res, v')" by fastforce
  have v: "same_volumes v v'" "same_volumes v (Volume.Release v' t (cs_VolumeID req) (MintID (se_mint E)))"
      "same_volumes v (Volume.Release v t (cs_VolumeID req) (MintID (se_mint E)))"
    using same_volumes_Attach [OF a] same_volumes_Release same_volumes_trans by blast+
  show ?thesis
    using assms v by (auto simp: createKernelSession_def Let_def Some a split: if_splits option.splits prod.splits sum.splits)
qed

lemma handleCreateSession_moves:
  assumes "handleCreateSession S E decode r c st = Some (resp, st')"
  shows "moves (Volumes st) (Volumes st')"
  using assms attachVolume_moves [of S E _ _ _ "st\<lparr>Sessions := _\<rparr>" resp st']
  by (auto simp: handleCreateSession_def reqTenant_def Let_def dest!: createKernelSession_moves
      split: sum.splits decoded.splits if_splits option.splits prod.splits)

lemma handleSessionExec_moves:
  assumes "handleSessionExec S X sid r c st = Some (resp, st')"
  shows "Volumes st' = Volumes st"
  using assms
  by (auto simp: handleSessionExec_def handleKernelExec_def reqTenant_def Let_def
      split: sum.splits decoded.splits if_splits option.splits prod.splits)

lemma session_files_moves:
  "handleSessionFSGet E sid r c st = (resp, st') \<Longrightarrow> Volumes st' = Volumes st"
  "handleSessionFSPut E n sid r c st = (resp, st') \<Longrightarrow> Volumes st' = Volumes st"
  "handleSessionFSDelete E sid r c st = (resp, st') \<Longrightarrow> Volumes st' = Volumes st"
  by (auto simp: handleSessionFSGet_def handleSessionFSPut_def handleSessionFSDelete_def reqTenant_def Let_def
      split: sum.splits if_splits option.splits prod.splits)

lemma handleDestroySession_moves:
  assumes "handleDestroySession S E sid r c st = Some (resp, st')"
  shows "moves (Volumes st) (Volumes st')"
  using assms by (auto simp: handleDestroySession_def reqTenant_def moves_applyDrops split: prod.splits if_splits)

section \<open>The server\<close>

lemma open_volumes:
  assumes "leaf E e ps cap r c b = Some (resp, b')" and "e \<in> set open_eps"
  shows "sv_volumes b' = sv_volumes b"
  by (insert assms, cases e) (auto simp: open_eps_def leaf_def handleMetricsB_def split: prod.splits option.splits)

lemma onSessions_volumes:
  assumes "onSessions h r c b = Some (resp, b')" and "sv_volumes b = Some m" and "pointers m"
    and "\<And>st st'. h r c st = Some (resp, st') \<Longrightarrow> moves (Volumes st) (Volumes st')"
  shows "\<exists>m'. sv_volumes b' = Some m' \<and> onlyFor x m m'"
proof -
  obtain st st' where h: "h r c st = Some (resp, st')" "Volumes st = Some m" "sv_volumes b' = Volumes st'"
    using assms(1,2) by (auto simp: onSessions_def split: option.splits)
  obtain m' where "Volumes st' = Some m'" "same_volumes m m'" using assms(4) [OF h(1)] h(2) by (auto elim: option.rel_cases)
  then show ?thesis using same_volumes_view [OF _ assms(3)] h(3) by auto
qed

lemma onVolumes_volumes:
  assumes "onVolumes h r c b = Some (resp, b')" and "sv_volumes b = Some m" and "\<And>m'. h r c m = (resp, m') \<Longrightarrow> onlyFor x m m'"
  shows "\<exists>m'. sv_volumes b' = Some m' \<and> onlyFor x m m'"
  using assms by (auto simp: onVolumes_def split: prod.splits)

lemma handleCreateVolume_onlyFor:
  "handleCreateVolume V io uuid errText fmtTime decode r (Some x) m = (resp, m') \<Longrightarrow> pointers m \<Longrightarrow> onlyFor x m m'"
  by (auto simp: handleCreateVolume_def reqTenant_def TenantFrom_def Let_def onlyFor_refl intro: Create_onlyFor
      split: if_splits decoded.splits prod.splits sum.splits)

lemma volume_reads_onlyFor:
  "handleListVolumes errText fmtTime r c m = (resp, m') \<Longrightarrow> pointers m \<Longrightarrow> onlyFor x m m'"
  "handleGetVolume errText fmtTime i r c m = (resp, m') \<Longrightarrow> pointers m \<Longrightarrow> onlyFor x m m'"
  by (auto simp: handleListVolumes_def handleGetVolume_def reqTenant_def onlyFor_refl split: if_splits prod.splits sum.splits)

lemma handleDeleteVolume_onlyFor:
  "handleDeleteVolume V errText i r (Some x) m = (resp, m') \<Longrightarrow> pointers m \<Longrightarrow> onlyFor x m m'"
  by (auto simp: handleDeleteVolume_def reqTenant_def TenantFrom_def onlyFor_refl intro: Delete_onlyFor
      split: if_splits prod.splits option.splits)

lemmas volume_handlers = handleCreateVolume_onlyFor volume_reads_onlyFor handleDeleteVolume_onlyFor

lemma leaf_volumes:
  assumes "leaf E e ps cap r (Some x) b = Some (resp, b')" and "sv_volumes b = Some m" and "pointers m"
  shows "\<exists>m'. sv_volumes b' = Some m' \<and> onlyFor x m m'"
proof (cases e)
  case ESessCreate
  then show ?thesis using assms by (auto simp: leaf_def intro!: onSessions_volumes handleCreateSession_moves)
next
  case ESessExec
  then show ?thesis using assms by (auto simp: leaf_def dest: handleSessionExec_moves intro!: onSessions_volumes)
next
  case ESessFSGet
  then show ?thesis using assms by (auto simp: leaf_def dest: session_files_moves intro!: onSessions_volumes)
next
  case ESessFSPut
  then show ?thesis using assms by (auto simp: leaf_def dest: session_files_moves intro!: onSessions_volumes)
next
  case ESessFSDelete
  then show ?thesis using assms by (auto simp: leaf_def dest: session_files_moves intro!: onSessions_volumes)
next
  case ESessDestroy
  then show ?thesis using assms by (auto simp: leaf_def intro!: onSessions_volumes handleDestroySession_moves)
next
  case EVolCreate
  then show ?thesis using assms by (auto simp: leaf_def intro!: onVolumes_volumes intro: volume_handlers)
next
  case EVolList
  then show ?thesis using assms by (auto simp: leaf_def intro!: onVolumes_volumes intro: volume_handlers)
next
  case EVolGet
  then show ?thesis using assms by (auto simp: leaf_def intro!: onVolumes_volumes intro: volume_handlers)
next
  case EVolDelete
  then show ?thesis using assms by (auto simp: leaf_def intro!: onVolumes_volumes intro: volume_handlers)
qed (use assms(1,2) onlyFor_refl [OF assms(3)] in \<open>auto simp: leaf_def handleMetricsB_def onExecute_def onMemory_def split: prod.splits option.splits\<close>)

lemma serve_volumes:
  assumes "ServeHTTP E rts r (L, Some b) = (resp, (L', Some b'))" and "sv_volumes b = Some m" and "pointers m"
  shows "\<exists>m'. sv_volumes b' = Some m' \<and> pointers m' \<and> (\<forall>t. tenantOf E r \<noteq> Some t \<longrightarrow> volView m' t = volView m t)"
  using serve_leaf [OF assms(1)] open_volumes [of E _ _ None r None b] leaf_volumes [OF _ assms(2,3)] assms(2,3)
  by (fastforce simp: onlyFor_def)

section \<open>A session in the hands of strangers\<close>

text \<open>The credentials of a call are not those of the session.\<close>

definition stranger :: "Session \<Rightarrow> string \<Rightarrow> string \<Rightarrow> bool" where
  "stranger s token t \<longleftrightarrow> token \<noteq> s_Token s \<or> t \<noteq> '''' \<and> t \<noteq> s_Tenant s"

abbreviation entry :: "'s Session.manager \<Rightarrow> string \<Rightarrow> Session option" where
  "entry m sid \<equiv> map_of (sessions m) sid"

lemma updSession_other: "sid' \<noteq> sid \<Longrightarrow> entry (updSession sid' f m) sid = entry m sid"
  by (auto simp: updSession_def map_of_map_put split: option.splits)

lemma authed_stranger: "entry m sid = Some s \<Longrightarrow> stranger s token t \<Longrightarrow> authed m sid' token t = Inr s' \<Longrightarrow> sid' \<noteq> sid"
  by (auto simp: authed_Inr stranger_def)

lemma Exec_entry:
  assumes "Session.Exec S run w clk m sid' token t spec = Some (res, m')" and "entry m sid = Some s" and "stranger s token t"
  shows "entry m' sid = Some s"
proof (cases "authed m sid' token t")
  case (Inr s')
  then show ?thesis
    using assms authed_stranger [OF assms(2,3) Inr]
    by (auto simp: Session.Exec_def Let_def updSession_other split: prod.splits bool.splits)
qed (use assms in \<open>simp add: Session.Exec_def\<close>)

lemma KernelExec_entry:
  assumes "KernelExec U M i w reads clk m sid' token t code ms k = Some (res, snk, m', ops)" and "entry m sid = Some s" and "stranger s token t"
  shows "entry m' sid = Some s"
proof (cases "authed m sid' token t")
  case (Inr s')
  then show ?thesis
    using assms authed_stranger [OF assms(2,3) Inr]
    by (auto simp: KernelExec_def updSession_other split: prod.splits option.splits)
qed (use assms in \<open>simp add: KernelExec_def\<close>)

lemma WriteFile_entry:
  assumes "WriteFile h clk m sid' token t rel d = (res, m', ops)" and "entry m sid = Some s" and "stranger s token t"
  shows "entry m' sid = Some s"
proof (cases "authed m sid' token t")
  case (Inr s')
  then show ?thesis
    using assms authed_stranger [OF assms(2,3) Inr]
    by (auto simp: WriteFile_def withPath_def Let_def updSession_other split: sum.splits prod.splits option.splits if_splits)
qed (use assms in \<open>simp add: WriteFile_def withPath_def\<close>)

lemma Destroy_other:
  assumes "Destroy S h m sid' token t = Some (res, m', ops)" and "sid' \<noteq> sid"
  shows "entry m' sid = entry m sid"
  using assms
  by (auto simp: Destroy_def claim_def map_of_map_del dest!: finishDrop_ops(1) split: sum.splits prod.splits bool.splits)

lemma Destroy_entry:
  assumes "Destroy S h m sid' token t = Some (res, m', ops)" and "entry m sid = Some s" and "stranger s token t"
  shows "entry m' sid = Some s"
proof (cases "authed m sid' token t")
  case (Inr s')
  then show ?thesis using Destroy_other [OF assms(1) authed_stranger [OF assms(2,3)]] assms(2) by simp
qed (use assms in \<open>simp add: Destroy_def\<close>)

lemma SetMounts_other: "SetMounts m sid' token t ms = (res, m') \<Longrightarrow> sid' \<noteq> sid \<Longrightarrow> entry m' sid = entry m sid"
  by (auto simp: SetMounts_def updSession_other split: sum.splits)

lemma Create_other:
  assumes "Session.Create S E m rt co = Some (res, m', ops)" and "(if o_ID co \<noteq> [] then o_ID co else MintID (ce_uuid E)) \<noteq> sid"
  shows "entry m' sid = entry m sid" and "res = Inr s \<Longrightarrow> s_ID s \<noteq> sid"
proof -
  have "entry m' sid = entry m sid \<and> (\<forall>s. res = Inr s \<longrightarrow> s_ID s \<noteq> sid)"
    using Create_session [OF assms(1)] assms(2) by (cases res) (auto simp: map_of_map_put)
  then show "entry m' sid = entry m sid" and "res = Inr s \<Longrightarrow> s_ID s \<noteq> sid" by blast+
qed

lemma rollback_other:
  "rollback S E t s st = Some st' \<Longrightarrow> s_ID s \<noteq> sid \<Longrightarrow> entry (Sessions st') sid = entry (Sessions st) sid"
  by (auto simp: rollback_def dest: Destroy_other)

lemma attachVolume_other:
  assumes "attachVolume S E t vid s st = Some (resp, st')" and "s_ID s \<noteq> sid"
  shows "entry (Sessions st') sid = entry (Sessions st) sid"
  using assms
  by (auto simp: attachVolume_def dest!: rollback_other [OF _ assms(2)] SetMounts_other [OF _ assms(2)] split: option.splits prod.splits sum.splits)

lemma createKernelSession_other:
  assumes "createKernelSession S E t req st = Some (resp, st')" and "MintID (se_mint E) \<noteq> sid"
  shows "entry (Sessions st') sid = entry (Sessions st) sid"
  using assms
  by (auto simp: createKernelSession_def Let_def dest!: Create_other(1) [where sid = sid] split: option.splits prod.splits sum.splits if_splits)

text \<open>A creation leaves the sessions that are there alone, since its id is new.\<close>

lemma handleCreateSession_other:
  assumes "handleCreateSession S E decode r c st = Some (resp, st')" and "sid \<notin> {MintID (se_mint E), MintID (ce_uuid (se_create E))}"
  shows "entry (Sessions st') sid = entry (Sessions st) sid"
proof -
  obtain req t where q: "st' = st \<or> createKernelSession S E t req st = Some (resp, st') \<or>
      (\<exists>co res m' ops. Session.Create S (se_create E) (Sessions st) (cs_Runtime req) co = Some (res, m', ops) \<and> o_ID co = [] \<and>
        (st' = st\<lparr>Sessions := m'\<rparr> \<or> (\<exists>s. res = Inr s \<and> attachVolume S E t (cs_VolumeID req) s (st\<lparr>Sessions := m'\<rparr>) = Some (resp, st'))))"
    using assms(1)
    by (fastforce simp: handleCreateSession_def reqTenant_def Let_def split: sum.splits decoded.splits if_splits option.splits prod.splits)
  from q show ?thesis
  proof (elim disjE exE conjE)
    fix co res m' ops
    assume c: "Session.Create S (se_create E) (Sessions st) (cs_Runtime req) co = Some (res, m', ops)" "o_ID co = []"
    have "(if o_ID co \<noteq> [] then o_ID co else MintID (ce_uuid (se_create E))) \<noteq> sid" using c(2) assms(2) by auto
    note o = Create_other [OF c(1) this]
    show "entry (Sessions st') sid = entry (Sessions st) sid" if "st' = st\<lparr>Sessions := m'\<rparr>" using that o by simp
    show "entry (Sessions st') sid = entry (Sessions st) sid"
      if "res = Inr s" "attachVolume S E t (cs_VolumeID req) s (st\<lparr>Sessions := m'\<rparr>) = Some (resp, st')" for s
      using attachVolume_other [OF that(2) o(2) [OF that(1)]] o by simp
  qed (use assms(2) createKernelSession_other [of S E t req st resp st' sid] in auto)
qed

lemma handleKernelExec_entry:
  assumes "handleKernelExec X sid' token t req r st = Some (resp, st')" and "entry (Sessions st) sid = Some s" and "stranger s token t"
  shows "entry (Sessions st') sid = Some s"
  using assms by (auto simp: handleKernelExec_def Let_def dest!: KernelExec_entry split: if_splits)

lemma handleSessionExec_entry:
  assumes "handleSessionExec S X sid' r (Some t) st = Some (resp, st')" and "entry (Sessions st) sid = Some s" and "stranger s (sessionToken r) t"
  shows "entry (Sessions st') sid = Some s"
proof -
  have k: "entry (Sessions st') sid = Some s" if "handleKernelExec X sid' (sessionToken r) t req r st = Some (resp, st')" for req
    by (rule handleKernelExec_entry [OF that assms(2,3)])
  have e: "entry m' sid = Some s" if "Session.Exec S (st_exec X) (st_waitOver X) (st_clock X) (Sessions st) sid' (sessionToken r) t spec = Some (res, m')" for spec res m'
    by (rule Exec_entry [OF that assms(2,3)])
  show ?thesis
    using assms(1,2) k e
    by (simp add: handleSessionExec_def reqTenant_def TenantFrom_def Let_def split: sum.splits decoded.splits if_splits option.splits)
       (auto 0 3)
qed

lemma session_files_entry:
  assumes "entry (Sessions st) sid = Some s" and "stranger s (sessionToken r) t"
  shows "handleSessionFSGet E sid' r (Some t) st = (resp, st') \<Longrightarrow> entry (Sessions st') sid = Some s"
    and "handleSessionFSPut E n sid' r (Some t) st = (resp, st') \<Longrightarrow> entry (Sessions st') sid = Some s"
    and "handleSessionFSDelete E sid' r (Some t) st = (resp, st') \<Longrightarrow> entry (Sessions st') sid = Some s"
  using assms
  by (auto simp: handleSessionFSGet_def handleSessionFSPut_def handleSessionFSDelete_def reqTenant_def TenantFrom_def Let_def
      dest!: WriteFile_entry split: sum.splits if_splits option.splits prod.splits)

lemma handleDestroySession_entry:
  assumes "handleDestroySession S E sid' r (Some t) st = Some (resp, st')" and "entry (Sessions st) sid = Some s" and "stranger s (sessionToken r) t"
  shows "entry (Sessions st') sid = Some s"
  using assms by (auto simp: handleDestroySession_def reqTenant_def TenantFrom_def dest!: Destroy_entry split: if_splits)

section \<open>Sequences of requests\<close>

definition mintedIDs :: "sessionEnv \<Rightarrow> string set" where
  "mintedIDs E = {MintID (se_mint E), MintID (ce_uuid (se_create E))}"

lemma onSessions_entry:
  assumes "onSessions h r c b = Some (resp, b')" and "sv_sessions b = Some m" and "entry m sid = Some s"
    and "\<And>st st'. h r c st = Some (resp, st') \<Longrightarrow> entry (Sessions st) sid = Some s \<Longrightarrow> entry (Sessions st') sid = Some s"
  shows "\<exists>m'. sv_sessions b' = Some m' \<and> entry m' sid = Some s"
  using assms(1-3) by (auto simp: onSessions_def dest!: assms(4))

lemma leaf_entry:
  assumes "leaf E e ps cap r (Some t) b = Some (resp, b')" and "sv_sessions b = Some m" and "entry m sid = Some s"
    and "stranger s (sessionToken r) t" and "sid \<notin> mintedIDs (a_sess E)"
  shows "\<exists>m'. sv_sessions b' = Some m' \<and> entry m' sid = Some s"
proof (cases e)
  case ESessCreate
  then show ?thesis
    using assms handleCreateSession_other [of "a_sem E" "a_sess E"] by (auto simp: leaf_def mintedIDs_def intro!: onSessions_entry)
next
  case ESessExec
  then show ?thesis using assms handleSessionExec_entry [OF _ _ assms(4)] by (auto simp: leaf_def intro!: onSessions_entry)
next
  case ESessFSGet
  then show ?thesis using assms session_files_entry(1) [OF _ assms(4)] by (auto simp: leaf_def intro!: onSessions_entry)
next
  case ESessFSPut
  then show ?thesis using assms session_files_entry(2) [OF _ assms(4)] by (auto simp: leaf_def intro!: onSessions_entry)
next
  case ESessFSDelete
  then show ?thesis using assms session_files_entry(3) [OF _ assms(4)] by (auto simp: leaf_def intro!: onSessions_entry)
next
  case ESessDestroy
  then show ?thesis using assms handleDestroySession_entry [OF _ _ assms(4)] by (auto simp: leaf_def intro!: onSessions_entry)
qed (use assms(1-3) in \<open>auto simp: leaf_def handleMetricsB_def onExecute_def onMemory_def onVolumes_def split: prod.splits option.splits\<close>)

lemma open_entry:
  assumes "leaf E e ps cap r c b = Some (resp, b')" and "e \<in> set open_eps"
  shows "sv_sessions b' = sv_sessions b"
  by (insert assms, cases e) (auto simp: open_eps_def leaf_def handleMetricsB_def split: prod.splits option.splits)

lemma serve_entry:
  assumes "ServeHTTP E rts r (L, Some b) = (resp, (L', Some b'))" and "sv_sessions b = Some m" and "entry m sid = Some s"
    and "\<And>t. tenantOf E r = Some t \<Longrightarrow> stranger s (sessionToken r) t" and "sid \<notin> mintedIDs (a_sess E)"
  shows "\<exists>m'. sv_sessions b' = Some m' \<and> entry m' sid = Some s"
  using serve_leaf [OF assms(1)] open_entry [of E _ _ None r None b] leaf_entry [OF _ assms(2,3) assms(4) assms(5)] assms(2,3)
  by fastforce

text \<open>An invariant of one request is an invariant of a sequence.\<close>

lemma serveSeq_invariant:
  assumes "serveSeq rts xs (L, Some b) = (L', Some b')" and "P b"
    and "\<And>E r L b resp L' b'. (E, r) \<in> set xs \<Longrightarrow> P b \<Longrightarrow> ServeHTTP E rts r (L, Some b) = (resp, (L', Some b')) \<Longrightarrow> P b'"
  shows "P b'"
  using assms
proof (induction xs arbitrary: L b)
  case (Cons x xs)
  obtain E r where x: "x = (E, r)" by fastforce
  obtain resp L1 b1' where v: "ServeHTTP E rts r (L, Some b) = (resp, (L1, b1'))" by (metis prod.collapse)
  then have rest: "serveSeq rts xs (L1, b1') = (L', Some b')" using Cons.prems(1) x by simp
  then obtain b1 where b1: "b1' = Some b1" using serveSeq_panicked [of rts xs L1] by (cases b1') auto
  have "P b1" by (rule Cons.prems(3) [OF _ Cons.prems(2) v [unfolded b1]]) (simp add: x)
  then show ?case using Cons.IH [OF rest [unfolded b1]] Cons.prems(3) by (metis list.set_intros(2))
qed simp

lemma vreach_pointers: "codec_ok C \<Longrightarrow> vreach C w \<Longrightarrow> pointers (mgr w)"
  using vreach_inv by (fastforce simp: world_inv_def vol_inv_def index_ok_def pointers_def)


text \<open>
  C8: A session belongs to the holder of its token.  Over any sequence of requests to any
  endpoints, a session stays in the map exactly as it is, its token, tenant, mounts
  and time of last activity included, unless a request names both its token and its
  tenant, as long as no creation mints its id again.
\<close>
theorem session_isolation:
  assumes "sv_sessions b = Some m" and "map_of (sessions m) sid = Some s"
    and "\<forall>(E, r) \<in> set xs. sid \<notin> mintedIDs (a_sess E) \<and> (\<forall>t. tenantOf E r = Some t \<longrightarrow> sessionToken r \<noteq> s_Token s \<or> t \<noteq> '''' \<and> t \<noteq> s_Tenant s)"
    and "serveSeq rts xs (L, Some b) = (L', Some b')"
  shows "\<exists>m'. sv_sessions b' = Some m' \<and> map_of (sessions m') sid = Some s"
proof (rule serveSeq_invariant [OF assms(4)])
  show "\<exists>m. sv_sessions b = Some m \<and> entry m sid = Some s" using assms(1,2) by blast
  fix E r L b resp L' b'
  assume x: "(E, r) \<in> set xs" "\<exists>m. sv_sessions b = Some m \<and> entry m sid = Some s" "ServeHTTP E rts r (L, Some b) = (resp, (L', Some b'))"
  then obtain m where "sv_sessions b = Some m" "entry m sid = Some s" by blast
  from serve_entry [OF x(3) this] show "\<exists>m. sv_sessions b' = Some m \<and> entry m sid = Some s"
    using assms(3) x(1) by (fastforce simp: stranger_def)
qed

section \<open>Instances\<close>

definition demo_key :: request where
  "demo_key = \<lparr>rq_Method = ''DELETE'', rq_Path = [], rq_Header = [''X-API-Key'' \<mapsto> ''a''], rq_Query = Map.empty, rq_Body = [], rq_RemoteAddr = []\<rparr>"

lemma demo_key_tenant: "tenantOf demo_api demo_key = Some (deriveTenant demo_sha ''a'')" "deriveTenant demo_sha ''a'' \<noteq> ''public''"
proof -
  have "requestKey demo_key = ''a''" "Resolve demo_sha (NewKeyStore demo_sha [''a'']) ''a'' = (deriveTenant demo_sha ''a'', True)"
      "deriveTenant demo_sha ''a'' \<noteq> ''public''" by code_simp+
  then show "tenantOf demo_api demo_key = Some (deriveTenant demo_sha ''a'')" "deriveTenant demo_sha ''a'' \<noteq> ''public''"
    by (simp_all add: tenantOf_def demo_api_def)
qed

text \<open>The server of the witnesses with every request sent to one endpoint.\<close>

definition demo_at :: "ep \<Rightarrow> string \<Rightarrow> (mem_tx, int \<times> int, bucket) apiEnv" where
  "demo_at e i = demo_api\<lparr>a_chi := \<lambda>_ _ _. Some (e, \<lambda>_. i)\<rparr>"

lemma demo_at_tenant: "tenantOf (demo_at e i) r = tenantOf demo_api r"
  by (simp add: demo_at_def tenantOf_def)

lemma demo_at_served:
  assumes "rq_Method r \<noteq> ''OPTIONS''" and "tenantOf demo_api r = Some t" and "e \<notin> set open_eps"
    and "leaf (demo_at e i) e (\<lambda>_. i) (capOf e) r (Some t) b = Some (resp, b')"
  shows "\<exists>L. serveSeq demo_rts [(demo_at e i, r)] (demo_lim, Some b) = (L, Some b')"
proof -
  obtain L where a: "admit exact_buckets 5 r demo_lim = (True, L)" using demo_admitted [of r] by (metis prod.collapse)
  have t: "tenantOf (demo_at e i) r = Some t" using assms(2) by (simp add: demo_at_tenant)
  have k: "\<not> keyRefused (demo_at e i) e t" by (simp add: keyRefused_def demo_at_def demo_api_def)
  have api: "a_buckets (demo_at e i) = exact_buckets" "a_now (demo_at e i) = 5" "a_chi (demo_at e i) = (\<lambda>_ _ _. Some (e, \<lambda>_. i))"
    by (simp_all add: demo_at_def demo_api_def)
  show ?thesis
    using assms by (simp add: ServeHTTP_def corsMiddleware_def api endpoint_gated [OF assms(3)] a t k recovered_def)
qed


theorem session_isolation_witness:
  "\<exists>L b' m'. serveSeq demo_rts [(demo_at ESessDestroy ''sess_5'', demo_key)]
       (demo_lim, Some (demo_backend\<lparr>sv_sessions := Some (demo_manager\<lparr>sessions := [(''sess_5'', demo_session)]\<rparr>)\<rparr>)) = (L, Some b') \<and>
     sv_sessions b' = Some m' \<and> map_of (sessions m') ''sess_5'' = Some demo_session"
proof -
  let ?m = "demo_manager\<lparr>sessions := [(''sess_5'', demo_session)]\<rparr>"
  let ?b = "demo_backend\<lparr>sv_sessions := Some ?m\<rparr>" and ?E = "demo_at ESessDestroy ''sess_5''"
  have tok: "sessionToken demo_key \<noteq> s_Token demo_session" by code_simp
  have e: "ESessDestroy \<notin> set open_eps" by (simp add: open_eps_def)
  have "authed (?m\<lparr>manager.Sema := sv_sema ?b, Reg := sv_reg ?b\<rparr>) ''sess_5'' (sessionToken demo_key) x = Inl ErrForbidden" for x
    using tok by (simp add: authed_def ConstantTimeCompare_eq)
  then have "\<exists>resp b'. leaf ?E ESessDestroy (\<lambda>_. ''sess_5'') (capOf ESessDestroy) demo_key (Some (deriveTenant demo_sha ''a'')) ?b = Some (resp, b')"
    by (simp add: leaf_def onSessions_def handleDestroySession_def reqTenant_def TenantFrom_def Destroy_def demo_at_def)
  then obtain resp b' L where q: "serveSeq demo_rts [(?E, demo_key)] (demo_lim, Some ?b) = (L, Some b')"
    using demo_at_served [OF _ demo_key_tenant(1) e] by (fastforce simp: demo_key_def)
  have "\<exists>m'. sv_sessions b' = Some m' \<and> map_of (sessions m') ''sess_5'' = Some demo_session"
  proof (rule session_isolation [OF _ _ _ q])
    have "''sess_5'' \<notin> mintedIDs (a_sess ?E)" by (simp add: mintedIDs_def demo_at_def demo_api_def demo_senv_def MintID_def race_env_def)
    then show "\<forall>(E, r) \<in> set [(?E, demo_key)]. ''sess_5'' \<notin> mintedIDs (a_sess E) \<and>
        (\<forall>t. tenantOf E r = Some t \<longrightarrow> sessionToken r \<noteq> s_Token demo_session \<or> t \<noteq> '''' \<and> t \<noteq> s_Tenant demo_session)"
      using tok by simp
    show "sv_sessions ?b = Some ?m" by simp
    show "map_of (sessions ?m) ''sess_5'' = Some demo_session" by simp
  qed
  then show ?thesis using q by blast
qed

end
