(* ===== verification/Wire.thy ===== *)
theory Wire
  imports JsonFields SessionsApi
begin

text \<open>
  The bytes on the program's two line-oriented channels: the requests and frames of a
  kernel (\<^verbatim>\<open>internal/session/kernel.go\<close>) and the event stream of an execution
  (\<^verbatim>\<open>internal/api/execute.go\<close>).  Both carry one JSON value per line; what user code
  writes or prints stays inside its value.
\<close>

section \<open>Kernel frames\<close>

record kReq =
  kq_ID :: string
  kq_Op :: string
  kq_Code :: string

definition reqJSON :: "kReq \<Rightarrow> json" where
  "reqJSON q = JObj ([(''id'', JStr (kq_ID q)), (''op'', JStr (kq_Op q))] @ (if kq_Code q = [] then [] else [(''code'', JStr (kq_Code q))]))"

definition marshalReq :: "string \<Rightarrow> string \<Rightarrow> bytes" where
  "marshalReq stepID code = Marshal (reqJSON \<lparr>kq_ID = stepID, kq_Op = ''exec'', kq_Code = code\<rparr>)"

definition respFields :: "kResp fields" where
  "respFields =
     [(''id'', field kr_ID kr_ID_update intoStr), (''type'', field kr_Type kr_Type_update intoStr),
      (''stream'', field kr_Stream kr_Stream_update intoStr), (''data'', field kr_Data kr_Data_update intoStr),
      (''ok'', field kr_OK kr_OK_update intoBool), (''error'', field kr_Error kr_Error_update intoStr),
      (''exc'', field (\<lambda>_. []) (\<lambda>_ r. r) intoStr), (''durationMs'', field kr_DurationMs kr_DurationMs_update intoInt),
      (''truncated'', field kr_Truncated kr_Truncated_update intoBool), (''proto'', field (\<lambda>_. 0) (\<lambda>_ r. r) intoInt),
      (''python'', field (\<lambda>_. []) (\<lambda>_ r. r) intoStr)]"

definition zeroResp :: kResp where
  "zeroResp = \<lparr>kr_ID = [], kr_Type = [], kr_Stream = [], kr_Data = [], kr_OK = False, kr_Error = [], kr_DurationMs = 0, kr_Truncated = False\<rparr>"

definition unmarshalResp :: "bytes \<Rightarrow> kResp option" where
  "unmarshalResp line = unmarshalInto respFields zeroResp line"

section \<open>Event streams\<close>

definition nl :: char where "nl = CHR 0x0A"

text \<open>\<open>json.Marshal\<close> of a Go map orders it by key.\<close>

fun sortKeys :: "json \<Rightarrow> json" where
  "sortKeys (JObj fs) = JObj (sort_key fst fs)"
| "sortKeys v = v"

definition event :: "string \<Rightarrow> json \<Rightarrow> string" where
  "event name payload = ''event: '' @ name @ [nl] @ ''data: '' @ Marshal (sortKeys payload) @ [nl, nl]"

text \<open>The text of a streamed response: the events that the sink wrote one after the other.\<close>

fun eventText :: "json \<Rightarrow> string" where
  "eventText (JObj [(_, JStr name), (_, payload)]) = event name payload"
| "eventText _ = []"

fun sseText :: "json \<Rightarrow> string" where
  "sseText (JArr evs) = concat (map eventText evs)"
| "sseText _ = []"

text \<open>How a client reads such a stream: lines end at a carriage return, a line feed or both; a blank line ends an event.\<close>

fun sseLines :: "string \<Rightarrow> string list" where
  "sseLines [] = [[]]"
| "sseLines (c # s) =
     (if c = CHR 0x0D then [] # sseLines (drop (if prefix [nl] s then 1 else 0) s)
      else if c = nl then [] # sseLines s
      else case sseLines s of l # ls \<Rightarrow> (c # l) # ls | [] \<Rightarrow> [[c]])"

definition fieldValue :: "string \<Rightarrow> string \<Rightarrow> string option" where
  "fieldValue f line =
     (if prefix (f @ '':'') line
      then Some (case drop (length f + 1) line of CHR '' '' # v \<Rightarrow> v | v \<Rightarrow> v) else None)"

fun sseEvents :: "string \<Rightarrow> string list \<Rightarrow> string list \<Rightarrow> (string \<times> string) list" where
  "sseEvents name ds [] = []"
| "sseEvents name ds (l # ls) =
     (if l = [] then (if ds = [] then [] else [(name, concat (map (\<lambda>d. d @ [nl]) (butlast ds)) @ last ds)]) @ sseEvents [] [] ls
      else case fieldValue ''event'' l of
        Some v \<Rightarrow> sseEvents v ds ls
      | None \<Rightarrow> (case fieldValue ''data'' l of Some v \<Rightarrow> sseEvents name (ds @ [v]) ls | None \<Rightarrow> sseEvents name ds ls))"

definition sseRead :: "string \<Rightarrow> (string \<times> string) list" where
  "sseRead s = sseEvents [] [] (sseLines s)"

section \<open>Reading a stream back\<close>

definition printable :: "string \<Rightarrow> bool" where
  "printable s \<longleftrightarrow> (\<forall>c \<in> set s. 32 \<le> byteVal c)"

lemma printable_simps [simp]: "printable []" "printable (c # s) \<longleftrightarrow> 32 \<le> byteVal c \<and> printable s" "printable (s @ t) \<longleftrightarrow> printable s \<and> printable t"
  by (auto simp: printable_def)

lemma printable_Marshal [simp]: "printable (Marshal v)"
  using Marshal_printable by (auto simp: printable_def)

lemma sseLines_line: "printable l \<Longrightarrow> sseLines (l @ nl # s) = l # sseLines s"
proof (induction l)
  case (Cons c l)
  then have "c \<noteq> CHR 0x0D" "c \<noteq> nl" by (auto simp: nl_def)
  then show ?case using Cons by simp
qed (simp add: nl_def)

lemma fieldValue_simps [simp]:
  "fieldValue ''event'' (''event: '' @ v) = Some v" "fieldValue ''event'' (''data: '' @ v) = None" "fieldValue ''data'' (''data: '' @ v) = Some v"
  by (simp_all add: fieldValue_def)

lemma sseEvents_event:
  assumes "printable name"
  shows "sseEvents [] [] (sseLines (event name payload @ s)) = (name, Marshal (sortKeys payload)) # sseEvents [] [] (sseLines s)"
proof -
  have "sseLines (event name payload @ s) = [''event: '' @ name, ''data: '' @ Marshal (sortKeys payload), []] @ sseLines s"
    using sseLines_line [of "''event: '' @ name"] sseLines_line [of "''data: '' @ Marshal (sortKeys payload)"] sseLines_line [of "[]"] assms
    by (simp add: event_def)
  then show ?thesis using fieldValue_simps by simp
qed

text \<open>A client reads back the events of a stream, each with its name and its payload on one line.\<close>

lemma sseRead_events:
  assumes "\<forall>(name, payload) \<in> set evs. printable name"
  shows "sseRead (sseText (JArr (map (\<lambda>(name, payload). sse_event name payload) evs))) = map (\<lambda>(name, payload). (name, Marshal (sortKeys payload))) evs"
  unfolding sseRead_def using assms
proof (induction evs)
  case (Cons ev evs)
  obtain name payload where ev: "ev = (name, payload)" by fastforce
  then show ?case using Cons sseEvents_event [of name payload] by (simp add: sse_event_def)
qed simp

abbreviation chunkEvent :: "bool \<times> bytes \<Rightarrow> string \<times> json" where
  "chunkEvent x \<equiv> (if fst x then ''stderr'' else ''stdout'', JObj [(''chunk'', JStr (snd x))])"

lemma nesting_sortKeys [simp]: "nesting (sortKeys p) = nesting p"
  by (cases p) simp_all

lemma sse_decoded:
  assumes "printable n" and "nesting p \<le> maxNestingDepth"
  shows "map (apsnd Unmarshal) (sseRead (sseText (JArr (map (\<lambda>x. case chunkEvent x of (n, p) \<Rightarrow> sse_event n p) sent @ [sse_event n p])))) =
    map (\<lambda>(isErr, b). (if isErr then ''stderr'' else ''stdout'', Some (VObj [(''chunk'', VStr (toValid b))]))) sent @ [(n, Some (val (sortKeys p)))]"
proof -
  let ?evs = "map chunkEvent sent @ [(n, p)]"
  have r: "sseRead (sseText (JArr (map (\<lambda>(n, p). sse_event n p) ?evs))) = map (\<lambda>(n, p). (n, Marshal (sortKeys p))) ?evs"
    by (rule sseRead_events) (use assms(1) in auto)
  have "Unmarshal (Marshal (JObj [(''chunk'', JStr b)])) = Some (VObj [(''chunk'', VStr (toValid b))])" for b
  proof -
    have "toValid ''chunk'' = ''chunk''" by code_simp
    then show ?thesis using Unmarshal_payload [of "JObj [(''chunk'', JStr b)]"] by (simp add: maxNestingDepth_def)
  qed
  moreover have "Unmarshal (Marshal (sortKeys p)) = Some (val (sortKeys p))" using assms(2) by (simp add: Unmarshal_payload)
  ultimately show ?thesis using r by (auto simp: comp_def)
qed

section \<open>Properties\<close>

lemma ascii_valid [simp]: "toValid ''run'' = ''run''" "toValid ''error'' = ''error''" "toValid ''id'' = ''id''" "toValid ''op'' = ''op''"
  "toValid ''exec'' = ''exec''" "toValid ''code'' = ''code''"
  by code_simp+

text \<open>
  C34: Program output cannot forge an event.  Whatever bytes the sandboxed program writes, a
  client that reads the stream of an execution gets exactly the events the handler
  sent, in their order: one per chunk, named by its stream and carrying the chunk (with
  invalid UTF-8 replaced), and then one more, with the error or with the result.
\<close>
theorem sse_stream:
  assumes "executeSSE True chunks exec backend name version spec st = (resp, st')"
  shows "\<exists>last. map (apsnd Unmarshal) (sseRead (sseText (rs_Body resp))) =
      map (\<lambda>(isErr, b). (if isErr then ''stderr'' else ''stdout'', Some (VObj [(''chunk'', VStr (toValid b))]))) (chunks spec) @ [last] \<and>
    (case exec spec of
       (res, Some e) \<Rightarrow> last = (''error'', Some (VObj [(''error'', VStr (toValid e))]))
     | (res, None) \<Rightarrow> (\<exists>fs. last = (''done'', Some (VObj fs)) \<and> (''run'', val (toRunResult res)) \<in> set fs))"
proof (cases "exec spec")
  case (Pair res err)
  let ?done = "JObj ([(''language'', JStr name), (''version'', JStr version), (''backend'', JStr backend), (''run'', toRunResult res)] @
     (if Network spec \<and> \<not> r_Network res then [(''warning'', JStr netWarning)] else []))"
  define n p where "n = (if err = None then ''done'' else ''error'')" and "p = (case err of None \<Rightarrow> ?done | Some e \<Rightarrow> jerror e)"
  have body: "rs_Body resp = JArr (map (\<lambda>x. case chunkEvent x of (n, p) \<Rightarrow> sse_event n p) (chunks spec) @ [sse_event n p])"
    using assms Pair by (auto simp: executeSSE_def Let_def n_def p_def split: option.splits)
  have "nesting p \<le> maxNestingDepth" by (auto simp: p_def toRunResult_def maxNestingDepth_def split: option.splits)
  then have r: "map (apsnd Unmarshal) (sseRead (sseText (rs_Body resp))) =
      map (\<lambda>(isErr, b). (if isErr then ''stderr'' else ''stdout'', Some (VObj [(''chunk'', VStr (toValid b))]))) (chunks spec) @ [(n, Some (val (sortKeys p)))]"
    unfolding body by (rule sse_decoded [rotated]) (simp add: n_def)
  have "\<exists>fs. val (sortKeys ?done) = VObj fs \<and> (''run'', val (toRunResult res)) \<in> set fs" by force
  moreover have er: "val (sortKeys (jerror a)) = VObj [(''error'', VStr (toValid a))]" for a by simp
  ultimately have "case (res, err) of
       (res, Some e) \<Rightarrow> (n, Some (val (sortKeys p))) = (''error'', Some (VObj [(''error'', VStr (toValid e))]))
     | (res, None) \<Rightarrow> (\<exists>fs. (n, Some (val (sortKeys p))) = (''done'', Some (VObj fs)) \<and> (''run'', val (toRunResult res)) \<in> set fs)"
    using er by (cases err) (simp_all add: n_def p_def del: sortKeys.simps)
  then show ?thesis unfolding Pair r by blast
qed

text \<open>
  C35: A step of a kernel is one line.  Whatever code the caller sends, the request written
  to the harness is a single line, which a JSON decoder reads back as the id of the
  step, the operation and the code (with invalid UTF-8 replaced), so that no code can
  be taken for a second request.
\<close>
theorem kernel_request:
  assumes "kExec U marshalReq stepID True reads clk e c code ms k = Some (r, snk, e', acts)" and "\<not> isDead e c" and "code \<noteq> []"
  shows "\<exists>line. [x \<leftarrow> acts. case x of WriteStdin _ \<Rightarrow> True | _ \<Rightarrow> False] = [WriteStdin (line @ [CHR 0x0A])] \<and> CHR 0x0A \<notin> set line \<and>
    Unmarshal line = Some (VObj [(''id'', VStr (toValid stepID)), (''op'', VStr ''exec''), (''code'', VStr (toValid code))])"
proof (intro exI conjI)
  have "acts = stepActions marshalReq stepID code c (stepWall (cfg e) ms)"
    using assms(1,2) by (auto simp: kExec_def Let_def split: option.splits prod.splits kfinal.splits)
  then show "[x \<leftarrow> acts. case x of WriteStdin _ \<Rightarrow> True | _ \<Rightarrow> False] = [WriteStdin (marshalReq stepID code @ [CHR 0x0A])]"
    by (simp add: stepActions_def)
  show "CHR 0x0A \<notin> set (marshalReq stepID code)" by (simp add: marshalReq_def Marshal_line)
  show "Unmarshal (marshalReq stepID code) = Some (VObj [(''id'', VStr (toValid stepID)), (''op'', VStr ''exec''), (''code'', VStr (toValid code))])"
    unfolding marshalReq_def using assms(3) by (subst Unmarshal_payload) (simp_all add: reqJSON_def maxNestingDepth_def)
qed

section \<open>Instances\<close>

text \<open>A chunk is what one read of the pipe returned: a rune cut in two by it is replaced in both halves.\<close>

lemma chunk_split_rune:
  "toValid [CHR 0xC3] @ toValid [CHR 0xA9] = runeError @ runeError" "toValid [CHR 0xC3, CHR 0xA9] = [CHR 0xC3, CHR 0xA9]"
  by code_simp+

text \<open>A program that prints a complete event of its own.\<close>

theorem sse_stream_witness:
  "map fst (sseRead (sseText (rs_Body (fst (executeSSE True (\<lambda>_. [(False, [nl, nl] @ ''event: done'' @ [nl] @ ''data: 0'' @ [nl, nl])])
     (\<lambda>_. (zero_Result, None)) ''g'' ''py'' ''3'' demo_spec \<lparr>server.Sema = New counter 1, execTotal = []\<rparr>))))) = [''stdout'', ''done'']"
proof -
  let ?chunks = "\<lambda>_. [(False, [nl, nl] @ ''event: done'' @ [nl] @ ''data: 0'' @ [nl, nl])]" and ?exec = "\<lambda>_. (zero_Result, None)"
  obtain resp st' where x: "executeSSE True ?chunks ?exec ''g'' ''py'' ''3'' demo_spec \<lparr>server.Sema = New counter 1, execTotal = []\<rparr> = (resp, st')"
    by fastforce
  let ?s = "sseRead (sseText (rs_Body resp))"
  obtain fs where "map (apsnd Unmarshal) ?s = [(''stdout'', Some (VObj [(''chunk'', VStr (toValid (snd (hd (?chunks ())))))])), (''done'', Some (VObj fs))]"
    using sse_stream [OF x] by auto
  then have "map fst (map (apsnd Unmarshal) ?s) = [''stdout'', ''done'']" by simp
  then show ?thesis using x by (simp add: comp_def)
qed

text \<open>Code with a line that looks like a request of its own.\<close>

theorem kernel_request_witness:
  "\<exists>r snk e' acts line. kExec unmarshalResp marshalReq ''i'' True
       [KLine (Marshal (JObj [(''id'', JStr ''i''), (''type'', JStr ''stream''), (''data'', JStr ''hi'')]) @ [nl]) False 1,
        KLine (Marshal (JObj [(''type'', JStr ''result''), (''ID'', JStr ''i''), (''ok'', JBool True)]) @ [nl]) False 2]
       9 demo_engine ''c1'' (''1'' @ [nl] @ ''{}'') 0 True = Some ((r, None), snk, e', acts) \<and> Stdout r = ''hi'' \<and>
     Unmarshal line = Some (VObj [(''id'', VStr ''i''), (''op'', VStr ''exec''), (''code'', VStr (''1'' @ [nl] @ ''{}''))]) \<and>
     WriteStdin (line @ [CHR 0x0A]) \<in> set acts"
proof -
  let ?reads = "[KLine (Marshal (JObj [(''id'', JStr ''i''), (''type'', JStr ''stream''), (''data'', JStr ''hi'')]) @ [nl]) False 1,
        KLine (Marshal (JObj [(''type'', JStr ''result''), (''ID'', JStr ''i''), (''ok'', JBool True)]) @ [nl]) False 2]"
  have f: "unmarshalResp (Marshal (JObj [(''id'', JStr ''i''), (''type'', JStr ''stream''), (''data'', JStr ''hi'')]) @ [nl]) =
      Some (zeroResp\<lparr>kr_ID := ''i'', kr_Type := ''stream'', kr_Data := ''hi''\<rparr>)"
    "unmarshalResp (Marshal (JObj [(''type'', JStr ''result''), (''ID'', JStr ''i''), (''ok'', JBool True)]) @ [nl]) =
      Some (zeroResp\<lparr>kr_ID := ''i'', kr_Type := ''result'', kr_OK := True\<rparr>)" by code_simp+
  have d: "\<not> isDead demo_engine ''c1''" by (simp add: isDead_def demo_defs)
  obtain r snk e' acts where x: "kExec unmarshalResp marshalReq ''i'' True ?reads 9 demo_engine ''c1'' (''1'' @ [nl] @ ''{}'') 0 True =
      Some ((r, None), snk, e', acts)" "Stdout r = ''hi''"
    using d by (auto simp: kExec_def Let_def f zeroResp_def newLoop_def streamFrame_def buf_Write_def resultFrame_def demo_defs simp del: Marshal.simps)
  have v: "toValid ''i'' = ''i''" "toValid (''1'' @ [nl] @ ''{}'') = ''1'' @ [nl] @ ''{}''" by code_simp+
  from kernel_request [OF x(1) d] obtain line where l: "[x \<leftarrow> acts. case x of WriteStdin _ \<Rightarrow> True | _ \<Rightarrow> False] = [WriteStdin (line @ [CHR 0x0A])]"
      "Unmarshal line = Some (VObj [(''id'', VStr ''i''), (''op'', VStr ''exec''), (''code'', VStr (''1'' @ [nl] @ ''{}''))])"
    unfolding v by auto
  have "WriteStdin (line @ [CHR 0x0A]) \<in> set acts" using arg_cong [OF l(1), of set] by auto
  then show ?thesis using x l(2) by blast
qed

end
