(* ===== verification/Spec2Isabelle.thy ===== *)
theory Spec2Isabelle
  imports Daemon Isolation Wire
begin

text \<open>
  \<^bold>\<open>isobox\<close> is a code-execution service written in Go.  A daemon
  (\<^verbatim>\<open>cmd/isoboxd\<close>) serves an HTTP API (\<^verbatim>\<open>internal/api\<close>): one-shot executions of
  source code, interactive sessions with a workspace and optionally a resident kernel,
  and persistent memory (volumes and a key/value store).  Code runs in gVisor
  containers that the daemon starts through the \<^verbatim>\<open>docker\<close> command.  Requests are rate
  limited per client, authenticated to a tenant by an API key, and gated by a
  concurrency limiter; one-shot jobs may travel through a Valkey job bus.

  \<^bold>\<open>What the development is.\<close>  It is a shallow embedding: each Go type is a record or
  a datatype, each function or method a HOL function of the same name (suffixed or
  prefixed where the name is a constant of HOL), each critical section of a locked
  object one function from state to state.  Go's \<open>error\<close> results are values of a
  sum or an option; a panic is \<open>None\<close> where the code can panic (a semaphore released
  below zero).  Strings and byte slices are \<^typ>\<open>string\<close> (a \<^typ>\<open>char\<close> is one byte);
  \<open>int\<close>, \<open>int64\<close> and \<open>time.Duration\<close> are \<^typ>\<open>int\<close> with \<open>wrap64\<close> written where
  the code multiplies or accumulates; the fixed-width keys of the expiry index are
  words; a float is a rational, an infinity or NaN.  What the operating system, a
  container, a clock or a third-party package answers is an argument of the
  definition that asks.

  \<^bold>\<open>The theories, by part of the program.\<close>
  \<^item> \<^emph>\<open>Language library\<close>: \<^verbatim>\<open>Prelude\<close> (byte strings, big-endian encoding, option and
    sum lemmas, collections), \<^verbatim>\<open>Codec\<close> (hex, base64), \<^verbatim>\<open>GoText\<close> (package strings,
    strconv, 64-bit wrap-around), \<^verbatim>\<open>GoPath\<close> (filepath.Clean and Join), \<^verbatim>\<open>GoNet\<close>
    (SplitHostPort, ParseIP, IsLoopback), \<^verbatim>\<open>HostFs\<close> (WalkDir), \<^verbatim>\<open>Http\<close> (requests,
    responses, JSON, handlers as functions of request, context and state), \<^verbatim>\<open>JsonNumber\<close>,
    \<^verbatim>\<open>Json\<close> and \<^verbatim>\<open>JsonFields\<close> (\<^verbatim>\<open>encoding/json\<close> on bytes: number literals and the shortest
    text of floats, the encoder with its escapes and its replacement of invalid UTF-8,
    the decoder, decoding into the fields of a struct, and the round trips).
  \<^item> \<^emph>\<open>Key/value store\<close>, \<^verbatim>\<open>internal/memory/kv.go\<close>: \<^verbatim>\<open>Bolt\<close> states the contract of the
    embedded database as the locale \<open>bolt_db\<close> (its operations are a record of
    functions, its laws speak of a view as nested maps) and interprets it on a
    database in memory; \<^verbatim>\<open>KVStore\<close> has the operations; \<^verbatim>\<open>KVSpec\<close> the abstract state of
    one tenant and the locale \<open>kv_backend\<close> (the database with a codec whose
    decoding inverts its encoding), in which \<^verbatim>\<open>KVCorrect\<close>, \<^verbatim>\<open>KVProps\<close> and \<^verbatim>\<open>KVPaging\<close>
    prove the simulation; \<^verbatim>\<open>KVTheorems\<close> (accounting, round trip, quota, sweep, paging)
    and \<^verbatim>\<open>KVRefine\<close> (refinement of a map from tenants to maps) have the properties.
  \<^item> \<^emph>\<open>Volumes\<close>, \<^verbatim>\<open>internal/memory/volume.go\<close>: \<^verbatim>\<open>Volume\<close> has the index as a heap of
    volume objects with a map of addresses (Go keeps pointers, and a holder is seen
    through them), the tree on disk, and every operation split at its locks;
    \<^verbatim>\<open>VolumeProps\<close> the step relation that interleaves them; \<^verbatim>\<open>VolumeTheorems\<close> the
    properties (one writer, index, restart, host paths).
  \<^item> \<^emph>\<open>Execution\<close>, \<^verbatim>\<open>internal/executor\<close>: \<^verbatim>\<open>Executor\<close> (types, output capping, shell
    quoting), \<^verbatim>\<open>Gvisor\<close> (the argv, the launch script, the run and its clean-up),
    \<^verbatim>\<open>WarmPool\<close> (pre-booted containers as a step relation), \<^verbatim>\<open>Registry\<close> (the language
    catalogue of \<^verbatim>\<open>internal/registry\<close>), \<^verbatim>\<open>Reaper\<close> (the orphan sweep of
    \<^verbatim>\<open>internal/reaper\<close> over the locale \<open>docker_cli\<close>).
  \<^item> \<^emph>\<open>Scheduling and jobs\<close>: \<^verbatim>\<open>Sched\<close> (the limiter of \<^verbatim>\<open>internal/sched\<close> over the locale
    \<open>weighted_sem\<close>, the contract of x/sync's weighted semaphore), \<^verbatim>\<open>JobBus\<close>
    (\<^verbatim>\<open>internal/queue\<close>: connection, submission, workers, redelivery, over the locale
    \<open>job_broker\<close>, which joins the contract \<open>redis_broker\<close> of the broker's commands and the
    laws \<open>job_codec\<close> of the encodings), \<^verbatim>\<open>JobWire\<close> (jobs and results as JSON, which interprets
    \<open>job_codec\<close>, and the properties of the bus).
  \<^item> \<^emph>\<open>Sessions\<close>, \<^verbatim>\<open>internal/session\<close>: \<^verbatim>\<open>Kernel\<close> and \<^verbatim>\<open>KernelProps\<close> (resident kernels
    and their line protocol), \<^verbatim>\<open>Session\<close> (the manager), \<^verbatim>\<open>SessionProps\<close> (tokens and
    paths), \<^verbatim>\<open>SessionSweep\<close> (the disk sweep), \<^verbatim>\<open>SessionSlots\<close> (kernel slots under
    interleaving).
  \<^item> \<^emph>\<open>HTTP API\<close>, \<^verbatim>\<open>internal/api\<close>: \<^verbatim>\<open>Auth\<close> (with \<^verbatim>\<open>internal/auth\<close>), \<^verbatim>\<open>RateLimit\<close> (over
    the locale \<open>token_bucket\<close>, the contract of x/time/rate), \<^verbatim>\<open>ExecuteApi\<close>,
    \<^verbatim>\<open>MemoryApi\<close>, \<^verbatim>\<open>VolumesApi\<close>, \<^verbatim>\<open>SessionsApi\<close>, \<^verbatim>\<open>Metrics\<close> (with \<^verbatim>\<open>internal/obs\<close>),
    \<^verbatim>\<open>Health\<close>, \<^verbatim>\<open>Web\<close> (\<^verbatim>\<open>internal/web\<close>) and \<^verbatim>\<open>Router\<close>, which composes all of them
    into one server state and one function \<open>ServeHTTP\<close>.
  \<^item> \<^emph>\<open>Wire formats\<close>: \<^verbatim>\<open>Wire\<close> has the bytes of the kernel's request and response lines
    (\<^verbatim>\<open>kReq\<close> and \<^verbatim>\<open>kResp\<close> of \<^verbatim>\<open>internal/session/kernel.go\<close>) and of the event stream of an
    execution (\<^verbatim>\<open>sseSink\<close> of \<^verbatim>\<open>internal/api/execute.go\<close>), with the client side of such a
    stream as its specification.
  \<^item> \<^emph>\<open>Composition\<close>: \<^verbatim>\<open>SessionVolumes\<close> (sessions with the volumes they hold, under
    interleaving), \<^verbatim>\<open>SessionsApiProps\<close> (what a session request leaves behind),
    \<^verbatim>\<open>RouterProps\<close> (gates, isolation of the tenants' memory over request sequences),
    \<^verbatim>\<open>Isolation\<close> (the same for volumes and sessions), \<^verbatim>\<open>Daemon\<close>
    (\<^verbatim>\<open>cmd/isoboxd/main.go\<close>: configuration from the environment, construction, background
    loops, shutdown).

  \<^bold>\<open>What is shown.\<close>
  \<^item> \<^emph>\<open>Isolation and confinement\<close>: a tenant's memory and volumes change only by requests
    authenticated as that tenant, and a session only by requests with its token; no state-changing handler runs before its gates; the
    container flags of sandboxes and kernels; network only when asked, allowed and
    firewalled; session paths and volume paths stay below their roots; assets are
    served from the bundle only; a kernel step honours frames with its own id only.
  \<^item> \<^emph>\<open>Invariants under interleaving\<close>: exact accounting and expiry index of the store,
    one writer per volume, slots equal to kernel sessions, volumes held by live
    sessions only, single use of warm containers, a balanced limiter.
  \<^item> \<^emph>\<open>Refinement and equivalence\<close>: the store refines a map; transactions implement
    abstract operations; paging enumerates the live keys once; the limiter with its
    janitor is observably the limiter without.
  \<^item> \<^emph>\<open>Round trips\<close>: put/get in the store and over HTTP, volumes across a restart, the
    launch script read back as shell words, job and result over the bus; the event
    stream of an execution and the request of a kernel step as bytes, which no program
    output and no submitted code can break out of.
  \<^item> \<^emph>\<open>Errors, bounds, progress\<close>: a failed session creation leaves nothing; limits stay
    within ceilings; output is cut at its limit; an execution removes what it started;
    a submission ends after finitely many polls; a kernel step ends once its channel
    does, and the kill that ends it is armed in time; shutdown releases everything.

  \<^bold>\<open>Bounds and fuel.\<close>  All loops over finite data are structural.  A loop that waits is
  a function of the finite list of what it reads or receives: \<open>readLoop\<close> and the
  reaper's \<open>Run\<close> consume such a list, and \<open>None\<close> (where they have it) says the loop is
  still blocked at its end.  \<open>list_all_pages\<close> has a number of requests as fuel, and its
  theorem says one more than the number of live keys is enough.  The wait of a job
  submission recurses on the time left; each poll takes at most one second.
  The JSON parser has two calls per byte of input as fuel, which is never used up
  (\<open>parse_bound\<close>), and the nesting limit of the library.
  Hypotheses of the form \<open>< 2 ^ 63\<close> bound clocks, times to live and sizes so that the
  \<open>int64\<close> arithmetic is exact; where a caller can break one (\<^verbatim>\<open>X-TTL-Seconds\<close>) the
  wrap-around itself is a lemma.  The rate bound assumes a burst of at most fifteen
  minutes of refill, the idle time after which the janitor drops a bucket.

  \<^bold>\<open>Not modelled.\<close>  The code of third-party packages (bbolt, x/sync, x/time, chi,
  go-redis, uuid) appears as parameters with contracts, and \<^verbatim>\<open>encoding/gob\<close>, SHA-256
  and the decoding of request bodies and files by \<^verbatim>\<open>encoding/json\<close> as functions that are
  arguments.  chi's matching of a path
  to a route is an argument of the router, and the properties of the whole server
  hold whatever route it chooses.  The listener, TLS settings, signals and timeouts of \<^verbatim>\<open>net/http\<close>, log output,
  the contents of embedded files and the Python harness inside a kernel container are
  outside.  The integration test of \<^verbatim>\<open>test/integration\<close> drives a running daemon and is
  not part of the program.  Requests are interleaved at the granularity of critical
  sections inside a component, and one after the other in the properties
  of the whole server.
\<close>

end
